(* ===== verification/Prelude.thy ===== *)
theory Prelude
  imports Main "HOL-Library.Log_Nat"
begin

text \<open>
  Shared vocabulary of the development: Go's 64 bit integers with their wrap-around, instants and
  durations of the \<^verbatim>\<open>time\<close> package as nanosecond counts, decimal printing as \<^verbatim>\<open>strconv\<close> does it,
  and the lemma collections that the component theories extend.

  \<^item> \<open>go_int\<close> facts compute with wrapped integers that stay in range.
  \<^item> \<open>go_time\<close> facts unfold the arithmetic of instants.
  \<^item> \<open>f64\<close> facts (theory \<open>Float64\<close>) are the laws of rounded binary64 arithmetic.
\<close>

named_theorems go_int \<open>wrap-around arithmetic that stays in range\<close>
named_theorems go_time \<open>instants and durations\<close>

section \<open>Machine integers\<close>

text \<open>A Go \<^verbatim>\<open>int\<close> or \<^verbatim>\<open>int64\<close> is a mathematical integer reduced to two's complement 64 bits after
  every arithmetic operation; a \<^verbatim>\<open>uint64\<close> is a natural number modulo \<open>2 ^ 64\<close>.\<close>

type_synonym goint = int

definition wrap64 :: "int \<Rightarrow> goint" where
  "wrap64 x = (x + 2 ^ 63) mod 2 ^ 64 - 2 ^ 63"

definition int64_ok :: "int \<Rightarrow> bool" where
  "int64_ok x \<longleftrightarrow> - (2 ^ 63) \<le> x \<and> x < 2 ^ 63"

definition wrap_u64 :: "nat \<Rightarrow> nat" where
  "wrap_u64 n = n mod 2 ^ 64"

definition max_int64 :: goint where
  "max_int64 = 2 ^ 63 - 1"

definition iadd :: "goint \<Rightarrow> goint \<Rightarrow> goint" where
  "iadd a b = wrap64 (a + b)"

definition isub :: "goint \<Rightarrow> goint \<Rightarrow> goint" where
  "isub a b = wrap64 (a - b)"

lemma wrap64_id [simp, go_int]: "int64_ok x \<Longrightarrow> wrap64 x = x"
  by (simp add: wrap64_def int64_ok_def mod_pos_pos_trivial)

lemma wrap64_over: "2 ^ 63 \<le> x \<Longrightarrow> x < 2 ^ 63 + 2 ^ 64 \<Longrightarrow> wrap64 x = x - 2 ^ 64"
  using mod_add_self2 [of "x - 2 ^ 63" "2 ^ 64"] by (simp add: wrap64_def add.commute)

lemma wrap64_range [simp]: "int64_ok (wrap64 x)"
proof -
  have "0 \<le> (x + 2 ^ 63) mod 2 ^ 64" and "(x + 2 ^ 63) mod 2 ^ 64 < (2 ^ 64 :: int)"
    by simp_all
  then show ?thesis by (simp add: wrap64_def int64_ok_def)
qed

lemma iadd_range [simp]: "int64_ok (iadd a b)" and isub_range [simp]: "int64_ok (isub a b)"
  by (simp_all add: iadd_def isub_def)

lemma iadd_exact [go_int]: "int64_ok (a + b) \<Longrightarrow> iadd a b = a + b"
  by (simp add: iadd_def)

lemma isub_exact [go_int]: "int64_ok (a - b) \<Longrightarrow> isub a b = a - b"
  by (simp add: isub_def)

lemma iadd_small:
  assumes "0 \<le> a" "a \<le> 2 ^ 62" "0 \<le> b" "b \<le> 2 ^ 62 - 1"
  shows "iadd a b = a + b"
  using assms by (intro iadd_exact) (simp add: int64_ok_def)

lemma wrap_u64_id [simp, go_int]: "n < 2 ^ 64 \<Longrightarrow> wrap_u64 n = n"
  by (simp add: wrap_u64_def)

lemma wrap_u64_less [simp]: "wrap_u64 n < 2 ^ 64"
  by (simp add: wrap_u64_def)

section \<open>Instants and durations\<close>

text \<open>An instant is the number of nanoseconds since Go's zero time, so \<^verbatim>\<open>IsZero\<close> is equality
  with 0; a duration is a nanosecond count. \<^verbatim>\<open>Sub\<close> saturates at the ends of \<^verbatim>\<open>int64\<close>, as the
  \<^verbatim>\<open>time\<close> package does.\<close>

type_synonym instant = int
type_synonym duration = int

definition sat64 :: "int \<Rightarrow> int" where
  "sat64 x = max (- (2 ^ 63)) (min (2 ^ 63 - 1) x)"

definition time_Sub :: "instant \<Rightarrow> instant \<Rightarrow> duration" where
  "time_Sub t u = sat64 (t - u)"

definition Millisecond :: duration where "Millisecond = 1000000"
definition Second :: duration where "Second = 1000000000"
definition Minute :: duration where "Minute = 60 * Second"
definition Hour :: duration where "Hour = 60 * Minute"

lemmas time_unit_defs [go_time] = Hour_def Minute_def Second_def Millisecond_def

lemma time_Sub_ge_iff [go_time]:
  "- (2 ^ 63) < d \<Longrightarrow> d < 2 ^ 63 \<Longrightarrow> d \<le> time_Sub t u \<longleftrightarrow> u + d \<le> t"
  by (auto simp: time_Sub_def sat64_def max_def min_def)

lemma time_Sub_less_iff [go_time]:
  "- (2 ^ 63) < d \<Longrightarrow> d < 2 ^ 63 \<Longrightarrow> time_Sub t u < d \<longleftrightarrow> t < u + d"
  by (auto simp: time_Sub_def sat64_def max_def min_def)

lemma time_Sub_less_pos: "0 < d \<Longrightarrow> d < 2 ^ 63 \<Longrightarrow> time_Sub t u < d \<longleftrightarrow> t < u + d"
  by (rule time_Sub_less_iff) simp_all

lemma time_Sub_ge_pos: "0 < d \<Longrightarrow> d < 2 ^ 63 \<Longrightarrow> d \<le> time_Sub t u \<longleftrightarrow> u + d \<le> t"
  by (rule time_Sub_ge_iff) simp_all

lemma time_Sub_self [simp]: "time_Sub t t = 0"
  by (simp add: time_Sub_def sat64_def)

section \<open>Decimal printing\<close>

text \<open>\<^verbatim>\<open>strconv.FormatUint(n, 10)\<close> and \<^verbatim>\<open>strconv.Itoa\<close>.\<close>

definition digit_char :: "nat \<Rightarrow> char" where
  "digit_char d = char_of (48 + d)"

fun FormatUint :: "nat \<Rightarrow> string" where
  "FormatUint n = (if n < 10 then [digit_char n] else FormatUint (n div 10) @ [digit_char (n mod 10)])"

declare FormatUint.simps [simp del]

definition Itoa :: "int \<Rightarrow> string" where
  "Itoa i = (if i < 0 then CHR ''-'' # FormatUint (nat (- i)) else FormatUint (nat i))"

definition dec_value :: "string \<Rightarrow> nat" where
  "dec_value s = foldl (\<lambda>acc c. 10 * acc + (of_char c - 48)) 0 s"

lemma of_char_digit_char: "d < 10 \<Longrightarrow> of_char (digit_char d) = 48 + d"
  by (simp add: digit_char_def)

lemma dec_value_FormatUint [simp]: "dec_value (FormatUint n) = n"
proof (induction n rule: FormatUint.induct)
  case (1 n)
  show ?case
  proof (cases "n < 10")
    case True
    then show ?thesis
      by (subst FormatUint.simps) (simp add: dec_value_def of_char_digit_char)
  next
    case False
    with "1.IH" have "dec_value (FormatUint (n div 10)) = n div 10" by simp
    with False show ?thesis
      by (subst FormatUint.simps) (simp add: dec_value_def of_char_digit_char)
  qed
qed

lemma FormatUint_inject [simp]: "FormatUint m = FormatUint n \<longleftrightarrow> m = n"
  by (metis dec_value_FormatUint)

section \<open>Lists, options and maps\<close>

lemma sum_list_remove1:
  fixes f :: "'a \<Rightarrow> 'b :: ab_group_add"
  assumes "x \<in> set xs"
  shows "sum_list (map f (remove1 x xs)) = sum_list (map f xs) - f x"
  using assms by (induction xs) (auto simp: algebra_simps)

lemma map_upd_Some_iff: "(m(k \<mapsto> v)) k' = Some w \<longleftrightarrow> (if k' = k then w = v else m k' = Some w)"
  by auto

end
