(* ===== verification/Providers.thy ===== *)
theory Providers
  imports Prelude
begin

text \<open>
  The provider contract (\<^verbatim>\<open>src/internal/providers/types.go\<close>, \<^verbatim>\<open>errors.go\<close>): token usage, stream
  chunks, the error classes that routing keys off, the error values that cross a provider boundary
  with Go's \<^verbatim>\<open>errors.Is\<close> and \<^verbatim>\<open>errors.As\<close> over their unwrap chain, and the readers a stream is
  wrapped in on its way to the ingress.
\<close>

section \<open>Usage and chunks\<close>

text \<open>Byte slices and Go strings are lists of 8 bit characters.\<close>

type_synonym bytes = string

record usage =
  PromptTokens :: goint
  CompletionTokens :: goint
  TotalTokens :: goint

definition zero_usage :: usage where
  "zero_usage = \<lparr>PromptTokens = 0, CompletionTokens = 0, TotalTokens = 0\<rparr>"

record stream_chunk =
  ChunkData :: bytes
  ChunkUsage :: "usage option"
  Keepalive :: bool

definition empty_chunk :: stream_chunk where
  "empty_chunk = \<lparr>ChunkData = [], ChunkUsage = None, Keepalive = False\<rparr>"

record chat_request =
  ReqModel :: string
  ReqStream :: bool
  ReqRaw :: bytes

record chat_response =
  RespModel :: string
  RespProvider :: string
  RespBody :: bytes
  RespUsage :: usage

section \<open>Error classes\<close>

datatype error_class =
    ErrClassAuth
  | ErrClassPaymentRequired
  | ErrClassRateLimited
  | ErrClassInvalidRequest
  | ErrClassModelNotFound
  | ErrClassUpstream
  | ErrClassTimeout
  | ErrClassCanceled
  | ErrClassInternal

text \<open>An error value is a \<^verbatim>\<open>ProviderError\<close> with its optional cause, a \<^verbatim>\<open>fmt.Errorf\<close> wrapper around a
  cause, one of the sentinels the code compares against, or any other error.\<close>

datatype err =
    ProviderError string error_class goint string "err option"
  | WrapErr string err
  | ContextCanceled
  | ContextDeadlineExceeded
  | IoEOF
  | ErrStreamTruncated
  | ErrSSEEventTooLarge
  | OtherErr string

fun Unwrap :: "err \<Rightarrow> err option" where
  "Unwrap (ProviderError _ _ _ _ cause) = cause"
| "Unwrap (WrapErr _ cause) = Some cause"
| "Unwrap _ = None"

fun errors_Is :: "err \<Rightarrow> err \<Rightarrow> bool" where
  "errors_Is (ProviderError p c s m (Some cause)) target =
     (ProviderError p c s m (Some cause) = target \<or> errors_Is cause target)"
| "errors_Is (WrapErr m cause) target = (WrapErr m cause = target \<or> errors_Is cause target)"
| "errors_Is e target = (e = target)"

text \<open>\<^verbatim>\<open>errors.As(err, &pe)\<close>: the class of the first \<^verbatim>\<open>ProviderError\<close> on the chain.\<close>

fun errors_As :: "err \<Rightarrow> err option" where
  "errors_As (ProviderError p c s m cause) = Some (ProviderError p c s m cause)"
| "errors_As (WrapErr _ cause) = errors_As cause"
| "errors_As _ = None"

fun pe_Class :: "err \<Rightarrow> error_class option" where
  "pe_Class (ProviderError _ c _ _ _) = Some c"
| "pe_Class _ = None"

lemma errors_As_is_ProviderError:
  "errors_As e = Some pe \<Longrightarrow> \<exists>p c s m cause. pe = ProviderError p c s m cause"
  by (induction e rule: errors_As.induct) auto

lemma errors_Is_refl [simp]: "errors_Is e e"
  by (cases e rule: Unwrap.cases) (auto, metis errors_Is.simps(1) errors_Is.simps(3) not_None_eq)

text \<open>\<^verbatim>\<open>ClassFromStatus\<close>: the class of an upstream HTTP status.\<close>

definition ClassFromStatus :: "goint \<Rightarrow> error_class" where
  "ClassFromStatus code =
     (if code = 401 \<or> code = 403 then ErrClassAuth
      else if code = 402 then ErrClassPaymentRequired
      else if code = 429 then ErrClassRateLimited
      else if code = 404 then ErrClassModelNotFound
      else if code = 400 \<or> code = 422 then ErrClassInvalidRequest
      else if 500 \<le> code then ErrClassUpstream
      else ErrClassInternal)"

definition Is2xx :: "goint \<Rightarrow> bool" where
  "Is2xx code \<longleftrightarrow> 200 \<le> code \<and> code < 300"

section \<open>Stream readers and what they answer about themselves\<close>

text \<open>A reader as the ingress sees it is an adapter's own reader, possibly inside the wrapper that
  \<^verbatim>\<open>WithModel\<close> adds (\<^verbatim>\<open>rewrite.go\<close>), possibly inside the router's \<^verbatim>\<open>timedReader\<close>. The ingress asks
  it two optional questions by type assertion; a wrapper answers only the methods it declares.\<close>

datatype reader =
    AdapterReader
  | renamedStream reader string
  | timedReader reader string

fun AnsweringProvider :: "reader \<Rightarrow> string option" where
  "AnsweringProvider AdapterReader = None"
| "AnsweringProvider (renamedStream r _) =
     Some (case AnsweringProvider r of Some p \<Rightarrow> p | None \<Rightarrow> [])"
| "AnsweringProvider (timedReader _ p) = Some p"

fun AnsweringModel :: "reader \<Rightarrow> string option" where
  "AnsweringModel AdapterReader = None"
| "AnsweringModel (renamedStream _ m) = Some m"
| "AnsweringModel (timedReader _ _) = None"

text \<open>\<^verbatim>\<open>WithModel\<close> on the stream path: the reader of a retargeted provider.\<close>

definition WithModel_stream :: "string \<Rightarrow> reader \<Rightarrow> reader" where
  "WithModel_stream upstreamModel r =
     (if upstreamModel = [] then r else renamedStream r upstreamModel)"

end
