(* ===== verification/Float64.thy ===== *)
theory Float64
  imports Prelude
begin

text \<open>
  Go's \<^verbatim>\<open>float64\<close> arithmetic: a finite value is a rational, every operation computes exactly and
  rounds once to nearest, ties to even, with 53 bit significands and the subnormal range, as IEEE 754
  binary64 prescribes. Infinities, NaN and the sign of zero are left out: the amounts of the program
  stay far below \<open>2 ^ 1024\<close>. Go may fuse a product and a sum on some architectures; the model rounds
  both, as the amd64 compiler does.

  The theory proves rounding monotone, idempotent and exact on every 53 bit dyadic number, bounds its
  absolute and relative error, and packages the laws of addition as the interface \<open>rounded_addition\<close>
  that the accounting theories use.
\<close>

named_theorems f64 \<open>laws of rounded arithmetic\<close>

type_synonym float64 = rat

section \<open>Rounding\<close>

text \<open>The binary exponent of a positive rational: \<open>2 ^ e \<le> x < 2 ^ (e + 1)\<close>.\<close>

definition expo2 :: "rat \<Rightarrow> int" where
  "expo2 x = (case quotient_of x of (p, q) \<Rightarrow>
     let e = bitlen p - bitlen q in if 2 powi e \<le> x then e else e - 1)"

text \<open>Nearest integer, ties to even.\<close>

definition rne :: "rat \<Rightarrow> int" where
  "rne x = (let f = \<lfloor>x\<rfloor>; d = x - of_int f in
     if d < 1 / 2 then f else if 1 / 2 < d then f + 1 else if even f then f else f + 1)"

definition ulp_expo :: "rat \<Rightarrow> int" where
  "ulp_expo x = max (expo2 \<bar>x\<bar> - 52) (- 1074)"

definition rnd64 :: "rat \<Rightarrow> float64" where
  "rnd64 x = (if x = 0 then 0
     else let e = ulp_expo x in of_int (rne (x / 2 powi e)) * 2 powi e)"

definition fadd :: "float64 \<Rightarrow> float64 \<Rightarrow> float64" where "fadd x y = rnd64 (x + y)"
definition fsub :: "float64 \<Rightarrow> float64 \<Rightarrow> float64" where "fsub x y = rnd64 (x - y)"
definition fmul :: "float64 \<Rightarrow> float64 \<Rightarrow> float64" where "fmul x y = rnd64 (x * y)"
definition fdiv :: "float64 \<Rightarrow> float64 \<Rightarrow> float64" where "fdiv x y = rnd64 (x / y)"

text \<open>Conversion from an integer rounds; conversion back truncates towards zero.\<close>

definition float_of_int :: "goint \<Rightarrow> float64" where
  "float_of_int n = rnd64 (of_int n)"

definition int_of_float :: "float64 \<Rightarrow> goint" where
  "int_of_float x = (if 0 \<le> x then \<lfloor>x\<rfloor> else \<lceil>x\<rceil>)"

section \<open>Nearest even\<close>

lemma rne_of_int [simp]: "rne (of_int n) = n"
  by (simp add: rne_def Let_def)

lemma rne_bounds: "\<lfloor>x\<rfloor> \<le> rne x" "rne x \<le> \<lfloor>x\<rfloor> + 1"
  by (auto simp: rne_def Let_def)

lemma rne_mono: "x \<le> y \<Longrightarrow> rne x \<le> rne y"
proof -
  assume le: "x \<le> y"
  then have fl: "\<lfloor>x\<rfloor> \<le> \<lfloor>y\<rfloor>" by (rule floor_mono)
  show ?thesis
  proof (cases "\<lfloor>x\<rfloor> = \<lfloor>y\<rfloor>")
    case True
    with le show ?thesis by (auto simp: rne_def Let_def)
  next
    case False
    with fl have "\<lfloor>x\<rfloor> + 1 \<le> \<lfloor>y\<rfloor>" by simp
    with rne_bounds(2) [of x] rne_bounds(1) [of y] show ?thesis by linarith
  qed
qed

lemma rne_ge_int: "of_int n \<le> x \<Longrightarrow> n \<le> rne x"
  using rne_mono [of "of_int n" x] by simp

lemma rne_le_int: "x \<le> of_int n \<Longrightarrow> rne x \<le> n"
  using rne_mono [of x "of_int n"] by simp

lemma rne_minus: "rne (- x) = - rne x"
proof (cases "x = of_int \<lfloor>x\<rfloor>")
  case True
  then show ?thesis by (metis of_int_minus rne_of_int)
next
  case False
  have lt: "of_int \<lfloor>x\<rfloor> < x" using False of_int_floor_le [of x] by linarith
  then have fl: "\<lfloor>- x\<rfloor> = - \<lfloor>x\<rfloor> - 1"
    by (intro floor_unique) (auto, linarith)
  show ?thesis
    unfolding rne_def Let_def fl by (auto simp: algebra_simps)
qed

section \<open>The exponent\<close>

lemma powi_int_power: "0 \<le> k \<Longrightarrow> (2 :: rat) powi k = of_int (2 ^ nat k)"
  by (simp add: power_int_def)

lemma powi_diff: "(2 :: rat) powi (a - b) = 2 powi a / 2 powi b"
  by (simp add: power_int_diff)

lemma powi_pos [simp]: "0 < (2 :: rat) powi e"
  by simp

lemma powi_less_iff: "(2 :: rat) powi a < 2 powi b \<longleftrightarrow> a < b"
  by (metis (no_types, lifting) linorder_not_less one_less_numeral_iff order_less_imp_le
      power_int_increasing power_int_strict_increasing semiring_norm(76))

lemma powi_mono_iff: "(2 :: rat) powi a \<le> 2 powi b \<longleftrightarrow> a \<le> b"
  using powi_less_iff [of b a] by (simp add: not_less [symmetric])

lemma powi_nonzero [simp]: "(2 :: rat) powi e \<noteq> 0"
  by simp

lemma bitlen_powi:
  assumes "0 < n"
  shows "(2 :: rat) powi (bitlen n - 1) \<le> of_int n" and "(of_int n :: rat) < 2 powi bitlen n"
proof -
  have b: "2 ^ nat (bitlen n - 1) \<le> n" "n < 2 ^ nat (bitlen n)"
    using bitlen_bounds [OF assms] by auto
  have p: "1 \<le> bitlen n"
    using assms bitlen_eq_zero_iff [of n] bitlen_nonneg [of n] by linarith
  have "(of_int (2 ^ nat (bitlen n - 1)) :: rat) \<le> of_int n"
    using b(1) by (simp only: of_int_le_iff)
  then show "(2 :: rat) powi (bitlen n - 1) \<le> of_int n"
    using p powi_int_power [of "bitlen n - 1"] by simp
  have "(of_int n :: rat) < of_int (2 ^ nat (bitlen n))"
    using b(2) by (simp only: of_int_less_iff)
  then show "(of_int n :: rat) < 2 powi bitlen n"
    using p powi_int_power [of "bitlen n"] by simp
qed

lemma expo2_bounds:
  assumes "0 < x"
  shows "2 powi expo2 x \<le> x" and "x < 2 powi (expo2 x + 1)"
proof -
  obtain p q where pq: "quotient_of x = (p, q)" by fastforce
  have q0: "0 < q" using pq quotient_of_denom_pos by blast
  have x: "x = of_int p / of_int q" using pq by (rule quotient_of_div)
  with assms q0 have p0: "0 < p" by (simp add: zero_less_divide_iff)
  define e where "e = bitlen p - bitlen q"
  have lo: "2 powi (e - 1) \<le> x"
  proof -
    have "(2 :: rat) powi (bitlen p - 1) / 2 powi bitlen q \<le> of_int p / of_int q"
      using bitlen_powi [OF p0] bitlen_powi [OF q0] q0 p0
      by (intro frac_le) auto
    then show ?thesis by (simp add: x e_def powi_diff [symmetric] algebra_simps)
  qed
  have hi: "x < 2 powi (e + 1)"
  proof -
    have "of_int p / of_int q < (2 :: rat) powi bitlen p / 2 powi (bitlen q - 1)"
      using bitlen_powi [OF p0] bitlen_powi [OF q0] q0 p0
      by (intro frac_less) auto
    then show ?thesis by (simp add: x e_def powi_diff [symmetric] algebra_simps)
  qed
  have def: "expo2 x = (if 2 powi e \<le> x then e else e - 1)"
    by (simp add: expo2_def pq e_def Let_def)
  show "2 powi expo2 x \<le> x" using lo def by simp
  show "x < 2 powi (expo2 x + 1)" using hi def by auto
qed

lemma expo2_mono:
  assumes "0 < x" "x \<le> y"
  shows "expo2 x \<le> expo2 y"
proof -
  have "(2 :: rat) powi expo2 x < 2 powi (expo2 y + 1)"
    using expo2_bounds(1) [of x] expo2_bounds(2) [of y] assms by linarith
  then show ?thesis by (simp add: powi_less_iff)
qed

section \<open>Exactness\<close>

text \<open>A number with at most 53 significant bits above the smallest subnormal is not rounded.\<close>

definition dyadic :: "int \<Rightarrow> rat \<Rightarrow> bool" where
  "dyadic k x \<longleftrightarrow> \<lfloor>x / 2 powi k\<rfloor> = \<lceil>x / 2 powi k\<rceil>"

definition on_grid :: "int \<Rightarrow> rat \<Rightarrow> bool" where
  "on_grid k x \<longleftrightarrow> dyadic k x \<and> \<bar>x\<bar> \<le> 2 powi (k + 53)"

lemma dyadic_iff: "dyadic k x \<longleftrightarrow> (\<exists>n. x = of_int n * 2 powi k)"
proof
  assume "dyadic k x"
  then have "of_int \<lfloor>x / 2 powi k\<rfloor> = x / 2 powi k"
    unfolding dyadic_def by (metis le_of_int_ceiling of_int_floor_le order_antisym)
  then have "x = of_int \<lfloor>x / 2 powi k\<rfloor> * 2 powi k" by (metis nonzero_divide_eq_eq powi_nonzero)
  then show "\<exists>n. x = of_int n * 2 powi k" ..
next
  assume "\<exists>n. x = of_int n * 2 powi k"
  then obtain n where "x / 2 powi k = of_int n" by (auto simp: field_simps)
  then show "dyadic k x" by (simp add: dyadic_def)
qed

lemma dyadic_0 [simp]: "dyadic k 0"
  by (simp add: dyadic_def)

lemma dyadic_add: "dyadic k x \<Longrightarrow> dyadic k y \<Longrightarrow> dyadic k (x + y)"
  unfolding dyadic_iff by (metis of_int_add distrib_right)

lemma dyadic_diff: "dyadic k x \<Longrightarrow> dyadic k y \<Longrightarrow> dyadic k (x - y)"
  unfolding dyadic_iff by (metis of_int_diff left_diff_distrib)

lemma dyadic_sum_list: "(\<And>x. x \<in> set xs \<Longrightarrow> dyadic k (f x)) \<Longrightarrow> dyadic k (sum_list (map f xs))"
  by (induction xs) (auto intro: dyadic_add)

lemma dyadic_mono:
  assumes "dyadic k x" "e \<le> k"
  shows "dyadic e x"
proof -
  obtain n where "x = of_int n * 2 powi k" using assms(1) dyadic_iff by blast
  also have "\<dots> = of_int (n * 2 ^ nat (k - e)) * 2 powi e"
    using assms(2) powi_int_power [of "k - e"] power_int_add [of "2 :: rat" "k - e" e] by simp
  finally show ?thesis unfolding dyadic_iff by blast
qed

lemma rnd64_0 [simp, f64]: "rnd64 0 = 0"
  by (simp add: rnd64_def)

lemma rnd64_dyadic: "dyadic (ulp_expo x) x \<Longrightarrow> rnd64 x = x"
proof -
  assume "dyadic (ulp_expo x) x"
  then obtain n where "x = of_int n * 2 powi ulp_expo x" unfolding dyadic_iff by blast
  moreover from this have "x / 2 powi ulp_expo x = of_int n"
    by (metis nonzero_mult_div_cancel_right powi_nonzero)
  ultimately show ?thesis by (simp add: rnd64_def Let_def)
qed

lemma rnd64_exact [f64]:
  assumes g: "on_grid k x" and k: "- 1074 \<le> k"
  shows "rnd64 x = x"
proof (cases "x = 0")
  case False
  have dy: "dyadic k x" and b: "\<bar>x\<bar> \<le> 2 powi (k + 53)" using g by (auto simp: on_grid_def)
  define e where "e = expo2 \<bar>x\<bar>"
  have lo: "2 powi e \<le> \<bar>x\<bar>" using expo2_bounds(1) [of "\<bar>x\<bar>"] False by (simp add: e_def)
  show ?thesis
  proof (cases "ulp_expo x \<le> k")
    case True
    with dy show ?thesis by (intro rnd64_dyadic) (rule dyadic_mono)
  next
    case le: False
    have "(2 :: rat) powi e \<le> 2 powi (k + 53)" using lo b by linarith
    then have "e \<le> k + 53" by (simp only: powi_mono_iff)
    with le k have u: "ulp_expo x = k + 1" "e = k + 53" by (auto simp: ulp_expo_def e_def)
    with lo b have "\<bar>x\<bar> = 2 powi (k + 53)" by simp
    also have "\<dots> = of_int (2 ^ 52) * 2 powi (k + 1)"
      using power_int_add [of "2 :: rat" 52 "k + 1"] by (simp add: add.commute)
    finally have "x = of_int (2 ^ 52) * 2 powi (k + 1) \<or> x = of_int (- (2 ^ 52)) * 2 powi (k + 1)"
      by (auto simp: abs_if split: if_splits)
    then have "dyadic (k + 1) x" unfolding dyadic_iff by blast
    with u show ?thesis by (intro rnd64_dyadic) simp
  qed
qed simp

section \<open>Monotonicity\<close>

lemma ulp_expo_minus [simp]: "ulp_expo (- x) = ulp_expo x"
  by (simp add: ulp_expo_def)

lemma rnd64_minus [f64]: "rnd64 (- x) = - rnd64 x"
  by (simp add: rnd64_def Let_def rne_minus)

lemma rnd64_nonneg [f64]: "0 \<le> x \<Longrightarrow> 0 \<le> rnd64 x"
  using rne_ge_int [of 0] by (auto simp: rnd64_def Let_def)

text \<open>Within one binade rounding is \<open>rne\<close> on a common scale; across binades the power of two
  between the arguments separates the results.\<close>

lemma rnd64_upper_pow:
  assumes "0 < x" "x \<le> 2 powi m" "ulp_expo x \<le> m"
  shows "rnd64 x \<le> 2 powi m"
proof -
  let ?e = "ulp_expo x"
  have "x / 2 powi ?e \<le> 2 powi (m - ?e)" using assms(2) by (simp add: powi_diff divide_right_mono)
  then have "rne (x / 2 powi ?e) \<le> 2 ^ nat (m - ?e)"
    using assms(3) powi_int_power [of "m - ?e"] by (intro rne_le_int) simp
  then have "(of_int (rne (x / 2 powi ?e)) :: rat) \<le> 2 powi (m - ?e)"
    using assms(3) powi_int_power [of "m - ?e"] by (metis diff_ge_0_iff_ge of_int_le_iff)
  then show ?thesis using assms(1) by (simp add: rnd64_def Let_def powi_diff field_simps)
qed

lemma rnd64_lower_pow:
  assumes "0 < y" "2 powi m \<le> y" "ulp_expo y \<le> m"
  shows "2 powi m \<le> rnd64 y"
proof -
  let ?e = "ulp_expo y"
  have "2 powi (m - ?e) \<le> y / 2 powi ?e" using assms(2) by (simp add: powi_diff divide_right_mono)
  then have "2 ^ nat (m - ?e) \<le> rne (y / 2 powi ?e)"
    using assms(3) powi_int_power [of "m - ?e"] by (intro rne_ge_int) simp
  then have "(2 :: rat) powi (m - ?e) \<le> of_int (rne (y / 2 powi ?e))"
    using assms(3) powi_int_power [of "m - ?e"] by (metis diff_ge_0_iff_ge of_int_le_iff)
  then show ?thesis using assms(1) by (simp add: rnd64_def Let_def powi_diff field_simps)
qed

lemma rnd64_mono_pos:
  assumes "0 < x" "x \<le> y"
  shows "rnd64 x \<le> rnd64 y"
proof (cases "ulp_expo x = ulp_expo y")
  case True
  with assms show ?thesis
    by (simp add: rnd64_def Let_def rne_mono divide_right_mono mult_right_mono)
next
  case False
  have "expo2 x \<le> expo2 y" using assms by (rule expo2_mono)
  with False assms have lt: "ulp_expo x < ulp_expo y" and ey: "ulp_expo y = expo2 y - 52"
    by (auto simp: ulp_expo_def)
  define m where "m = expo2 y"
  have m: "2 powi m \<le> y" using expo2_bounds(1) [of y] assms by (simp add: m_def)
  have "expo2 x + 1 \<le> m" using lt ey assms by (auto simp: ulp_expo_def m_def)
  then have "(2 :: rat) powi (expo2 x + 1) \<le> 2 powi m" by (simp only: powi_mono_iff)
  with expo2_bounds(2) [OF assms(1)] have "x \<le> 2 powi m" by linarith
  with assms lt ey have "rnd64 x \<le> 2 powi m" by (intro rnd64_upper_pow) (auto simp: m_def)
  moreover have "2 powi m \<le> rnd64 y" using assms m ey by (intro rnd64_lower_pow) (auto simp: m_def)
  ultimately show ?thesis by linarith
qed

lemma rnd64_mono [f64]: "x \<le> y \<Longrightarrow> rnd64 x \<le> rnd64 y"
proof (cases "0 < x")
  case True
  assume "x \<le> y"
  with True show ?thesis by (rule rnd64_mono_pos)
next
  case x: False
  assume le: "x \<le> y"
  show ?thesis
  proof (cases "y < 0")
    case True
    then have "rnd64 (- y) \<le> rnd64 (- x)" using le by (intro rnd64_mono_pos) auto
    then show ?thesis by (simp add: rnd64_minus)
  next
    case False
    have "rnd64 x \<le> 0" using x rnd64_nonneg [of "- x"] by (simp add: rnd64_minus)
    moreover have "0 \<le> rnd64 y" using False by (intro rnd64_nonneg) simp
    ultimately show ?thesis by linarith
  qed
qed

section \<open>Representable values\<close>

definition is_f64 :: "rat \<Rightarrow> bool" where
  "is_f64 x \<longleftrightarrow> rnd64 x = x"

lemma is_f64_0 [simp, f64]: "is_f64 0"
  by (simp add: is_f64_def)

lemma rnd64_pos_grid:
  assumes "0 < x"
  shows "on_grid (ulp_expo x) (rnd64 x)"
proof -
  let ?e = "ulp_expo x"
  have "(2 :: rat) powi (expo2 x + 1) \<le> 2 powi (?e + 53)"
    using assms by (subst powi_mono_iff) (simp add: ulp_expo_def)
  with expo2_bounds(2) [OF assms] have "rnd64 x \<le> 2 powi (?e + 53)"
    using assms by (intro rnd64_upper_pow) auto
  moreover have "dyadic ?e (rnd64 x)"
    unfolding dyadic_iff using assms by (auto simp: rnd64_def Let_def)
  ultimately show ?thesis using assms rnd64_nonneg [of x] by (simp add: on_grid_def)
qed

lemma is_f64_rnd64 [simp, f64]: "is_f64 (rnd64 x)"
proof -
  have pos: "rnd64 (rnd64 z) = rnd64 z" if "0 < z" for z
    using rnd64_pos_grid [OF that] by (rule rnd64_exact) (simp add: ulp_expo_def)
  consider "0 < x" | "x = 0" | "0 < - x" by linarith
  then show ?thesis
  proof cases
    case 3
    with pos [of "- x"] show ?thesis by (simp add: is_f64_def rnd64_minus)
  qed (use pos in \<open>auto simp: is_f64_def\<close>)
qed

lemma is_f64_ops [simp, f64]:
  "is_f64 (fadd x y)" "is_f64 (fsub x y)" "is_f64 (fmul x y)" "is_f64 (fdiv x y)"
  by (simp_all add: fadd_def fsub_def fmul_def fdiv_def)

lemma on_grid_is_f64: "on_grid k x \<Longrightarrow> - 1074 \<le> k \<Longrightarrow> is_f64 x"
  by (simp add: is_f64_def rnd64_exact)

section \<open>Rounding errors\<close>

lemma rne_error: "\<bar>of_int (rne x) - x\<bar> \<le> 1 / 2"
  using of_int_floor_le [of x] floor_correct [of x] by (auto simp: rne_def Let_def abs_le_iff)

lemma rnd64_half_ulp: "\<bar>rnd64 x - x\<bar> \<le> 2 powi (ulp_expo x - 1)"
proof (cases "x = 0")
  case False
  let ?u = "(2 :: rat) powi ulp_expo x"
  have "rnd64 x - x = (of_int (rne (x / ?u)) - x / ?u) * ?u"
    using False by (simp add: rnd64_def Let_def left_diff_distrib)
  then have "\<bar>rnd64 x - x\<bar> = \<bar>of_int (rne (x / ?u)) - x / ?u\<bar> * ?u"
    by (simp add: abs_mult)
  also have "\<dots> \<le> 1 / 2 * ?u" using rne_error by (intro mult_right_mono) auto
  finally show ?thesis by (simp add: powi_diff)
qed simp

lemma expo2_less: "0 < x \<Longrightarrow> x < 2 powi m \<Longrightarrow> expo2 x < m"
  using expo2_bounds(1) [of x] powi_less_iff [of "expo2 x" m] by linarith

lemma is_f64_powi: "- 1074 \<le> m \<Longrightarrow> is_f64 (2 powi m)"
proof (rule on_grid_is_f64)
  show "on_grid m (2 powi m)" unfolding on_grid_def dyadic_iff
    by (auto simp: powi_mono_iff intro!: exI [of _ 1])
qed

text \<open>Below \<open>2 ^ m\<close> one operation errs by at most \<open>2 ^ (m - 54)\<close>, and a result below \<open>2 ^ m\<close> comes
  from an exact value below it.\<close>

lemma rnd64_abs_error:
  assumes "\<bar>x\<bar> \<le> 2 powi m" "- 1021 \<le> m"
  shows "\<bar>rnd64 x - x\<bar> \<le> 2 powi (m - 54)"
proof (cases "\<bar>x\<bar> < 2 powi m \<and> x \<noteq> 0")
  case True
  then have "expo2 \<bar>x\<bar> < m" by (intro expo2_less) auto
  with assms(2) have "(2 :: rat) powi (ulp_expo x - 1) \<le> 2 powi (m - 54)"
    by (subst powi_mono_iff) (auto simp: ulp_expo_def)
  with rnd64_half_ulp [of x] show ?thesis by linarith
next
  case False
  with assms(1) consider "x = 0" | "x = 2 powi m" | "x = - (2 powi m)" by linarith
  then have "rnd64 x = x"
    using is_f64_powi [of m] assms(2) by cases (auto simp: is_f64_def rnd64_minus)
  then show ?thesis by simp
qed

lemma rnd64_below_pow:
  assumes "rnd64 x < 2 powi m" "- 1074 \<le> m"
  shows "x < 2 powi m"
proof (rule ccontr)
  assume "\<not> x < 2 powi m"
  then have "rnd64 (2 powi m) \<le> rnd64 x" by (intro rnd64_mono) simp
  with is_f64_powi [OF assms(2)] assms(1) show False by (simp add: is_f64_def)
qed

text \<open>In the normal range the relative error is at most \<open>2 ^ (- 53)\<close>.\<close>

lemma rnd64_rel_error:
  assumes "x = 0 \<or> 2 powi (- 1022) \<le> \<bar>x\<bar>"
  shows "\<bar>rnd64 x - x\<bar> \<le> \<bar>x\<bar> * 2 powi (- 53)"
proof (cases "x = 0")
  case False
  then have pos: "0 < \<bar>x\<bar>" by simp
  have "(2 :: rat) powi (- 1022) < 2 powi (expo2 \<bar>x\<bar> + 1)"
    using assms False expo2_bounds(2) [OF pos] by linarith
  then have "- 1022 < expo2 \<bar>x\<bar> + 1" by (simp only: powi_less_iff)
  then have "ulp_expo x - 1 = expo2 \<bar>x\<bar> + (- 53)" by (simp add: ulp_expo_def)
  then have "2 powi (ulp_expo x - 1) = (2 :: rat) powi expo2 \<bar>x\<bar> * 2 powi (- 53)"
    by (metis power_int_add zero_neq_numeral)
  also have "\<dots> \<le> \<bar>x\<bar> * 2 powi (- 53)" using expo2_bounds(1) [OF pos] by (intro mult_right_mono) auto
  finally show ?thesis using rnd64_half_ulp [of x] by linarith
qed simp

text \<open>\<open>near k x y\<close>: \<open>x\<close> is the outcome of at most \<open>k\<close> roundings in a row on the way to the non
  negative exact value \<open>y\<close>. Zero and the values from \<open>2 ^ (- 1022)\<close> on are rounded with full precision.\<close>

definition unit_roundoff :: rat where "unit_roundoff = 2 powi (- 53)"

definition near :: "nat \<Rightarrow> rat \<Rightarrow> rat \<Rightarrow> bool" where
  "near k x y \<longleftrightarrow> y * (1 - unit_roundoff) ^ k \<le> x \<and> x \<le> y * (1 + unit_roundoff) ^ k"

definition normal :: "int \<Rightarrow> rat \<Rightarrow> bool" where
  "normal e x \<longleftrightarrow> x = 0 \<or> 2 powi e \<le> x"

lemma unit_roundoff_bounds: "0 < unit_roundoff" "unit_roundoff < 1"
  by (simp_all add: unit_roundoff_def)

lemma near_refl [simp]: "near 0 x x"
  by (simp add: near_def)

lemma near_rnd64:
  assumes "near k x y" "normal (- 1022) x"
  shows "near (Suc k) (rnd64 x) y"
proof -
  let ?u = unit_roundoff
  have "\<bar>rnd64 x - x\<bar> \<le> \<bar>x\<bar> * ?u"
    unfolding unit_roundoff_def by (rule rnd64_rel_error) (use assms(2) in \<open>auto simp: normal_def\<close>)
  moreover have "0 \<le> x" using assms(2) by (auto simp: normal_def intro: order_trans [OF less_imp_le [OF powi_pos]])
  ultimately have b: "x * (1 - ?u) \<le> rnd64 x" "rnd64 x \<le> x * (1 + ?u)"
    by (simp_all add: abs_le_iff algebra_simps)
  have "y * (1 - ?u) ^ k * (1 - ?u) \<le> x * (1 - ?u)" "x * (1 + ?u) \<le> y * (1 + ?u) ^ k * (1 + ?u)"
    using assms(1) unit_roundoff_bounds by (auto simp: near_def intro!: mult_right_mono)
  with b show ?thesis by (simp add: near_def mult.assoc mult.commute [of "1 - ?u"] mult.commute [of "1 + ?u"])
qed

lemma near_add: "near k a x \<Longrightarrow> near k b y \<Longrightarrow> near k (a + b) (x + y)"
  unfolding near_def distrib_right by linarith

lemma near_divide: "near k a x \<Longrightarrow> 0 < c \<Longrightarrow> near k (a / c) (x / c)"
  by (auto simp: near_def divide_right_mono)

lemma normal_nonneg: "normal e x \<Longrightarrow> 0 \<le> x"
  by (auto simp: normal_def intro: order_trans [OF less_imp_le [OF powi_pos]])

lemma normal_mono: "normal e x \<Longrightarrow> d \<le> e \<Longrightarrow> normal d x"
  unfolding normal_def by (meson order_trans powi_mono_iff)

lemma normal_rnd64: "normal e x \<Longrightarrow> - 1074 \<le> e \<Longrightarrow> normal e (rnd64 x)"
  using rnd64_mono [of "2 powi e" x] is_f64_powi [of e] by (auto simp: normal_def is_f64_def)

lemma normal_add: "normal e x \<Longrightarrow> normal e y \<Longrightarrow> normal e (x + y)"
  using normal_nonneg [of e x] normal_nonneg [of e y] unfolding normal_def by linarith

section \<open>The interface of rounded addition\<close>

text \<open>What accounting relies on: addition is monotone, never falls below an operand when the other is
  not negative, and is exact on a grid of dyadic amounts of bounded size.\<close>

locale rounded_addition =
  fixes add :: "rat \<Rightarrow> rat \<Rightarrow> rat"
    and sub :: "rat \<Rightarrow> rat \<Rightarrow> rat"
    and rep :: "rat \<Rightarrow> bool"
    and grid :: "int \<Rightarrow> rat \<Rightarrow> bool"
  assumes add_mono: "x \<le> x' \<Longrightarrow> y \<le> y' \<Longrightarrow> add x y \<le> add x' y'"
    and add_zero: "rep x \<Longrightarrow> add x 0 = x"
    and add_commute: "add x y = add y x"
    and add_rep: "rep (add x y)"
    and sub_rep: "rep (sub x y)"
    and add_exact: "- 1074 \<le> k \<Longrightarrow> grid k (x + y) \<Longrightarrow> add x y = x + y"
    and sub_exact: "- 1074 \<le> k \<Longrightarrow> grid k (x - y) \<Longrightarrow> sub x y = x - y"
begin

lemma add_ge_left: "rep x \<Longrightarrow> 0 \<le> y \<Longrightarrow> x \<le> add x y"
  using add_mono [of x x 0 y] add_zero [of x] by simp

lemma add_ge_right: "rep y \<Longrightarrow> 0 \<le> x \<Longrightarrow> y \<le> add x y"
  using add_ge_left [of y x] by (simp add: add_commute)

lemma add_nonneg: "rep x \<Longrightarrow> 0 \<le> x \<Longrightarrow> 0 \<le> y \<Longrightarrow> 0 \<le> add x y"
  using add_ge_left [of x y] by linarith

lemma add_bounded_left: "rep x \<Longrightarrow> 0 \<le> y \<Longrightarrow> add x y \<le> b \<Longrightarrow> x \<le> b"
  using add_ge_left [of x y] by linarith

end

interpretation fl: rounded_addition fadd fsub is_f64 on_grid
  by unfold_locales
    (auto simp: fadd_def fsub_def is_f64_def [of "_ + _"] is_f64_def [of x for x] add.commute
      is_f64_rnd64 [unfolded is_f64_def] intro: rnd64_mono rnd64_exact)

text \<open>Dyadic amounts between 0 and a bound stay on the grid.\<close>

lemma on_gridI: "dyadic k x \<Longrightarrow> 0 \<le> x \<Longrightarrow> x \<le> 2 powi (k + 53) \<Longrightarrow> on_grid k x"
  by (simp add: on_grid_def)

end
