(* ===== verification/Router_Health.thy ===== *)
theory Router_Health
  imports Providers Float64
begin

text \<open>
  The router's failure policy (\<^verbatim>\<open>src/internal/router/policy.go\<close>), its options (\<^verbatim>\<open>types.go\<close>) and the
  circuit breaker that tracks provider health (\<^verbatim>\<open>health.go\<close>). The tracker's mutex makes every
  operation one atomic step, so a tracker is a record and an operation returns the updated record.
  The lemmas give the breaker's invariant over all reachable trackers, the shedding window, the
  single probe, the neutrality of request faults and the monotonicity of upstream pauses.
\<close>

section \<open>Failure policy\<close>

datatype disposition = dispositionFail | dispositionRetry | dispositionFailover

definition classDisposition :: "error_class \<Rightarrow> disposition" where
  "classDisposition c = (case c of
       ErrClassInvalidRequest \<Rightarrow> dispositionFail
     | ErrClassCanceled \<Rightarrow> dispositionFail
     | ErrClassUpstream \<Rightarrow> dispositionRetry
     | ErrClassTimeout \<Rightarrow> dispositionRetry
     | ErrClassRateLimited \<Rightarrow> dispositionFailover
     | ErrClassAuth \<Rightarrow> dispositionFailover
     | ErrClassPaymentRequired \<Rightarrow> dispositionFailover
     | ErrClassModelNotFound \<Rightarrow> dispositionFailover
     | _ \<Rightarrow> dispositionFailover)"

definition countsAgainstHealth :: "error_class \<Rightarrow> bool" where
  "countsAgainstHealth c = (case c of
       ErrClassInvalidRequest \<Rightarrow> False
     | ErrClassCanceled \<Rightarrow> False
     | ErrClassModelNotFound \<Rightarrow> False
     | _ \<Rightarrow> True)"

section \<open>Options\<close>

record options =
  Strategy :: string
  MaxAttempts :: goint
  RetryBaseDelay :: duration
  MaxRetryDelay :: duration
  BreakerThreshold :: goint
  BreakerCooldown :: duration

definition DefaultMaxAttempts :: goint where "DefaultMaxAttempts = 3"
definition DefaultRetryBaseDelay :: duration where "DefaultRetryBaseDelay = 100 * Millisecond"
definition DefaultMaxRetryDelay :: duration where "DefaultMaxRetryDelay = 2 * Second"
definition DefaultBreakerThreshold :: goint where "DefaultBreakerThreshold = 5"
definition DefaultBreakerCooldown :: duration where "DefaultBreakerCooldown = 30 * Second"

definition withDefaults :: "options \<Rightarrow> options" where
  "withDefaults o1 = \<lparr>
     Strategy = (if Strategy o1 = [] then ''priority'' else Strategy o1),
     MaxAttempts = (if MaxAttempts o1 \<le> 0 then DefaultMaxAttempts else MaxAttempts o1),
     RetryBaseDelay = (if RetryBaseDelay o1 \<le> 0 then DefaultRetryBaseDelay else RetryBaseDelay o1),
     MaxRetryDelay = (if MaxRetryDelay o1 \<le> 0 then DefaultMaxRetryDelay else MaxRetryDelay o1),
     BreakerThreshold = (if BreakerThreshold o1 \<le> 0 then DefaultBreakerThreshold else BreakerThreshold o1),
     BreakerCooldown = (if BreakerCooldown o1 \<le> 0 then DefaultBreakerCooldown else BreakerCooldown o1)\<rparr>"

lemmas default_defs = DefaultMaxAttempts_def DefaultRetryBaseDelay_def DefaultMaxRetryDelay_def
  DefaultBreakerThreshold_def DefaultBreakerCooldown_def

lemma withDefaults_pos [simp]:
  "0 < MaxAttempts (withDefaults o1)" "0 < RetryBaseDelay (withDefaults o1)"
  "0 < MaxRetryDelay (withDefaults o1)" "0 < BreakerThreshold (withDefaults o1)"
  "0 < BreakerCooldown (withDefaults o1)"
  by (simp_all add: withDefaults_def default_defs time_unit_defs)

lemma withDefaults_idem [simp]: "withDefaults (withDefaults o1) = withDefaults o1"
  by (simp add: withDefaults_def default_defs time_unit_defs)

section \<open>The tracker\<close>

datatype breaker_state = breakerClosed | breakerOpen | breakerHalfOpen

definition defaultRateLimitCooldown :: duration where "defaultRateLimitCooldown = 30 * Second"
definition paymentRequiredCooldown :: duration where "paymentRequiredCooldown = 15 * Minute"
definition probeStallTimeout :: duration where "probeStallTimeout = 2 * Minute"
definition latencyAlpha :: float64 where "latencyAlpha = rnd64 (2 / 10)"
definition latencyBeta :: float64 where "latencyBeta = rnd64 (1 - latencyAlpha)"
definition minLatencySamples :: goint where "minLatencySamples = 5"

record provider_health =
  breaker :: breaker_state
  consecutiveFailures :: goint
  openedAt :: instant
  probeInFlight :: bool
  probeStarted :: instant
  cooldownUntil :: instant
  ewma :: duration
  samples :: goint

definition new_health :: provider_health where
  "new_health = \<lparr>breaker = breakerClosed, consecutiveFailures = 0, openedAt = 0,
     probeInFlight = False, probeStarted = 0, cooldownUntil = 0, ewma = 0, samples = 0\<rparr>"

record tracker =
  t_opts :: options
  t_state :: "string \<rightharpoonup> provider_health"

definition NewHealth :: "options \<Rightarrow> tracker" where
  "NewHealth opts = \<lparr>t_opts = withDefaults opts, t_state = Map.empty\<rparr>"

text \<open>\<^verbatim>\<open>tracker.at\<close>: the clock's reading when the caller passed a zero instant.\<close>

definition tracker_at :: "instant \<Rightarrow> instant \<Rightarrow> instant" where
  "tracker_at clk now = (if now = 0 then clk else now)"

definition get :: "tracker \<Rightarrow> string \<Rightarrow> provider_health" where
  "get t provider = (case t_state t provider of None \<Rightarrow> new_health | Some s \<Rightarrow> s)"

definition put :: "tracker \<Rightarrow> string \<Rightarrow> provider_health \<Rightarrow> tracker" where
  "put t provider s = t\<lparr>t_state := (t_state t)(provider \<mapsto> s)\<rparr>"

definition admitProbe :: "provider_health \<Rightarrow> instant \<Rightarrow> bool \<times> provider_health" where
  "admitProbe s now =
     (if probeInFlight s \<and> time_Sub now (probeStarted s) < probeStallTimeout then (False, s)
      else (True, s\<lparr>probeInFlight := True, probeStarted := now\<rparr>))"

definition Available :: "tracker \<Rightarrow> instant \<Rightarrow> string \<Rightarrow> instant \<Rightarrow> bool \<times> tracker" where
  "Available t clk provider now0 = (let now = tracker_at clk now0 in
     case t_state t provider of
       None \<Rightarrow> (True, t)
     | Some s \<Rightarrow>
         (if now < cooldownUntil s then (False, t)
          else case breaker s of
            breakerOpen \<Rightarrow>
              (if time_Sub now (openedAt s) < BreakerCooldown (t_opts t) then (False, t)
               else case admitProbe (s\<lparr>breaker := breakerHalfOpen\<rparr>) now of
                      (ok, s') \<Rightarrow> (ok, put t provider s'))
          | breakerHalfOpen \<Rightarrow>
              (case admitProbe s now of (ok, s') \<Rightarrow> (ok, put t provider s'))
          | breakerClosed \<Rightarrow> (True, t)))"

definition observeLatency :: "provider_health \<Rightarrow> duration \<Rightarrow> provider_health" where
  "observeLatency s ttft = (let n = iadd (samples s) 1; s1 = s\<lparr>samples := n\<rparr> in
     if n = 1 then s1\<lparr>ewma := ttft\<rparr>
     else s1\<lparr>ewma := int_of_float (fadd (fmul latencyAlpha (float_of_int ttft))
                                      (fmul latencyBeta (float_of_int (ewma s))))\<rparr>)"

definition RecordSuccess :: "tracker \<Rightarrow> string \<Rightarrow> duration \<Rightarrow> tracker" where
  "RecordSuccess t provider ttft =
     (let s = (get t provider)\<lparr>breaker := breakerClosed, consecutiveFailures := 0,
                                probeInFlight := False\<rparr>
      in put t provider (if 0 < ttft then observeLatency s ttft else s))"

definition cooldownFor :: "error_class \<Rightarrow> duration \<Rightarrow> duration" where
  "cooldownFor cls retryAfter = (case cls of
       ErrClassRateLimited \<Rightarrow> (if 0 < retryAfter then retryAfter else defaultRateLimitCooldown)
     | ErrClassPaymentRequired \<Rightarrow>
         (if paymentRequiredCooldown < retryAfter then retryAfter else paymentRequiredCooldown)
     | _ \<Rightarrow> 0)"

text \<open>The part of \<^verbatim>\<open>RecordFailure\<close> that folds an upstream pause in, and the part that moves the breaker.\<close>

definition extendCooldown :: "provider_health \<Rightarrow> duration \<Rightarrow> instant \<Rightarrow> provider_health" where
  "extendCooldown s pause now =
     (if 0 < pause \<and> cooldownUntil s < now + pause then s\<lparr>cooldownUntil := now + pause\<rparr> else s)"

definition countFailure :: "goint \<Rightarrow> provider_health \<Rightarrow> instant \<Rightarrow> provider_health" where
  "countFailure threshold s0 now =
     (let s = s0\<lparr>consecutiveFailures := iadd (consecutiveFailures s0) 1\<rparr> in
      case breaker s of
        breakerHalfOpen \<Rightarrow> s\<lparr>breaker := breakerOpen, openedAt := now, probeInFlight := False\<rparr>
      | breakerOpen \<Rightarrow> s
      | breakerClosed \<Rightarrow>
          (if threshold \<le> consecutiveFailures s then s\<lparr>breaker := breakerOpen, openedAt := now\<rparr> else s))"

definition RecordFailure ::
  "tracker \<Rightarrow> instant \<Rightarrow> string \<Rightarrow> error_class \<Rightarrow> duration \<Rightarrow> instant \<Rightarrow> tracker" where
  "RecordFailure t clk provider cls retryAfter now0 =
     (let now = tracker_at clk now0;
          s = extendCooldown (get t provider) (cooldownFor cls retryAfter) now
      in put t provider
           (if countsAgainstHealth cls then countFailure (BreakerThreshold (t_opts t)) s now else s))"

definition Latency :: "tracker \<Rightarrow> string \<Rightarrow> duration \<times> bool" where
  "Latency t provider = (case t_state t provider of
       None \<Rightarrow> (0, False)
     | Some s \<Rightarrow> if samples s < minLatencySamples then (0, False) else (ewma s, True))"

lemmas health_defs = Available_def RecordSuccess_def RecordFailure_def admitProbe_def
  extendCooldown_def countFailure_def observeLatency_def


section \<open>Frame lemmas\<close>

lemma put_simps [simp]:
  "t_opts (put t p s) = t_opts t"
  "t_state (put t p s) = (t_state t)(p \<mapsto> s)"
  by (simp_all add: put_def)

lemma get_put [simp]: "get (put t p s) q = (if q = p then s else get t q)"
  by (simp add: get_def)

lemma t_opts_steps [simp]:
  "t_opts (snd (Available t clk p now)) = t_opts t"
  "t_opts (RecordSuccess t p ttft) = t_opts t"
  "t_opts (RecordFailure t clk p cls ra now) = t_opts t"
  by (auto simp: health_defs Let_def split: option.split breaker_state.split)

lemma observeLatency_frame [simp]:
  "breaker (observeLatency s d) = breaker s"
  "consecutiveFailures (observeLatency s d) = consecutiveFailures s"
  "probeInFlight (observeLatency s d) = probeInFlight s"
  "cooldownUntil (observeLatency s d) = cooldownUntil s"
  by (simp_all add: observeLatency_def Let_def)

section \<open>The breaker invariant\<close>

text \<open>What every reachable entry satisfies: a closed breaker has fewer failures in a row than the
  threshold, and a probe is in flight exactly while the breaker is half open.\<close>

definition entry_ok :: "goint \<Rightarrow> provider_health \<Rightarrow> bool" where
  "entry_ok threshold s \<longleftrightarrow>
     (breaker s = breakerClosed \<longrightarrow> 0 \<le> consecutiveFailures s \<and> consecutiveFailures s < threshold) \<and>
     (probeInFlight s \<longleftrightarrow> breaker s = breakerHalfOpen)"

definition health_inv :: "tracker \<Rightarrow> bool" where
  "health_inv t \<longleftrightarrow>
     0 < BreakerThreshold (t_opts t) \<and> 0 < BreakerCooldown (t_opts t) \<and>
     (\<forall>p s. t_state t p = Some s \<longrightarrow> entry_ok (BreakerThreshold (t_opts t)) s)"

inductive health_step :: "tracker \<Rightarrow> tracker \<Rightarrow> bool" where
  available: "Available t clk p now = (ok, t') \<Longrightarrow> health_step t t'"
| success: "health_step t (RecordSuccess t p ttft)"
| failure: "health_step t (RecordFailure t clk p cls ra now)"

inductive health_reachable :: "options \<Rightarrow> tracker \<Rightarrow> bool" for opts where
  start: "health_reachable opts (NewHealth opts)"
| step: "health_reachable opts t \<Longrightarrow> health_step t t' \<Longrightarrow> health_reachable opts t'"

inductive_cases health_stepE: "health_step t t'"

lemma entry_ok_new: "0 < th \<Longrightarrow> entry_ok th new_health"
  by (simp add: entry_ok_def new_health_def)

lemma entry_ok_get: "health_inv t \<Longrightarrow> entry_ok (BreakerThreshold (t_opts t)) (get t p)"
  by (auto simp: health_inv_def get_def entry_ok_new split: option.split)

lemma entry_ok_frame [simp]:
  "entry_ok th (s\<lparr>cooldownUntil := c\<rparr>) = entry_ok th s"
  "entry_ok th (s\<lparr>ewma := d\<rparr>) = entry_ok th s"
  "entry_ok th (s\<lparr>samples := n\<rparr>) = entry_ok th s"
  "entry_ok th (s\<lparr>probeStarted := i\<rparr>) = entry_ok th s"
  by (simp_all add: entry_ok_def)

lemma health_inv_put: "health_inv t \<Longrightarrow> entry_ok (BreakerThreshold (t_opts t)) s \<Longrightarrow> health_inv (put t p s)"
  by (auto simp: health_inv_def)

lemma entry_ok_admitProbe:
  "breaker s = breakerHalfOpen \<Longrightarrow> entry_ok th (snd (admitProbe s now))"
  by (auto simp: admitProbe_def entry_ok_def)

lemma entry_ok_countFailure:
  assumes "entry_ok th s" "th < 2 ^ 63"
  shows "entry_ok th (countFailure th s now)"
proof -
  have "breaker s = breakerClosed \<Longrightarrow> iadd (consecutiveFailures s) 1 = consecutiveFailures s + 1"
    using assms by (intro iadd_exact) (auto simp: entry_ok_def int64_ok_def)
  with assms show ?thesis
    by (auto simp: entry_ok_def countFailure_def Let_def split: breaker_state.split)
qed

lemma health_inv_Available:
  assumes "health_inv t"
  shows "health_inv (snd (Available t clk p now))"
proof -
  have *: "health_inv (put t p (snd (admitProbe (s\<lparr>breaker := breakerHalfOpen\<rparr>) n)))" for s n
    using assms by (intro health_inv_put entry_ok_admitProbe) auto
  have **: "health_inv (put t p (snd (admitProbe s n)))" if "breaker s = breakerHalfOpen" for s n
    using assms that by (intro health_inv_put entry_ok_admitProbe) auto
  show ?thesis
    using assms * **
    by (auto simp: Available_def Let_def case_prod_beta split: option.split breaker_state.split)
qed

lemma health_inv_RecordSuccess:
  assumes "health_inv t"
  shows "health_inv (RecordSuccess t p ttft)"
proof -
  have th: "0 < BreakerThreshold (t_opts t)" using assms by (simp add: health_inv_def)
  show ?thesis unfolding RecordSuccess_def Let_def
    by (rule health_inv_put [OF assms]) (use th in \<open>simp add: entry_ok_def\<close>)
qed

lemma health_inv_RecordFailure:
  assumes "health_inv t" "BreakerThreshold (t_opts t) < 2 ^ 63"
  shows "health_inv (RecordFailure t clk p cls ra now)"
proof -
  have "entry_ok (BreakerThreshold (t_opts t)) (extendCooldown (get t p) d n)" for d n
    using entry_ok_get [OF assms(1)] by (simp add: extendCooldown_def)
  then show ?thesis using assms
    by (auto simp: RecordFailure_def Let_def intro!: health_inv_put entry_ok_countFailure)
qed

lemma health_reachable_opts: "health_reachable opts t \<Longrightarrow> t_opts t = withDefaults opts"
proof (induction rule: health_reachable.induct)
  case start
  then show ?case by (simp add: NewHealth_def)
next
  case (step t t')
  then show ?case by (metis health_stepE snd_conv t_opts_steps)
qed

text \<open>The hypothesis on the options is the width of Go's \<^verbatim>\<open>int\<close>.\<close>

lemma reachable_health_inv:
  assumes "health_reachable opts t" "int64_ok (BreakerThreshold opts)"
  shows "health_inv t"
  using assms
proof (induction rule: health_reachable.induct)
  case start
  then show ?case by (simp add: NewHealth_def health_inv_def)
next
  case (step t t')
  have "BreakerThreshold (t_opts t) < 2 ^ 63"
    using step health_reachable_opts [OF step.hyps(1)]
    by (simp add: withDefaults_def int64_ok_def default_defs)
  with step show ?case
    by (metis health_stepE health_inv_Available health_inv_RecordSuccess health_inv_RecordFailure snd_conv)
qed

section \<open>The interface the selector relies on\<close>

text \<open>Health as the selector sees it: the operations of \<^verbatim>\<open>types.go\<close>'s \<^verbatim>\<open>Health\<close> and what holds of any
  tracker. \<open>parked\<close> is a provider inside a pause it asked for itself.\<close>

definition parked :: "tracker \<Rightarrow> string \<Rightarrow> instant \<Rightarrow> bool" where
  "parked t p now \<longleftrightarrow> (case t_state t p of None \<Rightarrow> False | Some s \<Rightarrow> now < cooldownUntil s)"

locale health_tracking =
  fixes available :: "'t \<Rightarrow> instant \<Rightarrow> string \<Rightarrow> instant \<Rightarrow> bool \<times> 't"
    and success :: "'t \<Rightarrow> string \<Rightarrow> duration \<Rightarrow> 't"
    and failure :: "'t \<Rightarrow> instant \<Rightarrow> string \<Rightarrow> error_class \<Rightarrow> duration \<Rightarrow> instant \<Rightarrow> 't"
    and pause :: "'t \<Rightarrow> string \<Rightarrow> instant \<Rightarrow> bool"
    and inv :: "'t \<Rightarrow> bool"
  assumes paused_unavailable: "now \<noteq> 0 \<Longrightarrow> pause t p now \<Longrightarrow> available t clk p now = (False, t)"
    and other_provider: "q \<noteq> p \<Longrightarrow> fst (available (snd (available t clk p now)) clk q now') = fst (available t clk q now')"
    and pause_survives_success: "0 < now \<Longrightarrow> pause (success t q d) p now = pause t p now"
    and pause_never_shortened: "pause t p now \<Longrightarrow> pause (failure t clk q cls ra now') p now"
    and pause_survives_query: "pause (snd (available t clk q now')) p now = pause t p now"
    and inv_available: "inv t \<Longrightarrow> inv (snd (available t clk p now))"
    and inv_success: "inv t \<Longrightarrow> inv (success t p d)"
begin

inductive quiet_step :: "'t \<Rightarrow> 't \<Rightarrow> bool" where
  q_query: "quiet_step t (snd (available t clk p now))"
| q_success: "quiet_step t (success t p d)"
| q_failure: "quiet_step t (failure t clk p cls ra now)"

lemma pause_step: "quiet_step t t' \<Longrightarrow> 0 < now \<Longrightarrow> pause t p now \<Longrightarrow> pause t' p now"
  by (auto elim!: quiet_step.cases simp: pause_survives_query pause_survives_success pause_never_shortened)

lemma pause_steps: "quiet_step\<^sup>*\<^sup>* t t' \<Longrightarrow> 0 < now \<Longrightarrow> pause t p now \<Longrightarrow> pause t' p now"
  by (induction rule: rtranclp_induct) (auto intro: pause_step)

lemma paused_stays_unavailable:
  assumes "quiet_step\<^sup>*\<^sup>* t t'" "pause t p now" "0 < now"
  shows "fst (available t' clk p now) = False"
  using pause_steps [OF assms(1,3,2)] paused_unavailable [of now t' p clk] assms(3) by simp

end

lemma put_same [simp]: "t_state t p = Some s \<Longrightarrow> put t p s = t"
  by (simp add: put_def map_upd_triv)

lemma Available_other: "q \<noteq> p \<Longrightarrow> t_state (snd (Available t clk p now)) q = t_state t q"
  by (auto simp: Available_def Let_def case_prod_beta split: option.split breaker_state.split)

lemma Available_cooldown:
  "(case t_state (snd (Available t clk p now)) q of None \<Rightarrow> 0 | Some s \<Rightarrow> cooldownUntil s) =
   (case t_state t q of None \<Rightarrow> 0 | Some s \<Rightarrow> cooldownUntil s)"
  by (auto simp: Available_def admitProbe_def Let_def split: option.split breaker_state.split)

lemma Available_dom: "t_state (snd (Available t clk p now)) q = None \<longleftrightarrow> t_state t q = None"
  by (auto simp: Available_def Let_def case_prod_beta split: option.split breaker_state.split)

lemma Available_local:
  "t_opts t = t_opts t' \<Longrightarrow> t_state t q = t_state t' q \<Longrightarrow> fst (Available t clk q now) = fst (Available t' clk q now)"
  by (auto simp: Available_def Let_def case_prod_beta split: option.split breaker_state.split)

lemma countFailure_cooldown [simp]: "cooldownUntil (countFailure th s now) = cooldownUntil s"
  by (simp add: countFailure_def Let_def split: breaker_state.split)

lemma extendCooldown_mono: "cooldownUntil s \<le> cooldownUntil (extendCooldown s d now)"
  by (simp add: extendCooldown_def)

lemma parked_Available: "parked (snd (Available t clk q now')) p now = parked t p now"
  using Available_cooldown [of t clk q now' p] Available_dom [of t clk q now' p]
  by (auto simp: parked_def split: option.splits)

lemma parked_RecordFailure: "parked t p now \<Longrightarrow> parked (RecordFailure t clk q cls ra now') p now"
  using extendCooldown_mono [of "get t q" "cooldownFor cls ra" "tracker_at clk now'"]
  by (auto simp: parked_def RecordFailure_def Let_def get_def split: option.splits)

interpretation ht: health_tracking Available RecordSuccess RecordFailure parked health_inv
proof unfold_locales
  show "Available t clk p now = (False, t)" if "now \<noteq> 0" "parked t p now" for now t p clk
    using that by (auto simp: parked_def Available_def tracker_at_def Let_def split: option.splits)
  show "fst (Available (snd (Available t clk p now)) clk q now') = fst (Available t clk q now')"
    if "q \<noteq> p" for q p t clk now now'
    using that by (intro Available_local) (simp_all add: Available_other)
  show "parked (RecordSuccess t q d) p now = parked t p now" if "0 < now" for t q d p now
    using that
    by (auto simp: parked_def RecordSuccess_def Let_def get_def new_health_def split: option.splits)
qed (auto simp: parked_Available intro: parked_RecordFailure health_inv_Available health_inv_RecordSuccess)

lemma health_step_quiet: "health_step t t' \<Longrightarrow> ht.quiet_step t t'"
  by (elim health_stepE) (metis ht.q_query snd_conv, simp_all add: ht.q_success ht.q_failure)

lemma health_steps_quiet: "health_step\<^sup>*\<^sup>* t t' \<Longrightarrow> ht.quiet_step\<^sup>*\<^sup>* t t'"
  by (induction rule: rtranclp_induct) (auto dest: health_step_quiet intro: rtranclp.rtrancl_into_rtrancl)

section \<open>Runs of failures\<close>

text \<open>The state after a run of failures that counts against a provider and asks for no pause.\<close>

definition failure_run :: "tracker \<Rightarrow> instant \<Rightarrow> string \<Rightarrow> instant list \<Rightarrow> tracker" where
  "failure_run t clk p nows = fold (\<lambda>now t. RecordFailure t clk p ErrClassUpstream 0 now) nows t"

definition run_state :: "goint \<Rightarrow> instant list \<Rightarrow> provider_health \<Rightarrow> bool" where
  "run_state th nows s \<longleftrightarrow> cooldownUntil s = 0 \<and>
     (if int (length nows) < th
      then breaker s = breakerClosed \<and> consecutiveFailures s = int (length nows)
      else breaker s = breakerOpen \<and> openedAt s \<in> set nows)"

lemma failure_run_opts [simp]: "t_opts (failure_run t clk p nows) = t_opts t"
  unfolding failure_run_def by (induction nows arbitrary: t) simp_all

lemma run_state_step:
  assumes "run_state th nows s" "0 < th" "th < 2 ^ 63"
  shows "run_state th (nows @ [now]) (countFailure th s now)"
proof -
  have "int (length nows) < th \<Longrightarrow> iadd (consecutiveFailures s) 1 = int (length nows) + 1"
    using assms by (subst iadd_exact) (auto simp: run_state_def int64_ok_def)
  with assms show ?thesis
    by (auto simp: run_state_def countFailure_def Let_def split: if_splits)
qed

lemma failure_run_snoc:
  "now \<noteq> 0 \<Longrightarrow> get (failure_run t clk p (nows @ [now])) p =
     countFailure (BreakerThreshold (t_opts t)) (get (failure_run t clk p nows) p) now"
  using failure_run_opts [of t clk p nows]
  by (simp add: failure_run_def RecordFailure_def Let_def cooldownFor_def extendCooldown_def
      countsAgainstHealth_def tracker_at_def)

lemma failure_run_state:
  assumes "\<forall>now \<in> set nows. now \<noteq> 0" "int64_ok (BreakerThreshold opts)"
  shows "run_state (BreakerThreshold (withDefaults opts)) nows
           (get (failure_run (NewHealth opts) clk p nows) p)"
  using assms(1)
proof (induction nows rule: rev_induct)
  case Nil
  then show ?case
    by (simp add: run_state_def failure_run_def NewHealth_def get_def new_health_def)
next
  case (snoc now nows)
  let ?th = "BreakerThreshold (withDefaults opts)"
  have "?th < 2 ^ 63" using assms(2) by (simp add: withDefaults_def int64_ok_def default_defs)
  with snoc show ?case
    by (subst failure_run_snoc) (auto simp: NewHealth_def [of opts] intro!: run_state_step)
qed

lemma failure_run_known: "nows \<noteq> [] \<Longrightarrow> t_state (failure_run t clk p nows) p \<noteq> None"
  by (cases nows rule: rev_cases) (auto simp: failure_run_def RecordFailure_def Let_def)

section \<open>Claimed probes\<close>

definition claimed :: "tracker \<Rightarrow> string \<Rightarrow> instant \<Rightarrow> bool" where
  "claimed t p now \<longleftrightarrow> (\<exists>s. t_state t p = Some s \<and> breaker s = breakerHalfOpen \<and> probeInFlight s
     \<and> probeStarted s = now)"

lemma probe_claimed:
  assumes "Available t clk p now = (True, t')" "t_state t p = Some s" "breaker s \<noteq> breakerClosed" "0 < now"
  shows "claimed t' p now"
  using assms unfolding claimed_def
  by (auto simp: Available_def admitProbe_def tracker_at_def Let_def split: if_splits breaker_state.splits)

lemma claimed_unavailable:
  assumes "claimed t p now" "0 < now" "now \<le> now'" "now' < now + probeStallTimeout"
  shows "Available t clk p now' = (False, t)"
proof -
  have "time_Sub now' now < probeStallTimeout"
    using assms(4) by (subst time_Sub_less_iff) (simp_all add: probeStallTimeout_def time_unit_defs)
  with assms show ?thesis
    by (auto simp: claimed_def Available_def admitProbe_def tracker_at_def)
qed

section \<open>Properties\<close>

text \<open>(C18) Over every reachable tracker, a closed breaker has seen fewer failures in a row than the
  configured threshold, and a probe is marked in flight exactly while its breaker is half open, so a
  provider can neither be closed past its threshold nor hold a probe slot in any other state.\<close>

theorem breaker_invariant:
  assumes "health_reachable opts t" "int64_ok (BreakerThreshold opts)" "t_state t p = Some s"
  shows "(breaker s = breakerClosed \<longrightarrow>
            0 \<le> consecutiveFailures s \<and> consecutiveFailures s < BreakerThreshold (withDefaults opts)) \<and>
         (probeInFlight s \<longleftrightarrow> breaker s = breakerHalfOpen)"
  using reachable_health_inv [OF assms(1,2)] assms(3) health_reachable_opts [OF assms(1)]
  by (auto simp: health_inv_def entry_ok_def)

text \<open>The breaker opens at exactly the threshold: after a run of transient upstream failures on a
  fresh tracker, and inside the cooldown, the provider is offered if and only if the run is shorter
  than the threshold.\<close>

theorem breaker_opens_at_threshold:
  assumes nz: "\<forall>now \<in> set nows. now \<noteq> 0 \<and> now' < now + BreakerCooldown (withDefaults opts)"
    and now': "0 < now'"
    and w: "int64_ok (BreakerThreshold opts)" "int64_ok (BreakerCooldown opts)"
  shows "fst (Available (failure_run (NewHealth opts) clk p nows) clk' p now')
           \<longleftrightarrow> int (length nows) < BreakerThreshold (withDefaults opts)"
proof (cases "nows = []")
  case True
  then show ?thesis by (simp add: failure_run_def NewHealth_def Available_def)
next
  case False
  let ?t = "failure_run (NewHealth opts) clk p nows"
  obtain s where s: "t_state ?t p = Some s" using failure_run_known [OF False] by blast
  have "run_state (BreakerThreshold (withDefaults opts)) nows (get ?t p)"
    using nz w(1) by (intro failure_run_state) auto
  with s have rs: "run_state (BreakerThreshold (withDefaults opts)) nows s" by (simp add: get_def)
  have cd: "0 < BreakerCooldown (withDefaults opts)" "BreakerCooldown (withDefaults opts) < 2 ^ 63"
    using w(2) by (simp_all add: withDefaults_def int64_ok_def default_defs time_unit_defs)
  have o: "t_opts ?t = withDefaults opts" by (simp add: NewHealth_def)
  show ?thesis
  proof (cases "int (length nows) < BreakerThreshold (withDefaults opts)")
    case True
    with rs s now' show ?thesis
      by (simp add: run_state_def Available_def tracker_at_def)
  next
    case False
    with rs nz have "now' < openedAt s + BreakerCooldown (withDefaults opts)"
      by (auto simp: run_state_def)
    then have "time_Sub now' (openedAt s) < BreakerCooldown (withDefaults opts)"
      by (simp only: time_Sub_less_pos [OF cd])
    with rs s now' o False show ?thesis
      by (simp add: run_state_def Available_def tracker_at_def)
  qed
qed

text \<open>A half open breaker admits one caller: once a query claims the probe, every further query
  inside the stall timeout is refused and leaves the tracker as it was, so any number of waiting
  callers is turned away.\<close>

theorem single_probe:
  assumes "Available t clk p now = (True, t')" "t_state t p = Some s" "breaker s \<noteq> breakerClosed"
    and "0 < now" "now \<le> now'" "now' < now + probeStallTimeout"
  shows "Available t' clk' p now' = (False, t')"
proof -
  have "claimed t' p now" using assms(1-4) by (rule probe_claimed)
  then show ?thesis using assms(4-6) by (rule claimed_unavailable)
qed

text \<open>A failure that is the request's own fault changes no provider's availability and no
  latency ranking, so one bad caller cannot take a healthy provider out of rotation.\<close>

theorem request_faults_are_neutral:
  assumes "\<not> countsAgainstHealth cls" "0 < now'"
  shows "fst (Available (RecordFailure t clk p cls ra now) clk' q now') = fst (Available t clk' q now')
       \<and> Latency (RecordFailure t clk p cls ra now) q = Latency t q"
proof -
  have c: "cooldownFor cls ra = 0" using assms by (cases cls) (auto simp: countsAgainstHealth_def cooldownFor_def)
  have e: "extendCooldown s 0 n = s" for s n by (simp add: extendCooldown_def)
  have eq: "RecordFailure t clk p cls ra now = put t p (get t p)"
    using assms by (simp add: RecordFailure_def Let_def c e)
  show ?thesis
  proof (cases "t_state t p")
    case None
    then have "get t p = new_health" by (simp add: get_def)
    with None assms(2) show ?thesis
      by (auto simp: eq Available_def Latency_def new_health_def tracker_at_def minLatencySamples_def Let_def
          case_prod_beta split: option.split breaker_state.split)
  next
    case (Some s)
    then show ?thesis by (simp add: eq get_def)
  qed
qed

text \<open>(C25) A provider that answered 429 or 402 is not offered again before the pause recorded for it has
  run out (the \<^verbatim>\<open>Retry-After\<close> passed to the tracker, or the gateway's default), whatever queries,
  successes and failures of any provider are recorded in between.\<close>

theorem upstream_pause_is_honoured:
  assumes "health_step\<^sup>*\<^sup>* (RecordFailure t clk p cls ra now) t'"
    and "0 < cooldownFor cls ra" "0 < now" "0 < now'" "now' < now + cooldownFor cls ra"
  shows "fst (Available t' clk' p now') = False"
proof -
  have "parked (RecordFailure t clk p cls ra now) p now'"
    using assms(2-5)
    by (auto simp: parked_def RecordFailure_def tracker_at_def extendCooldown_def Let_def)
  then show ?thesis
    using health_steps_quiet [OF assms(1)] assms(4) ht.paused_stays_unavailable by blast
qed

section \<open>Witnesses\<close>

text \<open>A tracker with every option at its default but a threshold of two.\<close>

definition demo_opts :: options where
  "demo_opts = \<lparr>Strategy = [], MaxAttempts = 0, RetryBaseDelay = 0, MaxRetryDelay = 0,
     BreakerThreshold = 2, BreakerCooldown = 0\<rparr>"

definition demo_failures :: tracker where
  "demo_failures = failure_run (NewHealth demo_opts) 0 ''groq'' [1000, 2000]"

lemma demo_failures_reachable: "health_reachable demo_opts demo_failures"
  unfolding demo_failures_def failure_run_def fold_simps
  by (rule health_reachable.step [OF health_reachable.step [OF health_reachable.start]]
      health_step.failure)+

lemma demo_opts_simps [simp]:
  "BreakerThreshold (withDefaults demo_opts) = 2" "BreakerCooldown (withDefaults demo_opts) = 30000000000"
  "BreakerThreshold demo_opts = 2" "BreakerCooldown demo_opts = 0"
  by (simp_all add: withDefaults_def demo_opts_def default_defs time_unit_defs)

lemma demo_failures_state:
  "t_state demo_failures ''groq'' = Some (new_health\<lparr>breaker := breakerOpen, consecutiveFailures := 2,
     openedAt := 2000\<rparr>)"
  by (simp add: demo_failures_def failure_run_def RecordFailure_def Let_def tracker_at_def cooldownFor_def
      extendCooldown_def countFailure_def countsAgainstHealth_def NewHealth_def get_def new_health_def
      iadd_def wrap64_def)

lemma breaker_invariant_witness:
  "health_reachable demo_opts demo_failures \<and>
   breaker (get demo_failures ''groq'') = breakerOpen \<and> \<not> probeInFlight (get demo_failures ''groq'')"
  using breaker_invariant [OF demo_failures_reachable _ demo_failures_state] demo_failures_reachable
    demo_failures_state
  by (simp add: int64_ok_def new_health_def get_def)

lemma breaker_opens_at_threshold_witness:
  "fst (Available (failure_run (NewHealth demo_opts) 0 ''groq'' [1000]) 0 ''groq'' 3000)
   \<and> \<not> fst (Available (failure_run (NewHealth demo_opts) 0 ''groq'' [1000, 2000]) 0 ''groq'' 3000)"
  using breaker_opens_at_threshold [of "[1000]" 3000 demo_opts 0 "''groq''" 0]
    breaker_opens_at_threshold [of "[1000, 2000]" 3000 demo_opts 0 "''groq''" 0]
  by (simp add: int64_ok_def)

lemma demo_failures_probe:
  "Available demo_failures 0 ''groq'' 40000000000 = (True, put demo_failures ''groq''
     (new_health\<lparr>breaker := breakerHalfOpen, consecutiveFailures := 2, openedAt := 2000,
        probeInFlight := True, probeStarted := 40000000000\<rparr>))"
proof -
  have "t_opts demo_failures = withDefaults demo_opts" by (simp add: demo_failures_def NewHealth_def)
  then show ?thesis
    by (simp add: Available_def admitProbe_def tracker_at_def time_Sub_def sat64_def demo_failures_state
        new_health_def)
qed

lemma single_probe_witness:
  "fst (Available (snd (Available demo_failures 0 ''groq'' 40000000000)) 0 ''groq'' 50000000000) = False"
  using single_probe [OF demo_failures_probe demo_failures_state, of 50000000000 0] demo_failures_probe
  by (simp add: new_health_def probeStallTimeout_def time_unit_defs)

lemma request_faults_are_neutral_witness:
  "fst (Available (RecordFailure demo_failures 0 ''groq'' ErrClassInvalidRequest 0 5) 0 ''groq'' 3000)
     = fst (Available demo_failures 0 ''groq'' 3000)"
  by (rule conjunct1 [OF request_faults_are_neutral]) (simp_all add: countsAgainstHealth_def)

lemma upstream_pause_is_honoured_witness:
  "fst (Available (RecordSuccess (RecordFailure demo_failures 0 ''groq'' ErrClassRateLimited 0 5) ''groq'' 7)
     0 ''groq'' 20000000000) = False"
  by (rule upstream_pause_is_honoured [where ra = 0 and cls = ErrClassRateLimited and now = 5])
    (auto simp: cooldownFor_def defaultRateLimitCooldown_def time_unit_defs intro: health_step.success)

end
