(* ===== verification/Go_Format.thy ===== *)
theory Go_Format
  imports Float64
begin

text \<open>
  What the program uses of Go's \<^verbatim>\<open>strconv\<close> and \<^verbatim>\<open>fmt\<close> beyond plain integers: quoting (\<^verbatim>\<open>%q\<close>), fixed
  point output (\<^verbatim>\<open>FormatFloat(v, 'f', prec, 64)\<close>) and shortest output (\<^verbatim>\<open>FormatFloat(v, 'g', -1, 64)\<close>,
  also \<^verbatim>\<open>%v\<close>), and the string functions \<^verbatim>\<open>strings.Cut\<close>, \<^verbatim>\<open>TrimSpace\<close> and \<^verbatim>\<open>HasPrefix\<close>.
\<close>

section \<open>Strings\<close>

text \<open>\<^verbatim>\<open>strings.Cut\<close> around a one byte separator.\<close>

fun Cut :: "string \<Rightarrow> char \<Rightarrow> string \<times> string \<times> bool" where
  "Cut [] sep = ([], [], False)"
| "Cut (c # s) sep =
     (if c = sep then ([], s, True)
      else case Cut s sep of (before, after, found) \<Rightarrow>
        if found then (c # before, after, True) else (c # s, [], False))"

text \<open>The white space of \<^verbatim>\<open>TrimSpace\<close>, for strings of single byte characters.\<close>

definition is_space :: "char \<Rightarrow> bool" where
  "is_space c \<longleftrightarrow> (of_char c :: nat) \<in> {9, 10, 11, 12, 13, 32}"

definition TrimSpace :: "string \<Rightarrow> string" where
  "TrimSpace s = rev (dropWhile is_space (rev (dropWhile is_space s)))"

definition HasPrefix :: "string \<Rightarrow> string \<Rightarrow> bool" where
  "HasPrefix s p \<longleftrightarrow> take (length p) s = p"

definition TrimPrefix :: "string \<Rightarrow> string \<Rightarrow> string" where
  "TrimPrefix s p = (if HasPrefix s p then drop (length p) s else s)"

lemma Cut_found: "sep \<notin> set k \<Longrightarrow> Cut (k @ sep # m) sep = (k, m, True)"
  by (induction k) auto

lemma Cut_split:
  "Cut s sep = (b, a, True) \<Longrightarrow> s = b @ sep # a \<and> sep \<notin> set b"
  by (induction s arbitrary: b) (auto split: if_splits prod.splits)

lemma HasPrefix_append [simp]: "HasPrefix (p @ s) p"
  by (simp add: HasPrefix_def)

lemma HasPrefixD: "HasPrefix s p \<Longrightarrow> \<exists>r. s = p @ r"
  unfolding HasPrefix_def by (metis append_take_drop_id)

lemma TrimPrefix_append [simp]: "TrimPrefix (p @ s) p = s"
  by (simp add: TrimPrefix_def)

section \<open>Quoting\<close>

definition hex_digit :: "nat \<Rightarrow> char" where
  "hex_digit d = (if d < 10 then char_of (48 + d) else char_of (87 + d))"

definition Quote_char :: "char \<Rightarrow> string" where
  "Quote_char c = (let n = (of_char c :: nat) in
     if n = 34 then [CHR 0x5C, CHR 0x22] else if n = 92 then [CHR 0x5C, CHR 0x5C]
     else if n = 7 then CHR 0x5C # ''a'' else if n = 8 then CHR 0x5C # ''b''
     else if n = 12 then CHR 0x5C # ''f'' else if n = 10 then CHR 0x5C # ''n''
     else if n = 13 then CHR 0x5C # ''r'' else if n = 9 then CHR 0x5C # ''t''
     else if n = 11 then CHR 0x5C # ''v''
     else if n < 32 \<or> n = 127 then CHR 0x5C # ''x'' @ [hex_digit (n div 16), hex_digit (n mod 16)]
     else [c])"

text \<open>Bytes above 127 are taken as parts of printable characters and kept.\<close>

definition Quote :: "string \<Rightarrow> string" where
  "Quote s = CHR 0x22 # concat (map Quote_char s) @ [CHR 0x22]"

section \<open>Numbers\<close>

definition zeros :: "nat \<Rightarrow> string" where
  "zeros n = replicate n CHR 0x30"

definition pad_left :: "nat \<Rightarrow> string \<Rightarrow> string" where
  "pad_left n s = zeros (n - length s) @ s"

definition FormatFloat_f :: "nat \<Rightarrow> float64 \<Rightarrow> string" where
  "FormatFloat_f prec v = (let m = nat \<bar>rne (v * 10 ^ prec)\<bar> in
     (if v < 0 then ''-'' else []) @ FormatUint (m div 10 ^ prec)
     @ (if prec = 0 then [] else ''.'' @ pad_left prec (FormatUint (m mod 10 ^ prec))))"

text \<open>The decimal point of a positive number: \<open>10 ^ (dp - 1) \<le> x < 10 ^ dp\<close>.\<close>

definition decimal_point :: "rat \<Rightarrow> int" where
  "decimal_point x =
     (if 1 \<le> x then int (length (FormatUint (nat \<lfloor>x\<rfloor>)))
      else 1 - int (length (FormatUint (nat (\<lceil>1 / x\<rceil> - 1)))))"

text \<open>The shortest digits that read back as the same value: the first length at which a neighbour of
  that many digits does, the nearer one where both do. Seventeen digits always suffice.\<close>

fun shortest_from :: "nat \<Rightarrow> nat \<Rightarrow> rat \<Rightarrow> int \<Rightarrow> nat \<times> nat" where
  "shortest_from 0 n x dp = (nat (rne (x * 10 powi (int n - dp))), n)"
| "shortest_from (Suc fuel) n x dp =
     (let scale = 10 powi (int n - dp); lo = \<lfloor>x * scale\<rfloor>; hi = lo + 1;
          okdown = (rnd64 (of_int lo / scale) = x); okup = (rnd64 (of_int hi / scale) = x)
      in if okdown \<and> okup then (nat (rne (x * scale)), n)
         else if okdown then (nat lo, n) else if okup then (nat hi, n)
         else shortest_from fuel (Suc n) x dp)"

definition strip_zeros :: "string \<Rightarrow> string" where
  "strip_zeros s = rev (dropWhile (\<lambda>c. c = CHR 0x30) (rev s))"

definition format_e :: "string \<Rightarrow> int \<Rightarrow> string" where
  "format_e ds e = take 1 ds @ (if length ds \<le> 1 then [] else ''.'' @ drop 1 ds) @ ''e''
     @ (if e < 0 then ''-'' else ''+'') @ pad_left 2 (FormatUint (nat \<bar>e\<bar>))"

definition format_plain :: "string \<Rightarrow> int \<Rightarrow> string" where
  "format_plain ds dp =
     (if dp \<le> 0 then ''0.'' @ zeros (nat (- dp)) @ ds
      else if int (length ds) \<le> dp then ds @ zeros (nat dp - length ds)
      else take (nat dp) ds @ ''.'' @ drop (nat dp) ds)"

definition FormatFloat_g :: "float64 \<Rightarrow> string" where
  "FormatFloat_g v =
     (if v = 0 then ''0''
      else let x = \<bar>v\<bar>; dp = decimal_point x in
        case shortest_from 16 1 x dp of (m, n) \<Rightarrow>
          (let s = FormatUint m; dp' = dp + int (length s) - int n; ds = strip_zeros s
           in (if v < 0 then ''-'' else [])
              @ (if dp' - 1 < - 4 \<or> 6 < dp' then format_e ds (dp' - 1) else format_plain ds dp')))"

end
