(* ===== verification/Router_Selector.thy ===== *)
theory Router_Selector
  imports Router_Health "HOL-Library.Option_ord" "HOL-Library.Sublist" "HOL-Library.Multiset" Go_Format
begin

text \<open>
  Ordering a chain for one request (\<^verbatim>\<open>src/internal/router/selector.go\<close>). Asking for availability
  may claim a probe, so every ordering threads the tracker through. The lemmas show that each strategy
  offers exactly the available providers: in configured order, sorted by smoothed latency with the
  unmeasured ones first, or rotated by the call counter.
\<close>

section \<open>Strategies\<close>

datatype selector = prioritySelector | leastLatencySelector | roundRobinSelector nat

definition strategyNames :: string where
  "strategyNames = ''priority, least_latency, round_robin''"

definition NewSelector :: "string \<Rightarrow> string + selector" where
  "NewSelector s =
     (if s = ''priority'' then Inr prioritySelector
      else if s = ''least_latency'' then Inr leastLatencySelector
      else if s = ''round_robin'' then Inr (roundRobinSelector 0)
      else Inl (''unknown strategy '' @ Quote s @ '' (valid: '' @ strategyNames @ '')''))"

fun availableFrom :: "string list \<Rightarrow> tracker option \<Rightarrow> instant \<Rightarrow> instant \<Rightarrow> string list \<times> tracker option" where
  "availableFrom [] h clk now = ([], h)"
| "availableFrom (name # chain) None clk now =
     (case availableFrom chain None clk now of (out, h) \<Rightarrow> (name # out, h))"
| "availableFrom (name # chain) (Some t) clk now =
     (case Available t clk name now of (ok, t') \<Rightarrow>
      case availableFrom chain (Some t') clk now of (out, h) \<Rightarrow> (if ok then name # out else out, h))"

record latency_rank =
  rank_name :: string
  rank_ttft :: duration
  rank_sampled :: bool

definition rank_of :: "tracker option \<Rightarrow> string \<Rightarrow> latency_rank" where
  "rank_of h name = (case h of
       None \<Rightarrow> \<lparr>rank_name = name, rank_ttft = 0, rank_sampled = False\<rparr>
     | Some t \<Rightarrow> (case Latency t name of (d, ok) \<Rightarrow>
         \<lparr>rank_name = name, rank_ttft = d, rank_sampled = ok\<rparr>))"

text \<open>The comparator handed to \<^verbatim>\<open>slices.SortStableFunc\<close>, and that function as insertion behind
  every element that does not compare greater, which is the stable result.\<close>

definition rank_cmp :: "latency_rank \<Rightarrow> latency_rank \<Rightarrow> int" where
  "rank_cmp a b =
     (if rank_sampled a \<noteq> rank_sampled b then (if rank_sampled a then 1 else - 1)
      else if \<not> rank_sampled a then 0
      else if rank_ttft a < rank_ttft b then - 1 else if rank_ttft b < rank_ttft a then 1 else 0)"

fun insertStable :: "('a \<Rightarrow> 'a \<Rightarrow> int) \<Rightarrow> 'a \<Rightarrow> 'a list \<Rightarrow> 'a list" where
  "insertStable cmp x [] = [x]"
| "insertStable cmp x (y # ys) = (if cmp x y \<le> 0 then x # y # ys else y # insertStable cmp x ys)"

definition SortStableFunc :: "('a \<Rightarrow> 'a \<Rightarrow> int) \<Rightarrow> 'a list \<Rightarrow> 'a list" where
  "SortStableFunc cmp xs = foldr (insertStable cmp) xs []"

text \<open>\<^verbatim>\<open>Order\<close> of the three selectors. The round robin counter is an atomic \<^verbatim>\<open>uint64\<close>; the sum
  \<^verbatim>\<open>start+i\<close> wraps at 64 bits as well.\<close>

definition rotation :: "nat \<Rightarrow> string list \<Rightarrow> string list" where
  "rotation start avail =
     map (\<lambda>i. avail ! (wrap_u64 (start + i) mod length avail)) [0..<length avail]"

definition Order ::
  "selector \<Rightarrow> string list \<Rightarrow> tracker option \<Rightarrow> instant \<Rightarrow> instant
     \<Rightarrow> string list \<times> tracker option \<times> selector" where
  "Order sel chain h clk now = (case availableFrom chain h clk now of (avail, h') \<Rightarrow>
     (case sel of
        prioritySelector \<Rightarrow> (avail, h', sel)
      | leastLatencySelector \<Rightarrow>
          (map rank_name (SortStableFunc rank_cmp (map (rank_of h') avail)), h', sel)
      | roundRobinSelector calls \<Rightarrow>
          (if avail = [] then (avail, h', sel)
           else (rotation calls avail, h', roundRobinSelector (wrap_u64 (calls + 1))))))"

section \<open>Which providers are offered\<close>

lemma availableFrom_subseq: "subseq (fst (availableFrom chain h clk now)) chain"
  by (induction chain h clk now rule: availableFrom.induct) (auto split: prod.split)

text \<open>On a chain without duplicates the claims made along the way do not influence each other: the
  providers kept are those the initial tracker calls available.\<close>

lemma availableFrom_filter:
  "distinct chain \<Longrightarrow> fst (availableFrom chain (Some t) clk now) = filter (\<lambda>p. fst (Available t clk p now)) chain"
proof (induction chain arbitrary: t)
  case (Cons name chain)
  have "filter (\<lambda>p. fst (Available (snd (Available t clk name now)) clk p now)) chain
      = filter (\<lambda>p. fst (Available t clk p now)) chain"
  proof (rule filter_cong)
    fix q assume "q \<in> set chain"
    with Cons.prems have "q \<noteq> name" by auto
    then show "fst (Available (snd (Available t clk name now)) clk q now) = fst (Available t clk q now)"
      by (rule ht.other_provider)
  qed simp
  with Cons show ?case by (auto simp: case_prod_beta)
qed simp

lemma availableFrom_Some: "\<exists>t'. snd (availableFrom chain (Some t) clk now) = Some t'"
  by (induction chain arbitrary: t) (auto split: prod.split, metis snd_conv)

lemma Latency_Available [simp]: "Latency (snd (Available t clk p now)) q = Latency t q"
  by (auto simp: Latency_def Available_def admitProbe_def Let_def split: option.split breaker_state.split)

lemma availableFrom_Latency:
  "availableFrom chain (Some t) clk now = (out, Some t') \<Longrightarrow> Latency t' q = Latency t q"
proof (induction chain arbitrary: t out)
  case (Cons name chain)
  then obtain out' where "availableFrom chain (Some (snd (Available t clk name now))) clk now = (out', Some t')"
    by (auto split: prod.splits)
  with Cons.IH show ?case by fastforce
qed simp

section \<open>Latency order\<close>

definition rank_key :: "latency_rank \<Rightarrow> int option" where
  "rank_key r = (if rank_sampled r then Some (rank_ttft r) else None)"

lemma rank_cmp_key: "rank_cmp a b \<le> 0 \<longleftrightarrow> rank_key a \<le> rank_key b"
  by (auto simp: rank_cmp_def rank_key_def)

lemma insertStable_key:
  assumes "\<And>a b. cmp a b \<le> 0 \<longleftrightarrow> key a \<le> key b"
  shows "insertStable cmp x ys = insort_key key x ys"
  using assms by (induction ys) auto

lemma SortStableFunc_key:
  assumes "\<And>a b. cmp a b \<le> 0 \<longleftrightarrow> key a \<le> key b"
  shows "SortStableFunc cmp xs = sort_key key xs"
  using insertStable_key [of cmp key] assms
  by (induction xs) (simp_all add: SortStableFunc_def)

lemma rank_name_of [simp]: "rank_name (rank_of h name) = name"
  by (simp add: rank_of_def split: option.split prod.split)

lemma map_rank_names: "map (rank_of h \<circ> rank_name) (map (rank_of h) xs) = map (rank_of h) xs"
  by simp

lemma sort_ranks:
  "map rank_name (sort_key rank_key (map (rank_of h) xs)) = sort_key (\<lambda>p. rank_key (rank_of h p)) xs"
proof -
  have "sort_key rank_key (map (rank_of h) xs) = map (rank_of h) (sort_key (\<lambda>p. rank_key (rank_of h p)) xs)"
  proof (induction xs)
    case (Cons x xs)
    have "insort_key rank_key (rank_of h x) (map (rank_of h) ys)
        = map (rank_of h) (insort_key (\<lambda>p. rank_key (rank_of h p)) x ys)" for ys
      by (induction ys) auto
    with Cons show ?case by simp
  qed simp
  then show ?thesis by (simp add: comp_def)
qed

section \<open>Rotation\<close>

lemma length_rotation [simp]: "length (rotation start avail) = length avail"
  by (simp add: rotation_def)

lemma rotation_rotate:
  assumes "avail \<noteq> []" "start + length avail \<le> 2 ^ 64"
  shows "rotation start avail = rotate start avail"
proof (rule nth_equalityI)
  fix i assume "i < length (rotation start avail)"
  then have i: "i < length avail" by simp
  with assms(2) have "wrap_u64 (start + i) = start + i" by (intro wrap_u64_id) linarith
  with i show "rotation start avail ! i = rotate start avail ! i"
    by (simp add: rotation_def nth_rotate add.commute)
qed simp

lemma mset_rotate: "mset (rotate n xs) = mset xs"
  by (metis append_take_drop_id mset_append rotate_drop_take union_commute)

lemma Order_exact:
  assumes d: "distinct chain"
    and c: "\<forall>calls. sel = roundRobinSelector calls \<longrightarrow> calls + length chain \<le> 2 ^ 64"
  shows "distinct (fst (Order sel chain (Some t) clk now))
       \<and> set (fst (Order sel chain (Some t) clk now)) = {p \<in> set chain. fst (Available t clk p now)}"
proof -
  obtain avail h' where a: "availableFrom chain (Some t) clk now = (avail, h')" by fastforce
  with availableFrom_filter [OF d, of t clk now]
  have av: "avail = filter (\<lambda>p. fst (Available t clk p now)) chain" by simp
  have "length avail \<le> length chain" by (simp add: av)
  with c have "\<forall>calls. sel = roundRobinSelector calls \<longrightarrow> calls + length avail \<le> 2 ^ 64" by auto
  then have "mset (fst (Order sel chain (Some t) clk now)) = mset avail"
    using rotation_rotate [of avail] mset_rotate
    by (cases sel)
      (auto simp: Order_def a SortStableFunc_key [OF rank_cmp_key] sort_ranks)
  then have "distinct (fst (Order sel chain (Some t) clk now)) = distinct avail"
    and "set (fst (Order sel chain (Some t) clk now)) = set avail"
    by (auto dest: mset_eq_imp_distinct_iff mset_eq_setD)
  then show ?thesis using d by (auto simp: av)
qed

section \<open>Properties\<close>

text \<open>Exclusion outranks ordering: for every strategy, and while the round robin counter has not
  wrapped, the order holds each provider of a duplicate-free chain that the tracker reports available
  exactly once, and no other. An open breaker is never offered, however good its latency.\<close>

theorem order_offers_exactly_the_available:
  assumes d: "distinct chain"
    and c: "\<forall>calls. sel = roundRobinSelector calls \<longrightarrow> calls + length chain \<le> 2 ^ 64"
  shows "distinct (fst (Order sel chain (Some t) clk now))
       \<and> set (fst (Order sel chain (Some t) clk now)) = {p \<in> set chain. fst (Available t clk p now)}"
  using assms by (rule Order_exact)

text \<open>Latency order: the offered providers are sorted by smoothed time to first token with the
  unmeasured ones in front, and providers that tie keep their configured order.\<close>

theorem least_latency_order:
  fixes t :: tracker and clk now :: instant and chain :: "string list"
  assumes "distinct chain"
  defines "out \<equiv> fst (Order leastLatencySelector chain (Some t) clk now)"
    and "key \<equiv> (\<lambda>p. case Latency t p of (d, sampled) \<Rightarrow> if sampled then Some d else None)"
  shows "sorted (map key out) \<and>
    (\<forall>k. filter (\<lambda>p. key p = k) out =
         filter (\<lambda>p. key p = k \<and> fst (Available t clk p now)) chain)"
proof -
  obtain avail h' where a: "availableFrom chain (Some t) clk now = (avail, Some h')"
    using availableFrom_Some [of chain t clk now] by (metis prod.collapse)
  with availableFrom_filter [OF assms(1), of t clk now]
  have av: "avail = filter (\<lambda>p. fst (Available t clk p now)) chain" by simp
  have k: "rank_key (rank_of (Some h') p) = key p" for p
    using availableFrom_Latency [OF a, of p]
    by (simp add: rank_key_def rank_of_def key_def split: prod.split)
  have "out = sort_key key avail"
    by (simp add: out_def Order_def a SortStableFunc_key [OF rank_cmp_key] sort_ranks k)
  then show ?thesis by (auto simp: av sort_key_stable conj_commute)
qed

lemma least_latency_order_witness:
  "sorted (map (\<lambda>p. case Latency demo_failures p of (d, sampled) \<Rightarrow> if sampled then Some d else None)
     (fst (Order leastLatencySelector [''mistral'', ''groq''] (Some demo_failures) 0 3000)))"
  using least_latency_order [of "[''mistral'', ''groq'']" demo_failures 0 3000] by simp

lemma order_offers_exactly_the_available_witness:
  "set (fst (Order (roundRobinSelector 7) [''mistral'', ''groq''] (Some demo_failures) 0 3000))
     = {p \<in> {''mistral'', ''groq''}. fst (Available demo_failures 0 p 3000)}"
  using order_offers_exactly_the_available [of "[''mistral'', ''groq'']" "roundRobinSelector 7" demo_failures 0 3000]
  by simp

text \<open>Round robin spreads the lead: while the counter has not wrapped, call number \<open>calls\<close> over a
  chain of which nothing is excluded leads with provider \<open>calls mod length chain\<close>, keeps the cyclic
  order after it, and advances the counter by one.\<close>

theorem round_robin_rotates:
  assumes "chain \<noteq> []" "calls + length chain \<le> 2 ^ 64" "\<forall>p \<in> set chain. fst (Available t clk p now)"
    and "distinct chain"
  shows "\<exists>h'. Order (roundRobinSelector calls) chain (Some t) clk now =
           (rotate calls chain, h', roundRobinSelector (wrap_u64 (calls + 1)))
       \<and> hd (rotate calls chain) = chain ! (calls mod length chain)"
proof -
  obtain avail h' where a: "availableFrom chain (Some t) clk now = (avail, h')" by fastforce
  with availableFrom_filter [OF assms(4), of t clk now] assms(3) have "avail = chain" by simp
  with a assms show ?thesis
    by (auto simp: Order_def rotation_rotate hd_rotate_conv_nth)
qed

lemma round_robin_rotates_witness:
  "fst (Order (roundRobinSelector 4) [''a'', ''b'', ''c''] (Some (NewHealth demo_opts)) 0 5)
     = [''b'', ''c'', ''a'']"
  using round_robin_rotates [of "[''a'', ''b'', ''c'']" 4 "NewHealth demo_opts" 0 5]
  by (auto simp: NewHealth_def Available_def rotate_drop_take)

text \<open>The wrap-around of the round robin counter is not harmless for the order of the one call that
  straddles it: with three providers and the counter at its last value the first provider is offered
  twice and the third is not offered at all.\<close>

theorem round_robin_wrap_drops_a_provider:
  "fst (Order (roundRobinSelector (2 ^ 64 - 1)) [''a'', ''b'', ''c''] None clk now)
     = [''a'', ''a'', ''b'']"
proof -
  have "rotation (2 ^ 64 - 1) [a, b, c] = [a, a, b]" for a b c :: string
    by (simp add: rotation_def wrap_u64_def)
  then show ?thesis by (simp add: Order_def)
qed

end
