(* ===== verification/Router_Orchestrator.thy ===== *)
theory Router_Orchestrator
  imports Router_Selector
begin

text \<open>
  The attempt loop (\<^verbatim>\<open>src/internal/router/orchestrator.go\<close>): a router walks the selected providers,
  applies the failure policy, keeps one attempt in reserve for every provider not yet tried, and
  reports the freshest failure when the chain is spent. The upstream is a parameter: a world that calls,
  the request's context and the clock read and change. A call also returns the tracker, so whatever
  concurrent requests record while it runs is covered.
\<close>

section \<open>The router\<close>

record 'p router =
  r_name :: string
  r_names :: "string list"
  r_byName :: "string \<rightharpoonup> 'p"
  r_sel :: selector
  r_opts :: options

record attempt =
  att_Provider :: string
  att_Class :: "error_class option"
  att_Err :: "err option"
  att_Duration :: duration

text \<open>\<^verbatim>\<open>New\<close> over a chain of named providers; the tracker and the selector may be nil.\<close>

fun addProviders :: "string \<Rightarrow> (string \<times> 'p) list \<Rightarrow> 'p router \<Rightarrow> string + 'p router" where
  "addProviders name [] r = Inr r"
| "addProviders name ((pn, p) # chain) r =
     (if r_byName r pn \<noteq> None
      then Inl (''router '' @ Quote name @ '': duplicate provider '' @ Quote pn @ '' in chain'')
      else addProviders name chain (r\<lparr>r_names := r_names r @ [pn], r_byName := (r_byName r)(pn \<mapsto> p)\<rparr>))"

definition router_New ::
  "string \<Rightarrow> (string \<times> 'p) list \<Rightarrow> tracker option \<Rightarrow> selector option \<Rightarrow> options \<Rightarrow> string + 'p router" where
  "router_New name chain h sel opts =
     (if chain = [] then Inl (''router '' @ Quote name @ '': needs at least one provider'')
      else if h = None then Inl (''router '' @ Quote name @ '': needs a health tracker'')
      else case sel of
        None \<Rightarrow> Inl (''router '' @ Quote name @ '': needs a selector'')
      | Some s \<Rightarrow> addProviders name chain
          \<lparr>r_name = name, r_names = [], r_byName = Map.empty, r_sel = s, r_opts = withDefaults opts\<rparr>)"

section \<open>Errors of the loop\<close>

definition exhausted :: "string \<Rightarrow> err option \<Rightarrow> err" where
  "exhausted name lastErr = (case lastErr of
       Some e \<Rightarrow> e
     | None \<Rightarrow> ProviderError name ErrClassUpstream 0 ''no provider attempt was made for this model'' None)"

definition canceledError :: "string \<Rightarrow> err \<Rightarrow> err" where
  "canceledError name e =
     (if errors_Is e ContextDeadlineExceeded
      then ProviderError name ErrClassTimeout 0
             ''deadline exceeded before another provider could be tried'' (Some e)
      else e)"

definition classOf :: "err \<Rightarrow> error_class" where
  "classOf e = (case errors_As e of
       Some (ProviderError _ c _ _ _) \<Rightarrow> c
     | _ \<Rightarrow> if errors_Is e ContextCanceled then ErrClassCanceled
            else if errors_Is e ContextDeadlineExceeded then ErrClassTimeout
            else ErrClassInternal)"

text \<open>The ceiling of one backoff; the wait itself is drawn uniformly below it. The shift happens at 64
  bits, and a product that overflowed to a non-positive value falls back to the cap.\<close>

definition backoff_delay :: "options \<Rightarrow> goint \<Rightarrow> duration" where
  "backoff_delay opts attempt =
     (let delay = wrap64 (RetryBaseDelay opts * 2 ^ nat (min (attempt - 1) 16))
      in if MaxRetryDelay opts < delay \<or> delay \<le> 0 then MaxRetryDelay opts else delay)"

section \<open>The loop\<close>

text \<open>The outside of the loop: the upstream call, the context's error, the wall clock and the wait.\<close>

record ('w, 'p, 'r) upstream =
  up_call :: "'p \<Rightarrow> 'w \<Rightarrow> tracker \<Rightarrow> (err + 'r) \<times> 'w \<times> tracker"
  up_ctxErr :: "'w \<Rightarrow> err option"
  up_now :: "'w \<Rightarrow> instant"
  up_wait :: "duration \<Rightarrow> 'w \<Rightarrow> 'w"

record 'w chain_state =
  cs_used :: goint
  cs_lastErr :: "err option"
  cs_attempts :: "attempt list"
  cs_world :: 'w
  cs_health :: tracker

datatype 'r outcome = Return "err + 'r" | NextProvider

definition okAttempt :: "string \<Rightarrow> duration \<Rightarrow> attempt" where
  "okAttempt name d = \<lparr>att_Provider = name, att_Class = None, att_Err = None, att_Duration = d\<rparr>"

definition failAttempt :: "string \<Rightarrow> err \<Rightarrow> duration \<Rightarrow> attempt" where
  "failAttempt name e d =
     \<lparr>att_Provider = name, att_Class = Some (classOf e), att_Err = Some e, att_Duration = d\<rparr>"

definition recordCallFailure ::
  "('w, 'p, 'r) upstream \<Rightarrow> string \<Rightarrow> err \<Rightarrow> instant \<Rightarrow> 'w \<Rightarrow> tracker \<Rightarrow> 'w chain_state \<Rightarrow> 'w chain_state" where
  "recordCallFailure E name e started w h s = (let cls = classOf e in
     s\<lparr>cs_used := cs_used s + 1, cs_lastErr := Some e,
       cs_attempts := cs_attempts s @ [failAttempt name e (time_Sub (up_now E w) started)],
       cs_world := w,
       cs_health := (if countsAgainstHealth cls then RecordFailure h (up_now E w) name cls 0 (up_now E w) else h)\<rparr>)"

text \<open>The inner loop over one provider. It ends because every round spends an attempt of a bounded
  budget.\<close>

function tryProvider ::
  "('w, 'p, 'r) upstream \<Rightarrow> options \<Rightarrow> string \<Rightarrow> string \<Rightarrow> 'p \<Rightarrow> goint \<Rightarrow> 'w chain_state
     \<Rightarrow> 'r outcome \<times> 'w chain_state" where
  "tryProvider E opts rname name p reserved s =
     (if MaxAttempts opts \<le> cs_used s then (Return (Inl (exhausted rname (cs_lastErr s))), s)
      else case up_ctxErr E (cs_world s) of
        Some e \<Rightarrow> (Return (Inl (canceledError rname e)), s)
      | None \<Rightarrow>
          (case up_call E p (cs_world s) (cs_health s) of
             (Inr v, w, h) \<Rightarrow>
               (Return (Inr v), s\<lparr>cs_used := cs_used s + 1, cs_world := w, cs_health := h,
                  cs_attempts := cs_attempts s @ [okAttempt name
                    (time_Sub (up_now E w) (up_now E (cs_world s)))]\<rparr>)
           | (Inl e, w, h) \<Rightarrow>
               (let s' = recordCallFailure E name e (up_now E (cs_world s)) w h s in
                if up_ctxErr E w \<noteq> None \<and> classOf e = ErrClassCanceled then (Return (Inl e), s')
                else case classDisposition (classOf e) of
                  dispositionFail \<Rightarrow> (Return (Inl e), s')
                | dispositionFailover \<Rightarrow> (NextProvider, s')
                | dispositionRetry \<Rightarrow>
                    (if MaxAttempts opts \<le> cs_used s' + reserved then (NextProvider, s')
                     else tryProvider E opts rname name p reserved
                            (s'\<lparr>cs_world := up_wait E (backoff_delay opts (cs_used s')) w\<rparr>)))))"
  by pat_completeness auto
termination
  by (relation "measure (\<lambda>(E, opts, rname, name, p, reserved, s). nat (MaxAttempts opts - cs_used s))")
    (auto simp: recordCallFailure_def Let_def)

declare tryProvider.simps [simp del]

fun chainLoop ::
  "('w, 'p, 'r) upstream \<Rightarrow> 'p router \<Rightarrow> string list \<Rightarrow> 'w chain_state \<Rightarrow> (err + 'r) \<times> 'w chain_state" where
  "chainLoop E r [] s = (Inl (exhausted (r_name r) (cs_lastErr s)), s)"
| "chainLoop E r (name # rest) s =
     (case r_byName r name of
        None \<Rightarrow> chainLoop E r rest s
      | Some p \<Rightarrow>
          (case tryProvider E (r_opts r) (r_name r) name p (int (length rest)) s of
             (Return v, s') \<Rightarrow> (v, s')
           | (NextProvider, s') \<Rightarrow> chainLoop E r rest s'))"

definition noHealthyProvider :: "string \<Rightarrow> err" where
  "noHealthyProvider name =
     ProviderError name ErrClassUpstream 0 ''no healthy provider is available for this model'' None"

definition runChain ::
  "('w, 'p, 'r) upstream \<Rightarrow> 'p router \<Rightarrow> 'w \<Rightarrow> tracker \<Rightarrow> (err + 'r) \<times> 'w chain_state \<times> 'p router" where
  "runChain E r w h = (let now = up_now E w in
     case Order (r_sel r) (r_names r) (Some h) now now of (order, h', sel') \<Rightarrow>
       (let s = \<lparr>cs_used = 0, cs_lastErr = None, cs_attempts = [], cs_world = w,
                 cs_health = (case h' of Some t \<Rightarrow> t | None \<Rightarrow> h)\<rparr>;
            r' = r\<lparr>r_sel := sel'\<rparr>
        in if order = [] then (Inl (noHealthyProvider (r_name r)), s, r')
           else case chainLoop E r order s of (res, s') \<Rightarrow> (res, s', r')))"

text \<open>The two entry points differ in the call they hand to the loop. A completed chat reports success
  at once, with no time to first token; a stream is wrapped and reports at its first chunk.\<close>

definition Chat_call ::
  "(string \<Rightarrow> 'w \<Rightarrow> tracker \<Rightarrow> (err + 'r) \<times> 'w \<times> tracker) \<Rightarrow> string \<Rightarrow> 'w \<Rightarrow> tracker \<Rightarrow> (err + 'r) \<times> 'w \<times> tracker" where
  "Chat_call chat name w h = (case chat name w h of
       (Inl e, w', h') \<Rightarrow> (Inl e, w', h')
     | (Inr resp, w', h') \<Rightarrow> (Inr resp, w', RecordSuccess h' name 0))"

definition ChatStream_call ::
  "(string \<Rightarrow> 'w \<Rightarrow> tracker \<Rightarrow> (err + reader) \<times> 'w \<times> tracker) \<Rightarrow> string \<Rightarrow> 'w \<Rightarrow> tracker
     \<Rightarrow> (err + reader) \<times> 'w \<times> tracker" where
  "ChatStream_call open_stream name w h = (case open_stream name w h of
       (Inl e, w', h') \<Rightarrow> (Inl e, w', h')
     | (Inr rd, w', h') \<Rightarrow> (Inr (timedReader rd name), w', h'))"

text \<open>\<^verbatim>\<open>timedReader.Recv\<close>: the first chunk that carries data reports health; keepalives, later chunks
  and errors pass through.\<close>

definition timedRecv ::
  "string \<Rightarrow> duration \<Rightarrow> bool \<Rightarrow> err + stream_chunk \<Rightarrow> tracker \<Rightarrow> (err + stream_chunk) \<times> bool \<times> tracker" where
  "timedRecv provider elapsed recorded res h = (case res of
       Inr chunk \<Rightarrow>
         (if \<not> recorded \<and> \<not> Keepalive chunk then (res, True, RecordSuccess h provider elapsed)
          else (res, recorded, h))
     | Inl e \<Rightarrow> (res, recorded, h))"

section \<open>What one provider's turn adds to the record\<close>

definition failed :: "attempt \<Rightarrow> bool" where
  "failed a \<longleftrightarrow> att_Err a \<noteq> None"

text \<open>The contract of a turn: the attempts it appends all name its provider, each spends one unit of
  the budget, the budget is never exceeded, and how the last of them ended agrees with the outcome.\<close>

definition turn_post ::
  "('w, 'p, 'r) upstream \<Rightarrow> options \<Rightarrow> string \<Rightarrow> string \<Rightarrow> 'r outcome \<Rightarrow> 'w chain_state \<Rightarrow> 'w chain_state \<Rightarrow> attempt list \<Rightarrow> bool" where
  "turn_post E opts rname name out s s' as \<longleftrightarrow>
     cs_attempts s' = cs_attempts s @ as \<and> cs_used s' = cs_used s + int (length as) \<and>
     (\<forall>a \<in> set as. att_Provider a = name) \<and>
     (cs_used s \<le> MaxAttempts opts \<longrightarrow> cs_used s' \<le> MaxAttempts opts) \<and>
     (case out of
        Return (Inr v) \<Rightarrow> as \<noteq> [] \<and> \<not> failed (last as) \<and> (\<forall>a \<in> set (butlast as). failed a)
      | Return (Inl e) \<Rightarrow> (\<forall>a \<in> set as. failed a) \<and>
          cs_lastErr s' = (if as = [] then cs_lastErr s else att_Err (last as)) \<and>
          (e = exhausted rname (cs_lastErr s') \<or> (\<exists>w c. up_ctxErr E w = Some c \<and> e = canceledError rname c))
      | NextProvider \<Rightarrow> as \<noteq> [] \<and> (\<forall>a \<in> set as. failed a) \<and> cs_lastErr s' = att_Err (last as))"

lemma turn_post_Cons:
  assumes "turn_post E opts rname name out s1 s' as" "failed a" "att_Provider a = name"
    and "cs_attempts s1 = cs_attempts s @ [a]" "cs_used s1 = cs_used s + 1" "cs_lastErr s1 = att_Err a"
    and "cs_used s < MaxAttempts opts"
  shows "turn_post E opts rname name out s s' (a # as)"
  using assms by (auto simp: turn_post_def split: outcome.splits sum.splits)

lemma recordCallFailure_simps [simp]:
  "cs_used (recordCallFailure E name e st w h s) = cs_used s + 1"
  "cs_lastErr (recordCallFailure E name e st w h s) = Some e"
  "cs_world (recordCallFailure E name e st w h s) = w"
  "cs_attempts (recordCallFailure E name e st w h s) =
     cs_attempts s @ [failAttempt name e (time_Sub (up_now E w) st)]"
  by (simp_all add: recordCallFailure_def Let_def)

lemma attempt_simps [simp]:
  "att_Provider (okAttempt name d) = name" "att_Provider (failAttempt name e d) = name"
  "att_Err (okAttempt name d) = None" "att_Err (failAttempt name e d) = Some e"
  "att_Class (failAttempt name e d) = Some (classOf e)"
  "\<not> failed (okAttempt name d)" "failed (failAttempt name e d)"
  by (simp_all add: okAttempt_def failAttempt_def failed_def)

text \<open>One round: either the turn is over, with the attempt it added, or it goes on after a failure.\<close>

lemma tryProvider_round:
  fixes E :: "('w, 'p, 'r) upstream" and name :: string
  assumes "cs_used s < MaxAttempts opts" "up_ctxErr E (cs_world s) = None"
    and "up_call E p (cs_world s) (cs_health s) = (Inl e, w, h)"
  defines "s' \<equiv> recordCallFailure E name e (up_now E (cs_world s)) w h s"
  shows "tryProvider E opts rname name p reserved s =
    (if classDisposition (classOf e) = dispositionRetry \<and> cs_used s' + reserved < MaxAttempts opts
     then tryProvider E opts rname name p reserved
            (s'\<lparr>cs_world := up_wait E (backoff_delay opts (cs_used s')) w\<rparr>)
     else (if classDisposition (classOf e) = dispositionFail then Return (Inl e) else NextProvider, s'))"
  using assms(1-3) unfolding s'_def
  by (subst tryProvider.simps) (auto simp: Let_def classDisposition_def split: disposition.splits)

lemma turn_post_stop:
  assumes "cs_used s < MaxAttempts opts" "out = Return (Inl e) \<or> out = NextProvider"
  shows "turn_post E opts rname name out s (recordCallFailure E name e st w h s)
           [failAttempt name e (time_Sub (up_now E w) st)]"
  using assms by (auto simp: turn_post_def exhausted_def)

lemma tryProvider_post:
  "\<exists>as. turn_post E opts rname name (fst (tryProvider E opts rname name p reserved s)) s
          (snd (tryProvider E opts rname name p reserved s)) as"
proof (induction "nat (MaxAttempts opts - cs_used s)" arbitrary: s rule: less_induct)
  case less
  show ?case
  proof (cases "MaxAttempts opts \<le> cs_used s \<or> up_ctxErr E (cs_world s) \<noteq> None")
    case True
    then show ?thesis
      by (subst (1 2) tryProvider.simps, intro exI [of _ "[]"]) (auto simp: turn_post_def split: option.splits)
  next
    case False
    then have lt: "cs_used s < MaxAttempts opts" and ctx: "up_ctxErr E (cs_world s) = None" by auto
    obtain res w h where call: "up_call E p (cs_world s) (cs_health s) = (res, w, h)" by (metis prod_cases3)
    show ?thesis
    proof (cases res)
      case (Inr v)
      with lt ctx call show ?thesis
        by (subst (1 2) tryProvider.simps,
            intro exI [of _ "[okAttempt name (time_Sub (up_now E w) (up_now E (cs_world s)))]"])
          (auto simp: turn_post_def)
    next
      case (Inl e)
      let ?s' = "recordCallFailure E name e (up_now E (cs_world s)) w h s"
      let ?s2 = "?s'\<lparr>cs_world := up_wait E (backoff_delay opts (cs_used ?s')) w\<rparr>"
      let ?r = "tryProvider E opts rname name p reserved ?s2"
      note round = tryProvider_round [OF lt ctx call [unfolded Inl]]
      show ?thesis
      proof (cases "classDisposition (classOf e) = dispositionRetry \<and> cs_used ?s' + reserved < MaxAttempts opts")
        case True
        have "\<exists>as. turn_post E opts rname name (fst ?r) ?s2 (snd ?r) as"
          using lt by (intro less) auto
        then obtain as where "turn_post E opts rname name (fst ?r) ?s2 (snd ?r) as" ..
        from turn_post_Cons [OF this, of "failAttempt name e (time_Sub (up_now E w) (up_now E (cs_world s)))" s]
        have "turn_post E opts rname name (fst ?r) s (snd ?r)
            (failAttempt name e (time_Sub (up_now E w) (up_now E (cs_world s))) # as)"
          using lt by simp
        moreover have "tryProvider E opts rname name p reserved s = ?r"
          by (subst round) (rule if_P [OF True])
        ultimately show ?thesis by metis
      next
        case False
        have "tryProvider E opts rname name p reserved s =
            (if classDisposition (classOf e) = dispositionFail then Return (Inl e) else NextProvider, ?s')"
          by (subst round) (rule if_not_P [OF False])
        moreover have "turn_post E opts rname name
            (if classDisposition (classOf e) = dispositionFail then Return (Inl e) else NextProvider) s ?s'
            [failAttempt name e (time_Sub (up_now E w) (up_now E (cs_world s)))]"
          using lt by (intro turn_post_stop) auto
        ultimately show ?thesis by auto
      qed
    qed
  qed
qed

section \<open>The whole chain\<close>

text \<open>What the loop over the order adds: attempts that visit a prefix of the order without going back,
  within the budget, ending in the one success or in failures only.\<close>

definition chain_post ::
  "('w, 'p, 'r) upstream \<Rightarrow> 'p router \<Rightarrow> string list \<Rightarrow> err + 'r \<Rightarrow> 'w chain_state \<Rightarrow> 'w chain_state \<Rightarrow> attempt list \<Rightarrow> bool" where
  "chain_post E r order res s s' as \<longleftrightarrow>
     cs_attempts s' = cs_attempts s @ as \<and> cs_used s' = cs_used s + int (length as) \<and>
     (cs_used s \<le> MaxAttempts (r_opts r) \<longrightarrow> cs_used s' \<le> MaxAttempts (r_opts r)) \<and>
     prefix (remdups_adj (map att_Provider as)) order \<and>
     (case res of
        Inr v \<Rightarrow> as \<noteq> [] \<and> \<not> failed (last as) \<and> (\<forall>a \<in> set (butlast as). failed a)
      | Inl e \<Rightarrow> (\<forall>a \<in> set as. failed a) \<and>
          cs_lastErr s' = (if as = [] then cs_lastErr s else att_Err (last as)) \<and>
          (e = exhausted (r_name r) (cs_lastErr s') \<or> (\<exists>w c. up_ctxErr E w = Some c \<and> e = canceledError (r_name r) c)))"

lemma remdups_adj_turn:
  assumes "as \<noteq> []" "\<forall>a \<in> set as. f a = x" "x \<notin> set (map f bs)"
  shows "remdups_adj (map f (as @ bs)) = x # remdups_adj (map f bs)"
  using assms
proof (induction as)
  case (Cons a as)
  show ?case
  proof (cases as)
    case Nil
    with Cons.prems show ?thesis by (cases bs) auto
  next
    case (Cons b cs)
    with Cons.IH Cons.prems show ?thesis by simp
  qed
qed simp

lemma chain_post_return:
  assumes "turn_post E (r_opts r) (r_name r) name (Return res) s s' as"
  shows "chain_post E r (name # rest) res s s' as"
proof -
  have all: "\<forall>a \<in> set as. att_Provider a = name" using assms by (simp add: turn_post_def)
  have "prefix (remdups_adj (map att_Provider as)) (name # rest)"
    using all remdups_adj_turn [of as att_Provider name "[]"] by (cases "as = []") auto
  with assms show ?thesis
    by (auto simp: turn_post_def chain_post_def split: sum.splits)
qed

lemma chain_post_next:
  assumes t: "turn_post E (r_opts r) (r_name r) name NextProvider s s1 as"
    and c: "chain_post E r rest res s1 s' bs" and d: "name \<notin> set rest"
  shows "chain_post E r (name # rest) res s s' (as @ bs)"
proof -
  have n: "prefix (remdups_adj (map att_Provider bs)) rest" using c by (simp add: chain_post_def)
  then have "name \<notin> set (map att_Provider bs)"
    using d by (metis remdups_adj_set set_mono_prefix subsetD)
  then have "remdups_adj (map att_Provider (as @ bs)) = name # remdups_adj (map att_Provider bs)"
    using t by (intro remdups_adj_turn) (auto simp: turn_post_def)
  with n have "prefix (remdups_adj (map att_Provider (as @ bs))) (name # rest)" by simp
  with t c show ?thesis
    by (auto simp: turn_post_def chain_post_def butlast_append split: sum.splits)
qed

lemma chainLoop_post:
  assumes "distinct order" "\<forall>name \<in> set order. r_byName r name \<noteq> None"
  shows "\<exists>as. chain_post E r order (fst (chainLoop E r order s)) s (snd (chainLoop E r order s)) as"
  using assms
proof (induction order arbitrary: s)
  case Nil
  then show ?case by (intro exI [of _ "[]"]) (simp add: chain_post_def)
next
  case (Cons name rest)
  obtain p where p: "r_byName r name = Some p" using Cons.prems by auto
  obtain out s1 where t: "tryProvider E (r_opts r) (r_name r) name p (int (length rest)) s = (out, s1)"
    by fastforce
  then obtain as where as: "turn_post E (r_opts r) (r_name r) name out s s1 as"
    using tryProvider_post [of E "r_opts r" "r_name r" name p "int (length rest)" s] by auto
  show ?case
  proof (cases out)
    case (Return res)
    with as p t show ?thesis by (auto intro: chain_post_return)
  next
    case NextProvider
    obtain bs where "chain_post E r rest (fst (chainLoop E r rest s1)) s1 (snd (chainLoop E r rest s1)) bs"
      using Cons by fastforce
    with as p t NextProvider Cons.prems show ?thesis by (auto intro: chain_post_next)
  qed
qed

text \<open>A router built by \<open>router_New\<close> knows every name of its chain, each once.\<close>

definition router_wf :: "'p router \<Rightarrow> bool" where
  "router_wf r \<longleftrightarrow> distinct (r_names r) \<and> (\<forall>n. n \<in> set (r_names r) \<longleftrightarrow> r_byName r n \<noteq> None)
     \<and> 0 < MaxAttempts (r_opts r)"

lemma addProviders_wf:
  "router_wf r \<Longrightarrow> addProviders name chain r = Inr r' \<Longrightarrow>
     router_wf r' \<and> r_names r' = r_names r @ map fst chain \<and> r_sel r' = r_sel r \<and> r_opts r' = r_opts r"
proof (induction name chain r rule: addProviders.induct)
  case (2 name pn p chain r)
  then have "router_wf (r\<lparr>r_names := r_names r @ [pn], r_byName := (r_byName r)(pn \<mapsto> p)\<rparr>)"
    by (auto simp: router_wf_def split: if_splits)
  with 2 show ?case by (auto split: if_splits)
qed simp

lemma router_New_wf:
  assumes "router_New name chain h sel opts = Inr r"
  shows "router_wf r \<and> r_names r = map fst chain \<and> r_opts r = withDefaults opts \<and> Some (r_sel r) = sel"
proof -
  obtain sl where sl: "sel = Some sl" and "addProviders name chain \<lparr>r_name = name, r_names = [],
      r_byName = Map.empty, r_sel = sl, r_opts = withDefaults opts\<rparr> = Inr r"
    using assms by (auto simp: router_New_def split: if_splits option.splits)
  with addProviders_wf [OF _ this(2)] show ?thesis by (force simp: router_wf_def)
qed

text \<open>The counter of the round robin selector of a router stays clear of its wrap-around.\<close>

definition calls_ok :: "'p router \<Rightarrow> bool" where
  "calls_ok r \<longleftrightarrow> (case r_sel r of roundRobinSelector calls \<Rightarrow> calls + length (r_names r) \<le> 2 ^ 64 | _ \<Rightarrow> True)"

lemma Order_ok:
  assumes "distinct (r_names r)" "calls_ok r" "Order (r_sel r) (r_names r) (Some h) clk now = (order, h', sel')"
  shows "distinct order \<and> set order = {p \<in> set (r_names r). fst (Available h clk p now)}"
  using Order_exact [OF assms(1), of "r_sel r" h clk now] assms(2,3)
  by (simp add: calls_ok_def split: selector.splits)

lemma runChain_post:
  assumes "router_wf r" "calls_ok r" "runChain E r w h = (res, s, r')"
  shows "\<exists>order s0. (order = [] \<longrightarrow> res = Inl (noHealthyProvider (r_name r)) \<and> cs_attempts s = []) \<and>
     (order \<noteq> [] \<longrightarrow> chain_post E r order res s0 s (cs_attempts s)) \<and> cs_used s0 = 0 \<and>
     cs_attempts s0 = [] \<and> cs_lastErr s0 = None \<and> distinct order \<and>
     set order = {p \<in> set (r_names r). fst (Available h (up_now E w) p (up_now E w))}"
proof -
  obtain order h' sel' where o: "Order (r_sel r) (r_names r) (Some h) (up_now E w) (up_now E w) = (order, h', sel')"
    by (metis prod_cases3)
  have d: "distinct order" "set order = {p \<in> set (r_names r). fst (Available h (up_now E w) p (up_now E w))}"
    using Order_ok [OF _ assms(2) o] assms(1) by (auto simp: router_wf_def)
  define s0 where "s0 = \<lparr>cs_used = 0, cs_lastErr = None, cs_attempts = [], cs_world = w,
                 cs_health = (case h' of Some t \<Rightarrow> t | None \<Rightarrow> h)\<rparr>"
  have "\<forall>name \<in> set order. r_byName r name \<noteq> None" using d(2) assms(1) by (auto simp: router_wf_def)
  from chainLoop_post [OF d(1) this, of E s0]
  obtain as where c: "chain_post E r order (fst (chainLoop E r order s0)) s0 (snd (chainLoop E r order s0)) as" ..
  have as: "cs_attempts (snd (chainLoop E r order s0)) = as" using c by (simp add: chain_post_def s0_def)
  have run: "runChain E r w h = (if order = [] then (Inl (noHealthyProvider (r_name r)), s0, r\<lparr>r_sel := sel'\<rparr>)
      else (fst (chainLoop E r order s0), snd (chainLoop E r order s0), r\<lparr>r_sel := sel'\<rparr>))"
    by (simp add: runChain_def Let_def o s0_def [symmetric] case_prod_beta)
  have "order = [] \<longrightarrow> res = Inl (noHealthyProvider (r_name r)) \<and> cs_attempts s = []"
    using run assms(3) by (auto simp: s0_def)
  moreover have "order \<noteq> [] \<longrightarrow> chain_post E r order res s0 s (cs_attempts s)"
    using run assms(3) c as by auto
  moreover have "cs_used s0 = 0 \<and> cs_attempts s0 = [] \<and> cs_lastErr s0 = None" by (simp add: s0_def)
  ultimately show ?thesis using d by blast
qed

section \<open>Reaching a healthy peer\<close>

text \<open>A provider that answers every call, and one whose failures never end the request.\<close>

definition answers :: "('w, 'p, 'r) upstream \<Rightarrow> 'p \<Rightarrow> bool" where
  "answers E p \<longleftrightarrow> (\<forall>w h. \<exists>v w' h'. up_call E p w h = (Inr v, w', h'))"

definition fails_softly :: "('w, 'p, 'r) upstream \<Rightarrow> 'p \<Rightarrow> bool" where
  "fails_softly E p \<longleftrightarrow> (\<forall>w h e w' h'. up_call E p w h = (Inl e, w', h') \<longrightarrow>
     classDisposition (classOf e) \<noteq> dispositionFail)"

definition context_live :: "('w, 'p, 'r) upstream \<Rightarrow> bool" where
  "context_live E \<longleftrightarrow> (\<forall>w. up_ctxErr E w = None)"

text \<open>The reservation: a turn that starts with one attempt for itself and one for each provider
  behind it leaves one for each provider behind it.\<close>

lemma tryProvider_reserve:
  assumes "context_live E" "fails_softly E p" "0 \<le> reserved"
    and "cs_used s + 1 + reserved \<le> MaxAttempts opts"
  shows "case tryProvider E opts rname name p reserved s of
      (Return res, s') \<Rightarrow> (\<exists>v. res = Inr v)
    | (NextProvider, s') \<Rightarrow> cs_used s' + reserved \<le> MaxAttempts opts"
  using assms(4)
proof (induction "nat (MaxAttempts opts - cs_used s)" arbitrary: s rule: less_induct)
  case less
  have lt: "cs_used s < MaxAttempts opts" using less.prems assms(3) by linarith
  have ctx: "up_ctxErr E (cs_world s) = None" using assms(1) by (simp add: context_live_def)
  obtain res w h where call: "up_call E p (cs_world s) (cs_health s) = (res, w, h)" by (metis prod_cases3)
  show ?case
  proof (cases res)
    case (Inr v)
    with lt ctx call show ?thesis by (subst tryProvider.simps) simp
  next
    case (Inl e)
    let ?s' = "recordCallFailure E name e (up_now E (cs_world s)) w h s"
    let ?s2 = "?s'\<lparr>cs_world := up_wait E (backoff_delay opts (cs_used ?s')) w\<rparr>"
    note round = tryProvider_round [OF lt ctx call [unfolded Inl]]
    have soft: "classDisposition (classOf e) \<noteq> dispositionFail"
      using assms(2) call Inl unfolding fails_softly_def by blast
    show ?thesis
    proof (cases "classDisposition (classOf e) = dispositionRetry \<and> cs_used ?s' + reserved < MaxAttempts opts")
      case True
      have "tryProvider E opts rname name p reserved s = tryProvider E opts rname name p reserved ?s2"
        by (subst round) (rule if_P [OF True])
      moreover have "nat (MaxAttempts opts - cs_used ?s2) < nat (MaxAttempts opts - cs_used s)"
        using lt by simp
      moreover have "cs_used ?s2 + 1 + reserved \<le> MaxAttempts opts" using True by simp
      ultimately show ?thesis using less.hyps by metis
    next
      case False
      have "tryProvider E opts rname name p reserved s = (NextProvider, ?s')"
        by (subst round) (simp only: if_not_P [OF False] if_not_P [OF soft])
      with less.prems show ?thesis by simp
    qed
  qed
qed

lemma tryProvider_answers:
  assumes "context_live E" "answers E p" "cs_used s < MaxAttempts opts"
  shows "\<exists>v s'. tryProvider E opts rname name p reserved s = (Return (Inr v), s')"
proof -
  obtain v w h where "up_call E p (cs_world s) (cs_health s) = (Inr v, w, h)"
    using assms(2) by (metis answers_def)
  with assms show ?thesis by (subst tryProvider.simps) (simp add: context_live_def)
qed

lemma chainLoop_reaches:
  assumes "context_live E" "\<forall>name \<in> set order. \<exists>p. r_byName r name = Some p \<and> fails_softly E p"
    and "good \<in> set order" "\<forall>p. r_byName r good = Some p \<longrightarrow> answers E p"
    and "cs_used s + int (length order) \<le> MaxAttempts (r_opts r)"
  shows "\<exists>v. fst (chainLoop E r order s) = Inr v"
  using assms(2,3,5)
proof (induction order arbitrary: s)
  case (Cons name rest)
  obtain p where p: "r_byName r name = Some p" "fails_softly E p" using Cons.prems by auto
  obtain out s1 where t: "tryProvider E (r_opts r) (r_name r) name p (int (length rest)) s = (out, s1)"
    by fastforce
  have res: "case (out, s1) of (Return res, s') \<Rightarrow> (\<exists>v. res = Inr v)
      | (NextProvider, s') \<Rightarrow> cs_used s' + int (length rest) \<le> MaxAttempts (r_opts r)"
    using tryProvider_reserve [OF assms(1) p(2), of "int (length rest)" s "r_opts r" "r_name r" name] Cons.prems t
    by simp
  show ?case
  proof (cases out)
    case (Return r0)
    with res p t show ?thesis by auto
  next
    case NextProvider
    have "name \<noteq> good"
    proof
      assume "name = good"
      with assms(4) p have "answers E p" by simp
      moreover have "cs_used s < MaxAttempts (r_opts r)" using Cons.prems(3) by simp
      ultimately obtain v s' where "tryProvider E (r_opts r) (r_name r) name p (int (length rest)) s
          = (Return (Inr v), s')"
        using tryProvider_answers [OF assms(1)] by blast
      with t NextProvider show False by simp
    qed
    with Cons res p t NextProvider show ?thesis by auto
  qed
qed simp

section \<open>Properties\<close>




text \<open>A backoff is always positive and never longer than the configured cap, also where the
  64 bit shift overflows.\<close>

theorem backoff_is_bounded:
  "0 < backoff_delay (withDefaults opts) attempt
     \<and> backoff_delay (withDefaults opts) attempt \<le> MaxRetryDelay (withDefaults opts)"
  by (simp add: backoff_delay_def Let_def not_less)

text \<open>Ordering a chain claims the probe of every recovering provider in it, also of those whose
  turn never comes: when the first provider of a two provider route answers, the second one, whose open
  breaker was ready for its probe, is never called and is refused to every request for the whole stall
  timeout.\<close>

theorem uncalled_probe_is_wasted:
  assumes r: "r_sel r = prioritySelector" "r_names r = [a, b]" "a \<noteq> b" "r_byName r a = Some pa"
      "0 < MaxAttempts (r_opts r)"
    and E: "context_live E" "answers E pa"
      "\<forall>w h v w' h'. up_call E pa w h = (Inr v, w', h') \<longrightarrow> t_state h' b = t_state h b"
    and b: "t_state h b = Some sb" "breaker sb \<noteq> breakerClosed"
      "fst (Available h (up_now E w) a (up_now E w))" "fst (Available h (up_now E w) b (up_now E w))"
    and now: "0 < up_now E w" "up_now E w \<le> now'" "now' < up_now E w + probeStallTimeout"
    and run: "runChain E r w h = (res, s, r')"
  shows "map att_Provider (cs_attempts s) = [a] \<and> fst (Available (cs_health s) clk b now') = False"
proof -
  let ?n = "up_now E w"
  obtain t1 where t1: "Available h ?n a ?n = (True, t1)" using b(3) by (metis prod.collapse)
  have "fst (Available t1 ?n b ?n)" and st: "t_state t1 b = Some sb"
    using ht.other_provider [of b a h ?n ?n ?n] Available_other [of b a h ?n ?n] r(3) b t1 by auto
  then obtain t2 where t2: "Available t1 ?n b ?n = (True, t2)" by (metis prod.collapse)
  then have cl: "claimed t2 b ?n" using st b(2) now(1) by (rule probe_claimed)
  have "Order prioritySelector [a, b] (Some h) ?n ?n = ([a, b], Some t2, prioritySelector)"
    by (simp add: Order_def t1 t2)
  moreover obtain v w' h' where call: "up_call E pa w t2 = (Inr v, w', h')"
    using E(2) by (metis answers_def)
  moreover have "up_ctxErr E w = None" using E(1) by (simp add: context_live_def)
  ultimately have "map att_Provider (cs_attempts s) = [a] \<and> cs_health s = h'"
    using run r by (auto simp: runChain_def Let_def tryProvider.simps)
  moreover have "claimed h' b ?n" using cl E(3) call by (auto simp: claimed_def)
  ultimately show ?thesis using claimed_unavailable [OF _ now] by simp
qed

section \<open>Witnesses\<close>

text \<open>A route over a provider that is always down and one that answers, with a clock that stands at
  40 seconds.\<close>

definition demo_up :: "(nat, string, string) upstream" where
  "demo_up = \<lparr>up_call = (\<lambda>p w h. if p = ''sick''
       then (Inl (ProviderError p ErrClassUpstream 503 ''down'' None), w + 1, h) else (Inr ''answer'', w + 1, h)),
     up_ctxErr = (\<lambda>w. None), up_now = (\<lambda>w. 40000000000), up_wait = (\<lambda>d w. w)\<rparr>"

definition demo_router :: "string list \<Rightarrow> string router" where
  "demo_router names = \<lparr>r_name = ''auto'', r_names = names,
     r_byName = (\<lambda>n. if n \<in> set names then Some n else None),
     r_sel = prioritySelector, r_opts = withDefaults demo_opts\<rparr>"

lemma demo_router_wf: "distinct names \<Longrightarrow> router_wf (demo_router names)" "calls_ok (demo_router names)"
  by (simp_all add: demo_router_def router_wf_def calls_ok_def)

lemma demo_up_facts: "context_live demo_up" "answers demo_up ''good''" "fails_softly demo_up p"
  by (auto simp: context_live_def answers_def fails_softly_def demo_up_def classOf_def classDisposition_def
      split: if_splits)

lemma fresh_available: "fst (Available (NewHealth opts) clk p now)"
  by (simp add: NewHealth_def Available_def)




lemma demo_failures_probe_ready: "fst (Available demo_failures 40000000000 ''groq'' 40000000000)"
  using demo_failures_probe by (simp add: Available_def tracker_at_def)

lemma uncalled_probe_is_wasted_witness:
  "fst (Available (cs_health (fst (snd (runChain demo_up (demo_router [''good'', ''groq'']) 0 demo_failures))))
     0 ''groq'' 100000000000) = False"
  by (rule conjunct2 [OF uncalled_probe_is_wasted [where E = demo_up and w = 0 and a = "''good''" and pa = "''good''"
        and h = demo_failures and r = "demo_router [''good'', ''groq'']",
        OF _ _ _ _ _ demo_up_facts(1,2) _ demo_failures_state _ _ _ _ _ _ prod.collapse [symmetric, THEN trans,
          OF arg_cong2 [where f = Pair, OF refl prod.collapse [symmetric]]]]])
    (simp_all add: demo_router_def demo_up_def new_health_def demo_failures_probe_ready probeStallTimeout_def
      time_unit_defs,
     simp add: Available_def demo_failures_def failure_run_def RecordFailure_def Let_def NewHealth_def)

end
