(* ===== verification/Budget_Enforcer.thy ===== *)
theory Budget_Enforcer
  imports Providers Go_Format
begin

text \<open>
  Two phase budget enforcement (\<^verbatim>\<open>src/internal/budget/types.go\<close>, \<^verbatim>\<open>enforcer.go\<close>). Every operation of
  \<^verbatim>\<open>MemEnforcer\<close> that holds its mutex is one step on the record; the durable write of a settlement
  happens under a second lock after the first is released, so it is a step of its own (\<open>persist\<close>),
  which other steps may come before. Amounts are \<^verbatim>\<open>float64\<close> and counters 64 bit, both with their
  rounding and wrap-around. The clock's reading is an argument.
\<close>

section \<open>Data\<close>

type_synonym tenant_id = string

record limits =
  RequestsPerMinute :: goint
  TokensPerMinute :: goint
  DailyUSD :: float64
  MonthlyUSD :: float64
  FailClosed :: bool

record estimate =
  est_PromptTokens :: goint
  est_CompletionTokens :: goint
  est_USD :: float64

record reservation =
  res_Tenant :: tenant_id
  res_Estimate :: estimate
  IssuedAt :: instant
  res_ID :: string

datatype deny_reason = DenyRequestRate | DenyTokenRate | DenyDailyBudget | DenyMonthlyBudget
  | DenyStoreDegraded | DenyUnknownTenant

record denial =
  Reason :: deny_reason
  RetryAfter :: duration
  Message :: string

record spend_row =
  row_Tenant :: tenant_id
  row_DailyUSD :: float64
  row_MonthlyUSD :: float64
  row_DailyStart :: instant
  row_MonthlyStart :: instant

record tenant_state =
  dailySpent :: float64
  dailyStart :: instant
  monthlySpent :: float64
  monthlyStart :: instant
  committed :: float64
  requests :: goint
  requestsAt :: instant
  tokens :: goint
  tokensAt :: instant

text \<open>The enforcer. Absent keys of the \<^verbatim>\<open>seq\<close> and \<^verbatim>\<open>written\<close> maps read as 0. \<open>has_store\<close> tells whether a
  durable store is configured; its contents are separate (\<open>persist\<close>).\<close>

record mem_enforcer =
  e_limits :: "tenant_id \<rightharpoonup> limits"
  e_state :: "tenant_id \<rightharpoonup> tenant_state"
  healthy :: bool
  nextID :: nat
  settled :: "string set"
  has_store :: bool
  seq :: "tenant_id \<Rightarrow> nat"
  written :: "tenant_id \<Rightarrow> nat"

definition dailyWindow :: duration where "dailyWindow = 24 * Hour"
definition monthlyWindow :: duration where "monthlyWindow = 30 * 24 * Hour"
definition rateWindow :: duration where "rateWindow = Minute"

lemmas window_defs = dailyWindow_def monthlyWindow_def rateWindow_def time_unit_defs

section \<open>Construction\<close>

definition NewEnforcer :: "(tenant_id \<rightharpoonup> limits) \<Rightarrow> mem_enforcer" where
  "NewEnforcer lims = \<lparr>e_limits = lims, e_state = Map.empty, healthy = True, nextID = 0,
     settled = {}, has_store = False, seq = (\<lambda>_. 0), written = (\<lambda>_. 0)\<rparr>"

definition restored_state :: "spend_row \<Rightarrow> instant \<Rightarrow> tenant_state" where
  "restored_state row now = \<lparr>dailySpent = row_DailyUSD row, dailyStart = row_DailyStart row,
     monthlySpent = row_MonthlyUSD row, monthlyStart = row_MonthlyStart row, committed = 0,
     requests = 0, requestsAt = now, tokens = 0, tokensAt = now\<rparr>"

definition restore_row :: "instant \<Rightarrow> spend_row \<Rightarrow> mem_enforcer \<Rightarrow> mem_enforcer" where
  "restore_row now row e =
     (if e_limits e (row_Tenant row) = None then e
      else e\<lparr>e_state := (e_state e)(row_Tenant row \<mapsto> restored_state row now)\<rparr>)"

text \<open>\<^verbatim>\<open>NewDurableEnforcer\<close> with a store that may be nil and, when present, may fail to load.\<close>

definition NewDurableEnforcer ::
  "(tenant_id \<rightharpoonup> limits) \<Rightarrow> instant \<Rightarrow> (err + spend_row list) option \<Rightarrow> err + mem_enforcer" where
  "NewDurableEnforcer lims now loaded = (let e = NewEnforcer lims in
     case loaded of
       None \<Rightarrow> Inr e
     | Some (Inl x) \<Rightarrow> Inl (WrapErr ''restore budget store: '' x)
     | Some (Inr rows) \<Rightarrow> Inr (fold (restore_row now) rows (e\<lparr>has_store := True\<rparr>)))"

definition SetStoreHealthy :: "mem_enforcer \<Rightarrow> bool \<Rightarrow> mem_enforcer" where
  "SetStoreHealthy e b = e\<lparr>healthy := b\<rparr>"

section \<open>Windows\<close>

definition fresh_state :: "instant \<Rightarrow> tenant_state" where
  "fresh_state now = \<lparr>dailySpent = 0, dailyStart = now, monthlySpent = 0, monthlyStart = now,
     committed = 0, requests = 0, requestsAt = now, tokens = 0, tokensAt = now\<rparr>"

definition rollDaily :: "instant \<Rightarrow> tenant_state \<Rightarrow> tenant_state" where
  "rollDaily now st = (if dailyWindow \<le> time_Sub now (dailyStart st)
     then st\<lparr>dailySpent := 0, dailyStart := now\<rparr> else st)"

definition rollMonthly :: "instant \<Rightarrow> tenant_state \<Rightarrow> tenant_state" where
  "rollMonthly now st = (if monthlyWindow \<le> time_Sub now (monthlyStart st)
     then st\<lparr>monthlySpent := 0, monthlyStart := now\<rparr> else st)"

definition rollRequests :: "instant \<Rightarrow> tenant_state \<Rightarrow> tenant_state" where
  "rollRequests now st = (if rateWindow \<le> time_Sub now (requestsAt st)
     then st\<lparr>requests := 0, requestsAt := now\<rparr> else st)"

definition rollTokens :: "instant \<Rightarrow> tenant_state \<Rightarrow> tenant_state" where
  "rollTokens now st = (if rateWindow \<le> time_Sub now (tokensAt st)
     then st\<lparr>tokens := 0, tokensAt := now\<rparr> else st)"

text \<open>\<^verbatim>\<open>stateFor\<close>: the tenant's counters at an instant; \<open>touch\<close> stores them, as the pointer does.\<close>

definition stateFor :: "mem_enforcer \<Rightarrow> tenant_id \<Rightarrow> instant \<Rightarrow> tenant_state" where
  "stateFor e t now = (case e_state e t of
       None \<Rightarrow> fresh_state now
     | Some st \<Rightarrow> rollTokens now (rollRequests now (rollMonthly now (rollDaily now st))))"

definition store_state :: "mem_enforcer \<Rightarrow> tenant_id \<Rightarrow> tenant_state \<Rightarrow> mem_enforcer" where
  "store_state e t st = e\<lparr>e_state := (e_state e)(t \<mapsto> st)\<rparr>"

definition touch :: "mem_enforcer \<Rightarrow> tenant_id \<Rightarrow> instant \<Rightarrow> mem_enforcer" where
  "touch e t now = store_state e t (stateFor e t now)"

definition Spent :: "mem_enforcer \<Rightarrow> tenant_id \<Rightarrow> instant \<Rightarrow> (float64 \<times> float64) \<times> mem_enforcer" where
  "Spent e t now = (let st = stateFor e t now in ((dailySpent st, monthlySpent st), touch e t now))"

definition Committed :: "mem_enforcer \<Rightarrow> tenant_id \<Rightarrow> instant \<Rightarrow> float64 \<times> mem_enforcer" where
  "Committed e t now = (committed (stateFor e t now), touch e t now)"

section \<open>Admission\<close>

definition remainingIn :: "instant \<Rightarrow> instant \<Rightarrow> duration" where
  "remainingIn start now = (let left = isub rateWindow (time_Sub now start)
     in if left \<le> 0 then Second else left)"

definition formatUSD :: "float64 \<Rightarrow> string" where
  "formatUSD v = (if 0 < v \<and> v < rnd64 (1 / 100) then FormatFloat_g v else FormatFloat_f 2 v)"

definition wanted_tokens :: "estimate \<Rightarrow> goint" where
  "wanted_tokens est = iadd (est_PromptTokens est) (est_CompletionTokens est)"

definition checkRates :: "tenant_state \<Rightarrow> limits \<Rightarrow> estimate \<Rightarrow> instant \<Rightarrow> denial option" where
  "checkRates st lims est now =
     (if 0 < RequestsPerMinute lims \<and> RequestsPerMinute lims \<le> requests st
      then Some \<lparr>Reason = DenyRequestRate, RetryAfter = remainingIn (requestsAt st) now,
             Message = ''tenant is limited to '' @ Itoa (RequestsPerMinute lims) @ '' requests per minute''\<rparr>
      else if 0 < TokensPerMinute lims \<and> TokensPerMinute lims < iadd (tokens st) (wanted_tokens est)
      then Some \<lparr>Reason = DenyTokenRate, RetryAfter = remainingIn (tokensAt st) now,
             Message = ''tenant is limited to '' @ Itoa (TokensPerMinute lims) @ '' tokens per minute''\<rparr>
      else None)"

definition checkBudgets :: "tenant_state \<Rightarrow> limits \<Rightarrow> estimate \<Rightarrow> denial option" where
  "checkBudgets st lims est =
     (if 0 < DailyUSD lims \<and> DailyUSD lims < fadd (fadd (dailySpent st) (committed st)) (est_USD est)
      then Some \<lparr>Reason = DenyDailyBudget, RetryAfter = 0,
             Message = ''this request would exceed the daily budget of '' @ formatUSD (DailyUSD lims) @ '' USD''\<rparr>
      else if 0 < MonthlyUSD lims \<and> MonthlyUSD lims < fadd (fadd (monthlySpent st) (committed st)) (est_USD est)
      then Some \<lparr>Reason = DenyMonthlyBudget, RetryAfter = 0,
             Message = ''this request would exceed the monthly budget of '' @ formatUSD (MonthlyUSD lims) @ '' USD''\<rparr>
      else None)"

definition claim :: "tenant_state \<Rightarrow> estimate \<Rightarrow> tenant_state" where
  "claim st est = st\<lparr>committed := fadd (committed st) (est_USD est), requests := iadd (requests st) 1,
     tokens := iadd (tokens st) (wanted_tokens est)\<rparr>"

definition Reserve ::
  "mem_enforcer \<Rightarrow> instant \<Rightarrow> tenant_id \<Rightarrow> estimate \<Rightarrow> (denial + reservation) \<times> mem_enforcer" where
  "Reserve e now tenant est = (case e_limits e tenant of
       None \<Rightarrow> (Inl \<lparr>Reason = DenyUnknownTenant, RetryAfter = 0,
                    Message = ''tenant '' @ Quote tenant @ '' is not configured''\<rparr>, e)
     | Some lims \<Rightarrow>
         (if \<not> healthy e \<and> FailClosed lims
          then (Inl \<lparr>Reason = DenyStoreDegraded, RetryAfter = 0, Message =
                  ''budget accounting is unavailable and this tenant is configured to fail closed''\<rparr>, e)
          else let st = stateFor e tenant now; e1 = touch e tenant now in
            case checkRates st lims est now of
              Some d \<Rightarrow> (Inl d, e1)
            | None \<Rightarrow>
                (case checkBudgets st lims est of
                   Some d \<Rightarrow> (Inl d, e1)
                 | None \<Rightarrow>
                     (let i = wrap_u64 (nextID e1 + 1) in
                      (Inr \<lparr>res_Tenant = tenant, res_Estimate = est, IssuedAt = now, res_ID = FormatUint i\<rparr>,
                       (store_state e1 tenant (claim st est))\<lparr>nextID := i\<rparr>)))))"

section \<open>Settlement\<close>

definition unclaim :: "tenant_state \<Rightarrow> estimate \<Rightarrow> tenant_state" where
  "unclaim st est = (let c = fsub (committed st) (est_USD est)
     in st\<lparr>committed := (if c < 0 then 0 else c)\<rparr>)"

definition reconcileTokens :: "tenant_state \<Rightarrow> estimate \<Rightarrow> usage \<Rightarrow> tenant_state" where
  "reconcileTokens st est actual = (let delta = isub (TotalTokens actual) (wanted_tokens est) in
     if delta = 0 then st
     else let n = iadd (tokens st) delta in st\<lparr>tokens := (if n < 0 then 0 else n)\<rparr>)"

definition bill :: "tenant_state \<Rightarrow> estimate \<Rightarrow> usage \<Rightarrow> float64 \<Rightarrow> tenant_state" where
  "bill st est actual usd = (let st1 = unclaim st est in
     reconcileTokens (st1\<lparr>dailySpent := fadd (dailySpent st1) usd,
                          monthlySpent := fadd (monthlySpent st1) usd\<rparr>) est actual)"

definition snapshot :: "tenant_id \<Rightarrow> tenant_state \<Rightarrow> spend_row" where
  "snapshot t st = \<lparr>row_Tenant = t, row_DailyUSD = dailySpent st, row_MonthlyUSD = monthlySpent st,
     row_DailyStart = dailyStart st, row_MonthlyStart = monthlyStart st\<rparr>"

text \<open>The part of \<^verbatim>\<open>Settle\<close> under the mutex. The result is an error, a return without a durable write
  (\<open>Inr None\<close>), or the snapshot and its sequence number that \<^verbatim>\<open>persist\<close> is to write.\<close>

definition Settle_locked ::
  "mem_enforcer \<Rightarrow> instant \<Rightarrow> reservation option \<Rightarrow> usage \<Rightarrow> float64
     \<Rightarrow> (err + (spend_row \<times> nat) option) \<times> mem_enforcer" where
  "Settle_locked e now r actual usd = (case r of
       None \<Rightarrow> (Inl (OtherErr ''settle: nil reservation''), e)
     | Some r \<Rightarrow>
         (if res_ID r \<in> settled e then (Inr None, e)
          else let t = res_Tenant r;
                   st = bill (stateFor e t now) (res_Estimate r) actual usd;
                   e1 = store_state (e\<lparr>settled := insert (res_ID r) (settled e)\<rparr>) t st
               in if \<not> has_store e then (Inr None, e1)
                  else let n = wrap_u64 (seq e t + 1) in
                    (Inr (Some (snapshot t st, n)), e1\<lparr>seq := (seq e)(t := n)\<rparr>)))"

text \<open>\<^verbatim>\<open>persist\<close> over the store's \<^verbatim>\<open>Save\<close>, which returns its error and the store it leaves behind.\<close>

definition persist ::
  "('s \<Rightarrow> spend_row \<Rightarrow> err option \<times> 's) \<Rightarrow> mem_enforcer \<Rightarrow> 's \<Rightarrow> spend_row \<Rightarrow> nat
     \<Rightarrow> err option \<times> mem_enforcer \<times> 's" where
  "persist save e db row n =
     (if n \<le> written e (row_Tenant row) then (None, e, db)
      else case save db row of
        (Some x, db') \<Rightarrow>
          (Some (WrapErr (''persist tenant '' @ Quote (row_Tenant row) @ '': '') x), SetStoreHealthy e False, db')
      | (None, db') \<Rightarrow>
          (None, SetStoreHealthy (e\<lparr>written := (written e)(row_Tenant row := n)\<rparr>) True, db'))"

text \<open>The whole of \<^verbatim>\<open>Settle\<close> when no other step comes between its two halves.\<close>

definition Settle ::
  "('s \<Rightarrow> spend_row \<Rightarrow> err option \<times> 's) \<Rightarrow> mem_enforcer \<Rightarrow> 's \<Rightarrow> instant \<Rightarrow> reservation option \<Rightarrow> usage
     \<Rightarrow> float64 \<Rightarrow> err option \<times> mem_enforcer \<times> 's" where
  "Settle save e db now r actual usd = (case Settle_locked e now r actual usd of
       (Inl x, e') \<Rightarrow> (Some x, e', db)
     | (Inr None, e') \<Rightarrow> (None, e', db)
     | (Inr (Some (row, n)), e') \<Rightarrow> persist save e' db row n)"

definition Release :: "mem_enforcer \<Rightarrow> instant \<Rightarrow> reservation option \<Rightarrow> err option \<times> mem_enforcer" where
  "Release e now r = (case r of
       None \<Rightarrow> (Some (OtherErr ''release: nil reservation''), e)
     | Some r \<Rightarrow>
         (if res_ID r \<in> settled e then (None, e)
          else let t = res_Tenant r
               in (None, store_state (e\<lparr>settled := insert (res_ID r) (settled e)\<rparr>) t
                           (unclaim (stateFor e t now) (res_Estimate r)))))"

section \<open>Frame lemmas\<close>

lemma NewEnforcer_simps [simp]:
  "e_limits (NewEnforcer lims) = lims" "e_state (NewEnforcer lims) = Map.empty" "healthy (NewEnforcer lims)"
  "nextID (NewEnforcer lims) = 0" "settled (NewEnforcer lims) = {}" "\<not> has_store (NewEnforcer lims)"
  "seq (NewEnforcer lims) t = 0" "written (NewEnforcer lims) t = 0"
  by (simp_all add: NewEnforcer_def)

lemma store_state_simps [simp]:
  "e_state (store_state e t st) = (e_state e)(t \<mapsto> st)" "e_limits (store_state e t st) = e_limits e"
  "nextID (store_state e t st) = nextID e" "settled (store_state e t st) = settled e"
  "healthy (store_state e t st) = healthy e" "has_store (store_state e t st) = has_store e"
  "seq (store_state e t st) = seq e" "written (store_state e t st) = written e"
  by (simp_all add: store_state_def)

lemma touch_simps [simp]:
  "e_state (touch e t now) = (e_state e)(t \<mapsto> stateFor e t now)" "e_limits (touch e t now) = e_limits e"
  "nextID (touch e t now) = nextID e" "settled (touch e t now) = settled e"
  "healthy (touch e t now) = healthy e" "has_store (touch e t now) = has_store e"
  "seq (touch e t now) = seq e" "written (touch e t now) = written e"
  by (simp_all add: touch_def)

lemma roll_frames [simp]:
  "monthlySpent (rollDaily now st) = monthlySpent st" "monthlyStart (rollDaily now st) = monthlyStart st"
  "committed (rollDaily now st) = committed st"
  "requests (rollDaily now st) = requests st" "requestsAt (rollDaily now st) = requestsAt st"
  "tokens (rollDaily now st) = tokens st" "tokensAt (rollDaily now st) = tokensAt st"
  "dailySpent (rollMonthly now st) = dailySpent st" "dailyStart (rollMonthly now st) = dailyStart st"
  "committed (rollMonthly now st) = committed st"
  "requests (rollMonthly now st) = requests st" "requestsAt (rollMonthly now st) = requestsAt st"
  "tokens (rollMonthly now st) = tokens st" "tokensAt (rollMonthly now st) = tokensAt st"
  "dailySpent (rollRequests now st) = dailySpent st" "dailyStart (rollRequests now st) = dailyStart st"
  "monthlySpent (rollRequests now st) = monthlySpent st" "monthlyStart (rollRequests now st) = monthlyStart st"
  "committed (rollRequests now st) = committed st"
  "tokens (rollRequests now st) = tokens st" "tokensAt (rollRequests now st) = tokensAt st"
  "dailySpent (rollTokens now st) = dailySpent st" "dailyStart (rollTokens now st) = dailyStart st"
  "monthlySpent (rollTokens now st) = monthlySpent st" "monthlyStart (rollTokens now st) = monthlyStart st"
  "committed (rollTokens now st) = committed st"
  "requests (rollTokens now st) = requests st" "requestsAt (rollTokens now st) = requestsAt st"
  by (simp_all add: rollDaily_def rollMonthly_def rollRequests_def rollTokens_def)

lemma claim_frames [simp]:
  "dailySpent (claim st est) = dailySpent st" "monthlySpent (claim st est) = monthlySpent st"
  "committed (claim st est) = fadd (committed st) (est_USD est)"
  "requests (claim st est) = iadd (requests st) 1" "requestsAt (claim st est) = requestsAt st"
  "dailyStart (claim st est) = dailyStart st" "monthlyStart (claim st est) = monthlyStart st"
  by (simp_all add: claim_def)

lemma unclaim_frames [simp]:
  "dailySpent (unclaim st est) = dailySpent st" "monthlySpent (unclaim st est) = monthlySpent st"
  "committed (unclaim st est) = max 0 (fsub (committed st) (est_USD est))"
  "requests (unclaim st est) = requests st" "requestsAt (unclaim st est) = requestsAt st"
  "dailyStart (unclaim st est) = dailyStart st" "monthlyStart (unclaim st est) = monthlyStart st"
  by (auto simp: unclaim_def Let_def)

lemma reconcileTokens_frames [simp]:
  "dailySpent (reconcileTokens st est u) = dailySpent st" "monthlySpent (reconcileTokens st est u) = monthlySpent st"
  "committed (reconcileTokens st est u) = committed st"
  "requests (reconcileTokens st est u) = requests st" "requestsAt (reconcileTokens st est u) = requestsAt st"
  "dailyStart (reconcileTokens st est u) = dailyStart st" "monthlyStart (reconcileTokens st est u) = monthlyStart st"
  by (auto simp: reconcileTokens_def Let_def)

lemma bill_frames [simp]:
  "dailySpent (bill st est u usd) = fadd (dailySpent st) usd"
  "monthlySpent (bill st est u usd) = fadd (monthlySpent st) usd"
  "committed (bill st est u usd) = max 0 (fsub (committed st) (est_USD est))"
  "requests (bill st est u usd) = requests st" "requestsAt (bill st est u usd) = requestsAt st"
  "dailyStart (bill st est u usd) = dailyStart st" "monthlyStart (bill st est u usd) = monthlyStart st"
  by (simp_all add: bill_def Let_def)

lemma stateFor_committed: "committed (stateFor e t now) = (case e_state e t of None \<Rightarrow> 0 | Some st \<Rightarrow> committed st)"
  by (simp add: stateFor_def fresh_state_def split: option.split)

text \<open>An admission in full: what held before it and what it leaves.\<close>

lemma Reserve_admits:
  assumes "Reserve e now t est = (Inr r, e')"
  shows "\<exists>l. e_limits e t = Some l \<and> (healthy e \<or> \<not> FailClosed l)
      \<and> checkRates (stateFor e t now) l est now = None \<and> checkBudgets (stateFor e t now) l est = None"
    and "r = \<lparr>res_Tenant = t, res_Estimate = est, IssuedAt = now, res_ID = FormatUint (wrap_u64 (nextID e + 1))\<rparr>"
    and "e' = (store_state e t (claim (stateFor e t now) est))\<lparr>nextID := wrap_u64 (nextID e + 1)\<rparr>"
  using assms
  by (auto simp: Reserve_def Let_def touch_def store_state_def split: option.splits if_splits)

lemma Reserve_denies:
  assumes "Reserve e now t est = (Inl d, e')"
  shows "e' = e \<or> e' = touch e t now"
  using assms by (auto simp: Reserve_def Let_def split: option.splits if_splits)

lemma Settle_locked_fresh:
  assumes "res_ID r \<notin> settled e"
  shows "e_state (snd (Settle_locked e now (Some r) u usd)) = (e_state e)(res_Tenant r \<mapsto>
           bill (stateFor e (res_Tenant r) now) (res_Estimate r) u usd)"
    and "e_limits (snd (Settle_locked e now (Some r) u usd)) = e_limits e"
    and "nextID (snd (Settle_locked e now (Some r) u usd)) = nextID e"
    and "settled (snd (Settle_locked e now (Some r) u usd)) = insert (res_ID r) (settled e)"
  using assms by (simp_all add: Settle_locked_def Let_def stateFor_def)

lemma Release_fresh:
  assumes "res_ID r \<notin> settled e"
  shows "e_state (snd (Release e now (Some r))) = (e_state e)(res_Tenant r \<mapsto>
           unclaim (stateFor e (res_Tenant r) now) (res_Estimate r))"
    and "e_limits (snd (Release e now (Some r))) = e_limits e"
    and "nextID (snd (Release e now (Some r))) = nextID e"
    and "settled (snd (Release e now (Some r))) = insert (res_ID r) (settled e)"
  using assms by (simp_all add: Release_def Let_def stateFor_def)

end
