(* ===== verification/Budget_Accounting.thy ===== *)
theory Budget_Accounting
  imports Budget_Enforcer "HOL-Library.Multiset"
begin

text \<open>
  Runs of the enforcer: any interleaving of reservations, settlements, releases, readings and health
  flips by any number of tenants. A book carries the enforcer, the reservations that are held, and what
  the properties speak about: by how much settlements since a tenant's last admission exceeded their
  estimates, and when requests were admitted. The overshoot bound of \<^verbatim>\<open>types.go\<close> is proved once for an
  abstract spend window and used for the daily and the monthly one.
\<close>

section \<open>Runs\<close>

datatype event =
    EvReserve tenant_id estimate instant
  | EvSettle nat usage float64 instant
  | EvRelease nat instant
  | EvQuery tenant_id instant
  | EvHealth bool

record book =
  b_enf :: mem_enforcer
  b_held :: "reservation list"
  b_excess :: "tenant_id \<Rightarrow> rat"
  b_admitted :: "(tenant_id \<times> instant) list"

definition drop_nth :: "nat \<Rightarrow> 'a list \<Rightarrow> 'a list" where
  "drop_nth i xs = take i xs @ drop (Suc i) xs"

definition new_book :: "(tenant_id \<rightharpoonup> limits) \<Rightarrow> book" where
  "new_book lims = \<lparr>b_enf = NewEnforcer lims, b_held = [], b_excess = (\<lambda>_. 0), b_admitted = []\<rparr>"

text \<open>Settlements and releases name a held reservation by its position; the holder gives it up.\<close>

fun exec :: "event \<Rightarrow> book \<Rightarrow> book" where
  "exec (EvReserve t est now) b = (case Reserve (b_enf b) now t est of
       (Inl d, e) \<Rightarrow> b\<lparr>b_enf := e\<rparr>
     | (Inr r, e) \<Rightarrow> b\<lparr>b_enf := e, b_held := r # b_held b, b_excess := (b_excess b)(t := 0),
                        b_admitted := (t, now) # b_admitted b\<rparr>)"
| "exec (EvSettle i u usd now) b =
     (if i < length (b_held b)
      then let r = b_held b ! i; t = res_Tenant r in
        b\<lparr>b_enf := snd (Settle_locked (b_enf b) now (Some r) u usd), b_held := drop_nth i (b_held b),
          b_excess := (b_excess b)(t := b_excess b t + (usd - est_USD (res_Estimate r)))\<rparr>
      else b)"
| "exec (EvRelease i now) b =
     (if i < length (b_held b)
      then b\<lparr>b_enf := snd (Release (b_enf b) now (Some (b_held b ! i))), b_held := drop_nth i (b_held b)\<rparr>
      else b)"
| "exec (EvQuery t now) b = b\<lparr>b_enf := snd (Spent (b_enf b) t now)\<rparr>"
| "exec (EvHealth h) b = b\<lparr>b_enf := SetStoreHealthy (b_enf b) h\<rparr>"

definition run :: "event list \<Rightarrow> book \<Rightarrow> book" where
  "run evs b = fold exec evs b"

lemma run_snoc [simp]: "run (evs @ [ev]) b = exec ev (run evs b)"
  by (simp add: run_def)

lemma run_Nil [simp]: "run [] b = b"
  by (simp add: run_def)

text \<open>Amounts are never negative: estimates and settlements come from a validated price list.\<close>

fun event_ok :: "event \<Rightarrow> bool" where
  "event_ok (EvReserve t est now) \<longleftrightarrow> 0 \<le> est_USD est"
| "event_ok (EvSettle i u usd now) \<longleftrightarrow> 0 \<le> usd"
| "event_ok _ \<longleftrightarrow> True"

definition outstanding :: "tenant_id \<Rightarrow> reservation list \<Rightarrow> rat" where
  "outstanding t rs = sum_list (map (\<lambda>r. est_USD (res_Estimate r)) (filter (\<lambda>r. res_Tenant r = t) rs))"

definition spent_of :: "(tenant_state \<Rightarrow> rat) \<Rightarrow> book \<Rightarrow> tenant_id \<Rightarrow> rat" where
  "spent_of spent b t = (case e_state (b_enf b) t of None \<Rightarrow> 0 | Some st \<Rightarrow> spent st)"

lemma drop_nth_split: "i < length xs \<Longrightarrow> mset xs = add_mset (xs ! i) (mset (drop_nth i xs))"
  by (subst id_take_nth_drop [of i xs]) (simp_all add: drop_nth_def)

lemma drop_nth_set: "set (drop_nth i xs) \<subseteq> set xs"
  by (auto simp: drop_nth_def dest: in_set_takeD in_set_dropD)

lemma outstanding_simps [simp]:
  "outstanding t [] = 0"
  "outstanding t (r # rs) = (if res_Tenant r = t then est_USD (res_Estimate r) else 0) + outstanding t rs"
  by (simp_all add: outstanding_def)

lemma outstanding_append [simp]: "outstanding t (xs @ ys) = outstanding t xs + outstanding t ys"
  by (simp add: outstanding_def)

lemma outstanding_drop_nth:
  "i < length rs \<Longrightarrow> outstanding t (drop_nth i rs) =
     outstanding t rs - (if res_Tenant (rs ! i) = t then est_USD (res_Estimate (rs ! i)) else 0)"
  using id_take_nth_drop [of i rs] outstanding_append [of t "take i rs" "rs ! i # drop (Suc i) rs"]
  by (simp add: drop_nth_def)

section \<open>Identities\<close>

text \<open>As long as the 64 bit counter has not wrapped, held reservations have distinct identities that
  were never settled.\<close>

definition ids_ok :: "nat \<Rightarrow> book \<Rightarrow> bool" where
  "ids_ok n b \<longleftrightarrow> nextID (b_enf b) \<le> n \<and> distinct (map res_ID (b_held b))
     \<and> (\<forall>r \<in> set (b_held b). res_ID r \<notin> settled (b_enf b))
     \<and> res_ID ` set (b_held b) \<union> settled (b_enf b) \<subseteq> FormatUint ` {1..nextID (b_enf b)}"

lemma drop_nth_ids:
  assumes "distinct (map res_ID rs)" "i < length rs"
  shows "distinct (map res_ID (drop_nth i rs))" "res_ID (rs ! i) \<notin> res_ID ` set (drop_nth i rs)"
proof -
  have "map res_ID rs = map res_ID (take i rs) @ res_ID (rs ! i) # map res_ID (drop (Suc i) rs)"
    using id_take_nth_drop [OF assms(2)] by (metis list.simps(9) map_append)
  with assms(1) have "distinct (map res_ID (take i rs) @ res_ID (rs ! i) # map res_ID (drop (Suc i) rs))" by simp
  then show "distinct (map res_ID (drop_nth i rs))" "res_ID (rs ! i) \<notin> res_ID ` set (drop_nth i rs)"
    by (auto simp: drop_nth_def)
qed

lemma ids_ok_drop:
  assumes "ids_ok n b" "i < length (b_held b)" "nextID e = nextID (b_enf b)"
    and "settled e = insert (res_ID (b_held b ! i)) (settled (b_enf b))"
  shows "ids_ok n (b\<lparr>b_enf := e, b_held := drop_nth i (b_held b)\<rparr>)"
  using assms drop_nth_ids [of "b_held b" i] drop_nth_set [of i "b_held b"]
  by (auto simp: ids_ok_def dest: nth_mem) (metis image_eqI, meson image_subset_iff subsetD)

lemma ids_ok_frame:
  "ids_ok n b \<Longrightarrow> nextID e = nextID (b_enf b) \<Longrightarrow> settled e = settled (b_enf b) \<Longrightarrow> ids_ok n (b\<lparr>b_enf := e\<rparr>)"
  by (simp add: ids_ok_def)

lemma ids_ok_excess [simp]: "ids_ok n (b\<lparr>b_excess := x\<rparr>) = ids_ok n b" "ids_ok n (b\<lparr>b_admitted := y\<rparr>) = ids_ok n b"
  by (simp_all add: ids_ok_def)

lemma ids_ok_Suc: "ids_ok n b \<Longrightarrow> ids_ok (Suc n) b"
  by (auto simp: ids_ok_def)

lemma ids_ok_exec:
  assumes "ids_ok n b" "Suc n < 2 ^ 64"
  shows "ids_ok (Suc n) (exec ev b)"
proof (cases ev)
  case (EvReserve t est now)
  obtain res e where r: "Reserve (b_enf b) now t est = (res, e)" by fastforce
  show ?thesis
  proof (cases res)
    case (Inl d)
    with r Reserve_denies [of "b_enf b" now t est d e] assms(1) have "ids_ok n (b\<lparr>b_enf := e\<rparr>)"
      by (auto intro: ids_ok_frame)
    with EvReserve r Inl show ?thesis by (simp add: ids_ok_Suc)
  next
    case (Inr rv)
    let ?k = "nextID (b_enf b) + 1"
    have k: "wrap_u64 ?k = ?k" using assms by (intro wrap_u64_id) (auto simp: ids_ok_def)
    note f = Reserve_admits(2,3) [OF r [unfolded Inr], unfolded k]
    have "FormatUint ?k \<notin> FormatUint ` {1..nextID (b_enf b)}" by auto
    with assms(1) EvReserve r Inr show ?thesis
      by (auto simp: ids_ok_def f image_iff)
  qed
next
  case (EvSettle i u usd now)
  show ?thesis
  proof (cases "i < length (b_held b)")
    case True
    then have "res_ID (b_held b ! i) \<notin> settled (b_enf b)" using assms(1) by (auto simp: ids_ok_def)
    from ids_ok_drop [OF assms(1) True Settle_locked_fresh(3,4) [OF this]]
    show ?thesis using EvSettle True by (auto simp: Let_def intro: ids_ok_Suc)
  qed (use assms EvSettle in \<open>auto intro: ids_ok_Suc\<close>)
next
  case (EvRelease i now)
  show ?thesis
  proof (cases "i < length (b_held b)")
    case True
    then have "res_ID (b_held b ! i) \<notin> settled (b_enf b)" using assms(1) by (auto simp: ids_ok_def)
    from ids_ok_drop [OF assms(1) True Release_fresh(3,4) [OF this]]
    show ?thesis using EvRelease True by (auto intro: ids_ok_Suc)
  qed (use assms EvRelease in \<open>auto intro: ids_ok_Suc\<close>)
qed (use assms in \<open>auto simp: Spent_def SetStoreHealthy_def Let_def intro!: ids_ok_Suc ids_ok_frame\<close>)

lemma run_ids: "length evs < 2 ^ 64 \<Longrightarrow> ids_ok (length evs) (run evs (new_book lims))"
proof (induction evs rule: rev_induct)
  case (snoc ev evs)
  then show ?case using ids_ok_exec [of "length evs" "run evs (new_book lims)" ev] by simp
qed (simp add: ids_ok_def new_book_def NewEnforcer_def)

lemma exec_limits: "e_limits (b_enf (exec ev b)) = e_limits (b_enf b)"
proof (cases ev)
  case (EvReserve t est now)
  obtain res e where r: "Reserve (b_enf b) now t est = (res, e)" by fastforce
  with EvReserve Reserve_denies [of "b_enf b" now t est _ e] Reserve_admits(3) [of "b_enf b" now t est _ e]
  show ?thesis by (cases res) auto
qed (auto simp: Settle_locked_def Release_def Spent_def SetStoreHealthy_def Let_def)

lemma run_limits: "e_limits (b_enf (run evs (new_book lims))) = lims"
  by (induction evs rule: rev_induct) (simp_all add: exec_limits, simp add: new_book_def NewEnforcer_def)

section \<open>Spend windows\<close>

text \<open>What a spend window promises: it starts empty, a rollover may only clear it, claims and refunds
  leave it alone, a settlement adds the amount, and an admitted estimate fits under its cap together
  with what is spent and committed.\<close>

locale spend_window =
  fixes spent :: "tenant_state \<Rightarrow> rat"
    and cap :: "limits \<Rightarrow> rat"
  assumes spent_stateFor: "spent (stateFor e t now) = 0
      \<or> (\<exists>st. e_state e t = Some st \<and> spent (stateFor e t now) = spent st)"
    and spent_claim: "spent (claim st est) = spent st"
    and spent_unclaim: "spent (unclaim st est) = spent st"
    and spent_bill: "spent (bill st est u usd) = fadd (spent st) usd"
    and admitted_fits: "checkBudgets st l est = None \<Longrightarrow> 0 < cap l \<Longrightarrow>
      fadd (fadd (spent st) (committed st)) (est_USD est) \<le> cap l"
begin

text \<open>The accounting invariant of one tenant after \<open>n\<close> events, with every operation below \<open>2 ^ m\<close> off by
  at most \<open>slop m\<close>: the committed amount tracks the outstanding estimates, and spent plus outstanding
  stays under the cap plus the excess.\<close>

definition slop :: "int \<Rightarrow> rat" where
  "slop m = 2 powi (m - 54)"

definition accounted :: "int \<Rightarrow> tenant_id \<Rightarrow> rat \<Rightarrow> nat \<Rightarrow> rat \<Rightarrow> rat \<Rightarrow> book \<Rightarrow> bool" where
  "accounted m t L n D C b \<longleftrightarrow>
     is_f64 D \<and> 0 \<le> D \<and> is_f64 C \<and> 0 \<le> C \<and> C \<le> 2 powi m
     \<and> (\<forall>r \<in> set (b_held b). res_Tenant r = t \<longrightarrow>
           0 \<le> est_USD (res_Estimate r) \<and> est_USD (res_Estimate r) \<le> 2 powi m)
     \<and> \<bar>C - outstanding t (b_held b)\<bar> \<le> of_nat n * slop m
     \<and> D + outstanding t (b_held b) \<le> L + b_excess b t + of_nat (n + 2) * slop m"

definition book_ok :: "int \<Rightarrow> tenant_id \<Rightarrow> rat \<Rightarrow> nat \<Rightarrow> book \<Rightarrow> bool" where
  "book_ok m t L n b \<longleftrightarrow> (case e_state (b_enf b) t of
       None \<Rightarrow> accounted m t L n 0 0 b
     | Some st \<Rightarrow> accounted m t L n (spent st) (committed st) b)"

lemma slop_pos: "0 < slop m"
  by (simp add: slop_def)

lemma accounted_roll: "accounted m t L n D C b \<Longrightarrow> accounted m t L n 0 C b"
  by (auto simp: accounted_def)

lemma accounted_Suc:
  assumes "accounted m t L n D C b"
  shows "accounted m t L (Suc n) D C b"
  using assms slop_pos [of m] by (auto simp: accounted_def algebra_simps)

lemma book_ok_now:
  assumes "book_ok m t L n b"
  shows "accounted m t L n (spent (stateFor (b_enf b) t now)) (committed (stateFor (b_enf b) t now)) b"
  using assms spent_stateFor [of "b_enf b" t now]
  by (auto simp: book_ok_def stateFor_committed intro: accounted_roll split: option.splits)

lemma accounted_frame:
  "b_held b' = b_held b \<Longrightarrow> b_excess b' t = b_excess b t \<Longrightarrow> accounted m t L n D C b' = accounted m t L n D C b"
  by (simp add: accounted_def)

lemma accounted_reserve:
  assumes a: "accounted m t L n D C b" and m: "- 1000 \<le> m" "L < 2 powi m"
    and est: "0 \<le> est_USD est" and fits: "fadd (fadd D C) (est_USD est) \<le> L"
    and r: "res_Tenant r = t" "res_Estimate r = est"
  shows "accounted m t L (Suc n) D (fadd C (est_USD est))
    (b\<lparr>b_enf := e, b_held := r # b_held b, b_excess := (b_excess b)(t := 0), b_admitted := ad\<rparr>)"
proof -
  let ?e = "est_USD est" and ?O = "outstanding t (b_held b)"
  have D: "is_f64 D" "0 \<le> D" and C: "is_f64 C" "0 \<le> C"
    and tr: "\<bar>C - ?O\<bar> \<le> of_nat n * slop m" using a by (auto simp: accounted_def)
  have "rnd64 (fadd D C + ?e) < 2 powi m"
    using fits m(2) unfolding fadd_def [of "fadd D C"] by linarith
  then have s2: "fadd D C + ?e < 2 powi m" by (rule rnd64_below_pow) (use m(1) in simp)
  then have "fadd D C < 2 powi m" using est by linarith
  then have s1: "D + C < 2 powi m" unfolding fadd_def by (rule rnd64_below_pow) (use m(1) in simp)
  have e1: "\<bar>fadd D C - (D + C)\<bar> \<le> slop m"
    unfolding fadd_def slop_def using s1 D C m by (intro rnd64_abs_error) auto
  have "C \<le> fadd D C" using C D by (intro fl.add_ge_right)
  with s2 have s3: "C + ?e < 2 powi m" by linarith
  have "0 \<le> fadd D C" using D C by (intro fl.add_nonneg)
  then have e2: "\<bar>fadd (fadd D C) ?e - (fadd D C + ?e)\<bar> \<le> slop m"
    unfolding fadd_def [of "fadd D C"] slop_def using s2 m est by (intro rnd64_abs_error) auto
  have e3: "\<bar>fadd C ?e - (C + ?e)\<bar> \<le> slop m"
    unfolding fadd_def slop_def using s3 C est m by (intro rnd64_abs_error) auto
  have "fadd C ?e \<le> 2 powi m"
    using rnd64_mono [of "C + ?e" "2 powi m"] s3 is_f64_powi [of m] m by (simp add: fadd_def is_f64_def)
  moreover have "?e \<le> 2 powi m" using s3 C by linarith
  moreover have "0 \<le> fadd C ?e" using C est by (intro fl.add_nonneg)
  moreover have "\<bar>fadd C ?e - (?e + ?O)\<bar> \<le> of_nat (Suc n) * slop m"
    using e3 tr unfolding of_nat_Suc distrib_right by linarith
  moreover have "D + (?e + ?O) \<le> L + of_nat (Suc n + 2) * slop m"
    using e1 e2 tr fits slop_pos [of m] by (simp add: algebra_simps)
  ultimately show ?thesis using a est r by (simp add: accounted_def)
qed

lemma accounted_unclaim:
  assumes a: "accounted m t L n D C b" and m: "- 1000 \<le> m"
    and r: "i < length (b_held b)" "res_Tenant (b_held b ! i) = t"
    and b': "b_held b' = drop_nth i (b_held b)"
    and D': "is_f64 D'" "0 \<le> D'"
      "D' - D \<le> b_excess b' t - b_excess b t + est_USD (res_Estimate (b_held b ! i)) + slop m"
  shows "accounted m t L (Suc n) D' (max 0 (fsub C (est_USD (res_Estimate (b_held b ! i))))) b'"
proof -
  let ?e = "est_USD (res_Estimate (b_held b ! i))" and ?O = "outstanding t (b_held b)"
  have C: "0 \<le> C" "C \<le> 2 powi m" and tr: "\<bar>C - ?O\<bar> \<le> of_nat n * slop m"
    and e: "0 \<le> ?e" "?e \<le> 2 powi m" using a r by (auto simp: accounted_def)
  have O': "outstanding t (b_held b') = ?O - ?e" using r b' by (simp add: outstanding_drop_nth)
  have held: "\<forall>r \<in> set (b_held b'). res_Tenant r = t \<longrightarrow>
      0 \<le> est_USD (res_Estimate r) \<and> est_USD (res_Estimate r) \<le> 2 powi m"
    using a drop_nth_set [of i "b_held b"] b' by (auto simp: accounted_def)
  then have O0: "0 \<le> outstanding t (b_held b')"
    by (auto simp: outstanding_def intro!: sum_list_nonneg)
  have e3: "\<bar>fsub C ?e - (C - ?e)\<bar> \<le> slop m"
    unfolding fsub_def slop_def using C e m by (intro rnd64_abs_error) (auto simp: abs_le_iff)
  have "fsub C ?e \<le> 2 powi m"
    using rnd64_mono [of "C - ?e" "2 powi m"] C e is_f64_powi [of m] m by (simp add: fsub_def is_f64_def)
  moreover have "\<bar>max 0 (fsub C ?e) - outstanding t (b_held b')\<bar> \<le> of_nat (Suc n) * slop m"
    using e3 tr O0 O' unfolding of_nat_Suc distrib_right by linarith
  moreover have "D' + outstanding t (b_held b') \<le> L + b_excess b' t + of_nat (Suc n + 2) * slop m"
    using D'(3) a O' by (simp add: accounted_def algebra_simps)
  moreover have "is_f64 (max 0 (fsub C ?e))" by (simp add: max_def)
  ultimately show ?thesis using D'(1,2) held by (simp add: accounted_def)
qed

lemma book_ok_Some: "e_state (b_enf b) t = Some st \<Longrightarrow>
    book_ok m t L n b = accounted m t L n (spent st) (committed st) b"
  by (simp add: book_ok_def)

lemma book_ok_other:
  assumes "book_ok m t L n b" "e_state (b_enf b') t = e_state (b_enf b) t"
    and "b_excess b' t = b_excess b t" "\<forall>r \<in> set (b_held b'). res_Tenant r = t \<longrightarrow> r \<in> set (b_held b)"
    and "outstanding t (b_held b') = outstanding t (b_held b)"
  shows "book_ok m t L (Suc n) b'"
proof -
  have "accounted m t L (Suc n) D C b'" if "accounted m t L n D C b" for D C
    using accounted_Suc [OF that] assms(3-5) by (auto simp: accounted_def)
  with assms(1,2) show ?thesis by (auto simp: book_ok_def split: option.splits)
qed

lemma book_ok_touch:
  assumes "book_ok m t L n b"
  shows "book_ok m t L (Suc n) (b\<lparr>b_enf := touch (b_enf b) q now\<rparr>)"
proof (cases "q = t")
  case True
  have "accounted m t L (Suc n) (spent (stateFor (b_enf b) t now)) (committed (stateFor (b_enf b) t now)) b"
    using book_ok_now [OF assms] by (rule accounted_Suc)
  with True show ?thesis by (simp add: book_ok_def accounted_def)
next
  case False
  with assms show ?thesis by (intro book_ok_other [OF assms]) auto
qed

lemma book_ok_reserve:
  assumes ok: "book_ok m t L n b" and l: "e_limits (b_enf b) t = Some l" "cap l = L" "0 < L" "L < 2 powi m"
    and m: "- 1000 \<le> m" and ev: "0 \<le> est_USD est"
  shows "book_ok m t L (Suc n) (exec (EvReserve q est now) b)"
proof -
  obtain res e where r: "Reserve (b_enf b) now q est = (res, e)" by fastforce
  show ?thesis
  proof (cases res)
    case (Inl d)
    then consider "e = b_enf b" | "e = touch (b_enf b) q now" using Reserve_denies r by blast
    then show ?thesis
      using ok r Inl book_ok_touch [OF ok, of q now] book_ok_other [OF ok, of b] by cases simp_all
  next
    case (Inr rv)
    note adm = Reserve_admits [OF r [unfolded Inr]]
    show ?thesis
    proof (cases "q = t")
      case True
      let ?st = "stateFor (b_enf b) t now"
      have "checkBudgets ?st l est = None" using adm(1) l True by auto
      then have fits: "fadd (fadd (spent ?st) (committed ?st)) (est_USD est) \<le> L"
        using admitted_fits l by blast
      have "accounted m t L (Suc n) (spent (claim ?st est)) (committed (claim ?st est))
          (b\<lparr>b_enf := e, b_held := rv # b_held b, b_excess := (b_excess b)(t := 0),
             b_admitted := (t, now) # b_admitted b\<rparr>)"
        using accounted_reserve [OF book_ok_now [OF ok] m l(4) ev fits] adm(2) True
        by (simp add: spent_claim)
      with True r Inr adm(3) show ?thesis by (simp add: book_ok_def)
    next
      case False
      then show ?thesis using r Inr adm(2,3) by (intro book_ok_other [OF ok]) auto
    qed
  qed
qed

text \<open>A held reservation of the tenant leaves the book; of another tenant, nothing changes here.\<close>

lemma book_ok_drop:
  assumes ok: "book_ok m t L n b" and m: "- 1000 \<le> m"
    and i: "i < length (b_held b)" "res_Tenant (b_held b ! i) = q"
    and b': "b_held b' = drop_nth i (b_held b)" "e_state (b_enf b') = (e_state (b_enf b))(q \<mapsto> st')"
    and other: "\<And>x. x \<noteq> q \<Longrightarrow> b_excess b' x = b_excess b x"
    and st': "committed st' = max 0 (fsub (committed (stateFor (b_enf b) q now)) (est_USD (res_Estimate (b_held b ! i))))"
    and sp: "q = t \<Longrightarrow> is_f64 (spent (stateFor (b_enf b) q now)) \<Longrightarrow> 0 \<le> spent (stateFor (b_enf b) q now) \<Longrightarrow>
        is_f64 (spent st') \<and> 0 \<le> spent st' \<and> spent st' - spent (stateFor (b_enf b) q now)
          \<le> b_excess b' t - b_excess b t + est_USD (res_Estimate (b_held b ! i)) + slop m"
  shows "book_ok m t L (Suc n) b'"
proof (cases "q = t")
  case True
  have a: "accounted m t L n (spent (stateFor (b_enf b) t now)) (committed (stateFor (b_enf b) t now)) b"
    by (rule book_ok_now [OF ok])
  have "accounted m t L (Suc n) (spent st') (committed st') b'"
    unfolding st' True using sp True a
    by (intro accounted_unclaim [OF a m i(1) i(2) [unfolded True] b'(1)]) (auto simp: accounted_def)
  with True b' show ?thesis by (simp add: book_ok_def)
next
  case False
  then show ?thesis using i b' other drop_nth_set [of i "b_held b"]
    by (intro book_ok_other [OF ok]) (auto simp: outstanding_drop_nth)
qed

lemma book_ok_exec:
  assumes ok: "book_ok m t L n b" and ids: "ids_ok n b"
    and l: "e_limits (b_enf b) t = Some l" "cap l = L" "0 < L" "L < 2 powi m" and m: "- 1000 \<le> m"
    and ev: "event_ok ev" and below: "spent_of spent (exec ev b) t < 2 powi m"
  shows "book_ok m t L (Suc n) (exec ev b)"
proof (cases ev)
  case (EvReserve q est now)
  with book_ok_reserve [OF ok l m] ev show ?thesis by simp
next
  case (EvSettle i u usd now)
  show ?thesis
  proof (cases "i < length (b_held b)")
    case True
    let ?r = "b_held b ! i" and ?st = "stateFor (b_enf b) (res_Tenant (b_held b ! i)) now"
    have fresh: "res_ID ?r \<notin> settled (b_enf b)" using ids True by (auto simp: ids_ok_def)
    have sp: "fadd (spent ?st) usd - spent ?st \<le> usd + slop m \<and> 0 \<le> fadd (spent ?st) usd"
      if "res_Tenant ?r = t" "is_f64 (spent ?st)" "0 \<le> spent ?st"
    proof -
      have "rnd64 (spent ?st + usd) < 2 powi m"
        using below EvSettle True that(1)
        by (simp add: Let_def spent_of_def Settle_locked_fresh [OF fresh] spent_bill fadd_def)
      then have "spent ?st + usd < 2 powi m" by (rule rnd64_below_pow) (use m in simp)
      then have "\<bar>fadd (spent ?st) usd - (spent ?st + usd)\<bar> \<le> slop m"
        unfolding fadd_def slop_def using that(3) ev EvSettle m by (intro rnd64_abs_error) auto
      moreover have "0 \<le> fadd (spent ?st) usd" using that ev EvSettle by (intro fl.add_nonneg) auto
      ultimately show ?thesis by linarith
    qed
    show ?thesis unfolding EvSettle
      using True sp Settle_locked_fresh(1) [OF fresh]
      by (intro book_ok_drop [OF ok m True refl, where now = now
            and st' = "bill ?st (res_Estimate ?r) u usd"])
        (auto simp: Let_def spent_bill)
  qed (use ok EvSettle in \<open>auto intro: book_ok_other\<close>)
next
  case (EvRelease i now)
  show ?thesis
  proof (cases "i < length (b_held b)")
    case True
    let ?r = "b_held b ! i" and ?st = "stateFor (b_enf b) (res_Tenant (b_held b ! i)) now"
    have fresh: "res_ID ?r \<notin> settled (b_enf b)" using ids True by (auto simp: ids_ok_def)
    have "res_Tenant ?r = t \<Longrightarrow> 0 \<le> est_USD (res_Estimate ?r)"
      using ok True by (auto simp: book_ok_def accounted_def split: option.splits)
    then show ?thesis unfolding EvRelease
      using True slop_pos [of m] Release_fresh(1) [OF fresh]
      by (intro book_ok_drop [OF ok m True refl, where now = now and st' = "unclaim ?st (res_Estimate ?r)"])
        (auto simp: spent_unclaim)
  qed (use ok EvRelease in \<open>auto intro: book_ok_other\<close>)
next
  case (EvQuery q now)
  with book_ok_touch [OF ok, of q now] show ?thesis by (simp add: Spent_def Let_def)
next
  case (EvHealth h)
  then show ?thesis by (intro book_ok_other [OF ok]) (auto simp: SetStoreHealthy_def)
qed

lemma run_book_ok:
  assumes l: "lims t = Some l" "0 < cap l" "cap l < 2 powi m" and m: "- 1000 \<le> m"
    and evs: "\<forall>ev \<in> set evs. event_ok ev" "length evs < 2 ^ 64"
    and below: "\<forall>k \<le> length evs. spent_of spent (run (take k evs) (new_book lims)) t < 2 powi m"
  shows "book_ok m t (cap l) (length evs) (run evs (new_book lims))"
  using evs below
proof (induction evs rule: rev_induct)
  case Nil
  show ?case using l(2) slop_pos [of m]
    by (simp add: book_ok_def accounted_def new_book_def NewEnforcer_def)
next
  case (snoc ev evs)
  let ?b = "run evs (new_book lims)"
  have "\<forall>k \<le> length evs. spent_of spent (run (take k evs) (new_book lims)) t < 2 powi m"
    using snoc.prems(3) by (metis butlast_snoc le_Suc_eq length_append_singleton take_butlast
        less_Suc_eq_le order_le_less)
  with snoc have "book_ok m t (cap l) (length evs) ?b" by simp
  moreover have "ids_ok (length evs) ?b" using snoc.prems(2) by (intro run_ids) simp
  moreover have "spent_of spent (exec ev ?b) t < 2 powi m"
    using snoc.prems(3) [rule_format, of "length (evs @ [ev])"] by simp
  ultimately show ?case
    using book_ok_exec [of m t "cap l" "length evs" ?b l ev] snoc.prems(1) l m
    by (simp add: run_limits)
qed

lemma overshoot:
  assumes "lims t = Some l" "0 < cap l" "cap l < 2 powi m" "- 1000 \<le> m"
    and "\<forall>ev \<in> set evs. event_ok ev" "length evs < 2 ^ 64"
    and "\<forall>k \<le> length evs. spent_of spent (run (take k evs) (new_book lims)) t < 2 powi m"
    and "b = run evs (new_book lims)"
  shows "spent_of spent b t + outstanding t (b_held b)
           \<le> cap l + b_excess b t + of_nat (length evs + 2) * 2 powi (m - 54)"
  using run_book_ok [OF assms(1-7)] assms(8)
  by (auto simp: book_ok_def accounted_def spent_of_def slop_def split: option.splits)

end

interpretation daily: spend_window dailySpent DailyUSD
  by unfold_locales (auto simp: stateFor_def fresh_state_def rollDaily_def checkBudgets_def not_less
      split: option.split if_splits)

interpretation monthly: spend_window monthlySpent MonthlyUSD
  by unfold_locales (auto simp: stateFor_def fresh_state_def rollMonthly_def checkBudgets_def not_less
      split: option.split if_splits)

section \<open>Request rate\<close>

text \<open>The admissions of one tenant with an instant in a half open interval.\<close>

definition admissions :: "tenant_id \<Rightarrow> instant \<Rightarrow> instant \<Rightarrow> (tenant_id \<times> instant) list \<Rightarrow> int" where
  "admissions t a z ad = int (length (filter (\<lambda>(q, at0). q = t \<and> a \<le> at0 \<and> at0 < z) ad))"

fun event_time :: "event \<Rightarrow> instant option" where
  "event_time (EvReserve t est now) = Some now"
| "event_time (EvSettle i u usd now) = Some now"
| "event_time (EvRelease i now) = Some now"
| "event_time (EvQuery t now) = Some now"
| "event_time (EvHealth h) = None"

text \<open>The clock never runs backwards: every event is at or after the ones before it.\<close>

fun ordered_from :: "instant \<Rightarrow> event list \<Rightarrow> bool" where
  "ordered_from c [] \<longleftrightarrow> True"
| "ordered_from c (ev # evs) \<longleftrightarrow> (case event_time ev of
       None \<Rightarrow> ordered_from c evs
     | Some now \<Rightarrow> c \<le> now \<and> ordered_from now evs)"

lemma admissions_nonneg [simp]: "0 \<le> admissions t a z ad"
  by (simp add: admissions_def)

lemma admissions_Nil [simp]: "admissions t a z [] = 0"
  by (simp add: admissions_def)

lemma admissions_Cons [simp]:
  "admissions t a z ((q, at0) # ad) = (if q = t \<and> a \<le> at0 \<and> at0 < z then 1 else 0) + admissions t a z ad"
  by (simp add: admissions_def)

lemma admissions_mono: "a' \<le> a \<Longrightarrow> z \<le> z' \<Longrightarrow> admissions t a z ad \<le> admissions t a' z' ad"
  by (induction ad) auto

lemma admissions_split: "a \<le> k \<Longrightarrow> k \<le> z \<Longrightarrow> admissions t a z ad = admissions t a k ad + admissions t k z ad"
  by (induction ad) auto

lemma admissions_none: "\<forall>(q, at0) \<in> set ad. q \<noteq> t \<Longrightarrow> admissions t a z ad = 0"
  by (induction ad) auto

lemma admissions_late: "\<forall>(q, at0) \<in> set ad. at0 \<le> c \<Longrightarrow> c < a \<Longrightarrow> admissions t a z ad = 0"
  by (induction ad) auto

lemma admissions_past:
  "\<forall>(q, at0) \<in> set ad. at0 \<le> c \<Longrightarrow> c < z \<Longrightarrow> c < z' \<Longrightarrow> admissions t a z ad = admissions t a z' ad"
  by (induction ad) auto

lemma rateWindow_pos: "0 < rateWindow" "rateWindow < 2 ^ 63"
  by (simp_all add: window_defs)

text \<open>Reading the counters at a later instant keeps the invariant: a window that is over had at most
  \<open>R\<close> admissions, and it is the only one that reaches back into the last minute.\<close>

definition window_ok :: "goint \<Rightarrow> instant \<Rightarrow> tenant_id \<Rightarrow> tenant_state \<Rightarrow> (tenant_id \<times> instant) list \<Rightarrow> bool" where
  "window_ok R c t st ad \<longleftrightarrow> requestsAt st \<le> c \<and> requests st \<le> R
     \<and> requests st = admissions t (requestsAt st) (c + 1) ad
     \<and> admissions t (requestsAt st + rateWindow) (c + 1) ad = 0
     \<and> (\<forall>a. requestsAt st - rateWindow < a \<longrightarrow> admissions t a (requestsAt st) ad \<le> R)"

definition rate_ok :: "goint \<Rightarrow> instant \<Rightarrow> tenant_id \<Rightarrow> book \<Rightarrow> bool" where
  "rate_ok R c t b \<longleftrightarrow>
     (\<forall>(q, at0) \<in> set (b_admitted b). at0 \<le> c)
     \<and> (case e_state (b_enf b) t of
          None \<Rightarrow> (\<forall>(q, at0) \<in> set (b_admitted b). q \<noteq> t)
        | Some st \<Rightarrow> window_ok R c t st (b_admitted b))
     \<and> (\<forall>a. admissions t a (a + rateWindow) (b_admitted b) \<le> 2 * R)"

lemma window_ok_cong:
  "requests st' = requests st \<Longrightarrow> requestsAt st' = requestsAt st \<Longrightarrow> window_ok R c t st' ad = window_ok R c t st ad"
  by (simp add: window_ok_def)

lemma window_ok_later:
  assumes "\<forall>(q, at0) \<in> set ad. at0 \<le> c" "c \<le> now" "window_ok R c t st ad"
  shows "window_ok R now t st ad"
  using assms admissions_past [of ad c "c + 1" "now + 1" t "requestsAt st"]
    admissions_past [of ad c "c + 1" "now + 1" t "requestsAt st + rateWindow"] by (simp add: window_ok_def)

lemma window_ok_fresh:
  assumes "\<forall>(q, at0) \<in> set ad. q \<noteq> t" "0 < R"
  shows "window_ok R now t (fresh_state now) ad"
  using assms by (simp add: window_ok_def fresh_state_def admissions_none)

lemma rollRequests_cases: "rollRequests now st =
    (if requestsAt st + rateWindow \<le> now then st\<lparr>requests := 0, requestsAt := now\<rparr> else st)"
  using time_Sub_ge_pos [OF rateWindow_pos] by (simp add: rollRequests_def)

lemma stateFor_requests:
  "e_state e t = Some st \<Longrightarrow> requests (stateFor e t now) = requests (rollRequests now st)
     \<and> requestsAt (stateFor e t now) = requestsAt (rollRequests now st)"
  by (auto simp: stateFor_def rollRequests_cases)

lemma admissions_empty [simp]: "z \<le> a \<Longrightarrow> admissions t a z ad = 0"
  by (induction ad) auto

lemma window_ok_roll:
  assumes "window_ok R now t st ad" "0 < R"
  shows "window_ok R now t (rollRequests now st) ad"
proof (cases "requestsAt st + rateWindow \<le> now")
  case True
  have "admissions t now (now + 1) ad \<le> admissions t (requestsAt st + rateWindow) (now + 1) ad"
    using True by (intro admissions_mono) auto
  then have z: "admissions t now (now + 1) ad = 0"
    using assms(1) admissions_nonneg [of t now "now + 1" ad] unfolding window_ok_def by linarith
  have "admissions t a now ad \<le> R" if "now - rateWindow < a" for a
    using admissions_mono [of "requestsAt st" a now "now + 1" t ad] that True assms(1)
    by (simp add: window_ok_def)
  with True z assms(2) rateWindow_pos show ?thesis
    by (simp add: rollRequests_cases window_ok_def)
qed (use assms in \<open>simp add: rollRequests_cases\<close>)

lemma rate_ok_now:
  assumes "rate_ok R c t b" "c \<le> now" "0 < R"
  shows "window_ok R now t (stateFor (b_enf b) t now) (b_admitted b)
       \<and> now < requestsAt (stateFor (b_enf b) t now) + rateWindow"
proof (cases "e_state (b_enf b) t")
  case None
  with assms rateWindow_pos show ?thesis
    by (simp add: rate_ok_def stateFor_def window_ok_fresh) (simp add: fresh_state_def)
next
  case (Some st)
  with assms have "window_ok R now t st (b_admitted b)"
    by (auto simp: rate_ok_def intro: window_ok_later)
  from window_ok_roll [OF this assms(3)] stateFor_requests [OF Some, of now] rateWindow_pos
  show ?thesis
    using window_ok_cong [of "stateFor (b_enf b) t now" "rollRequests now st" R now t "b_admitted b"]
    by (auto simp: rollRequests_cases)
qed

lemma window_ok_claim:
  assumes "window_ok R now t st ad" "now < requestsAt st + rateWindow" "requests st < R" "int64_ok R"
  shows "window_ok R now t (claim st est) ((t, now) # ad)"
proof -
  have "0 \<le> requests st" using assms(1) by (simp add: window_ok_def)
  then have "iadd (requests st) 1 = requests st + 1"
    using assms(3,4) by (intro iadd_exact) (simp add: int64_ok_def)
  with assms show ?thesis by (simp add: window_ok_def)
qed

lemma two_windows:
  assumes w: "window_ok R now t st ad" and past: "\<forall>(q, at0) \<in> set ad. at0 \<le> now"
    and near: "requestsAt st - rateWindow < a" and R: "0 < R"
  shows "admissions t a (a + rateWindow) ad \<le> 2 * R"
proof -
  have all: "admissions t (max a (requestsAt st)) (a + rateWindow) ad \<le> R"
  proof -
    have "admissions t (max a (requestsAt st)) (a + rateWindow) ad
        \<le> admissions t (requestsAt st) (max (a + rateWindow) (now + 1)) ad"
      by (intro admissions_mono) auto
    also have "\<dots> = admissions t (requestsAt st) (now + 1) ad"
      using past by (intro admissions_past [of ad now]) auto
    finally show ?thesis using w by (simp add: window_ok_def)
  qed
  show ?thesis
  proof (cases "a \<le> requestsAt st")
    case True
    with near have "admissions t a (a + rateWindow) ad
        = admissions t a (requestsAt st) ad + admissions t (requestsAt st) (a + rateWindow) ad"
      by (intro admissions_split) auto
    moreover have "admissions t a (requestsAt st) ad \<le> R" using w near by (simp add: window_ok_def)
    ultimately show ?thesis using all True by (simp add: max_def)
  qed (use all R in \<open>simp add: max_def split: if_splits\<close>)
qed

lemma rate_ok_reserve:
  assumes ok: "rate_ok R c t b" and c: "c \<le> now" and R: "0 < R" "int64_ok R"
    and l: "e_limits (b_enf b) t = Some l" "RequestsPerMinute l = R"
  shows "rate_ok R now t (exec (EvReserve q est now) b)"
proof -
  let ?st = "stateFor (b_enf b) t now"
  have w: "window_ok R now t ?st (b_admitted b)" "now < requestsAt ?st + rateWindow"
    using rate_ok_now [OF ok c R(1)] by auto
  have past: "\<forall>(p, at0) \<in> set (b_admitted b). at0 \<le> now" using ok c by (fastforce simp: rate_ok_def)
  have old: "\<forall>a. admissions t a (a + rateWindow) (b_admitted b) \<le> 2 * R" using ok by (simp add: rate_ok_def)
  have keep: "rate_ok R now t (b\<lparr>b_enf := e\<rparr>)"
    if "e_state e t = e_state (b_enf b) t \<or> e_state e t = Some ?st" for e
    using ok that past old w c
    by (auto simp: rate_ok_def intro: window_ok_later split: option.splits)
  obtain res e where r: "Reserve (b_enf b) now q est = (res, e)" by fastforce
  show ?thesis
  proof (cases res)
    case (Inl d)
    with r keep [of e] Reserve_denies [of "b_enf b" now q est d e] show ?thesis by (cases "q = t") auto
  next
    case (Inr rv)
    note adm = Reserve_admits [OF r [unfolded Inr]]
    show ?thesis
    proof (cases "q = t")
      case False
      with r Inr adm(3) keep [of e] past show ?thesis
        by (auto simp: rate_ok_def window_ok_def split: option.splits)
    next
      case True
      have "checkRates ?st l est now = None" using adm(1) l True by auto
      then have "requests ?st < R" using l R by (auto simp: checkRates_def split: if_splits)
      then have w': "window_ok R now t (claim ?st est) ((t, now) # b_admitted b)"
        using window_ok_claim w R(2) by blast
      have "admissions t a (a + rateWindow) ((t, now) # b_admitted b) \<le> 2 * R" for a
      proof (cases "requestsAt ?st - rateWindow < a")
        case True
        with two_windows [OF w', of a] past R show ?thesis by auto
      next
        case False
        with w(1) old show ?thesis by (auto simp: window_ok_def)
      qed
      with True r Inr adm(3) w' past show ?thesis by (auto simp: rate_ok_def)
    qed
  qed
qed

text \<open>Settlements, releases and readings only look at the windows.\<close>

lemma rate_ok_look:
  assumes ok: "rate_ok R c t b" and c: "c \<le> now" and R: "0 < R"
    and e: "e_state e = (e_state (b_enf b))(q \<mapsto> st')"
      "requests st' = requests (stateFor (b_enf b) q now)" "requestsAt st' = requestsAt (stateFor (b_enf b) q now)"
    and b': "b_admitted b' = b_admitted b" "b_enf b' = e"
  shows "rate_ok R now t b'"
proof -
  have "\<forall>(p, at0) \<in> set (b_admitted b). at0 \<le> now" using ok c by (fastforce simp: rate_ok_def)
  with ok c e b' rate_ok_now [OF ok c R] window_ok_cong [OF e(2,3)] show ?thesis
    by (cases "q = t") (auto simp: rate_ok_def intro: window_ok_later split: option.splits)
qed

definition clock_after :: "instant \<Rightarrow> event \<Rightarrow> instant" where
  "clock_after c ev = (case event_time ev of None \<Rightarrow> c | Some now \<Rightarrow> now)"

lemma rate_ok_exec:
  assumes ok: "rate_ok R c t b" and ids: "ids_ok n b" and c: "c \<le> clock_after c ev" and R: "0 < R" "int64_ok R"
    and l: "e_limits (b_enf b) t = Some l" "RequestsPerMinute l = R"
  shows "rate_ok R (clock_after c ev) t (exec ev b)"
proof (cases ev)
  case (EvReserve q est now)
  with rate_ok_reserve [OF ok _ R l] c show ?thesis by (simp add: clock_after_def)
next
  case (EvSettle i u usd now)
  show ?thesis
  proof (cases "i < length (b_held b)")
    case True
    then have "res_ID (b_held b ! i) \<notin> settled (b_enf b)" using ids by (auto simp: ids_ok_def)
    from rate_ok_look [OF ok _ R(1) Settle_locked_fresh(1) [OF this], of now] EvSettle True c
    show ?thesis by (simp add: Let_def clock_after_def)
  next
    case False
    with ok EvSettle c show ?thesis
      by (auto simp: clock_after_def rate_ok_def intro: window_ok_later split: option.splits)
  qed
next
  case (EvRelease i now)
  show ?thesis
  proof (cases "i < length (b_held b)")
    case True
    then have "res_ID (b_held b ! i) \<notin> settled (b_enf b)" using ids by (auto simp: ids_ok_def)
    from rate_ok_look [OF ok _ R(1) Release_fresh(1) [OF this], of now] EvRelease True c
    show ?thesis by (simp add: clock_after_def)
  next
    case False
    with ok EvRelease c show ?thesis
      by (auto simp: clock_after_def rate_ok_def intro: window_ok_later split: option.splits)
  qed
next
  case (EvQuery q now)
  with rate_ok_look [OF ok _ R(1), of now "touch (b_enf b) q now" q "stateFor (b_enf b) q now"] c
  show ?thesis by (simp add: Spent_def Let_def clock_after_def)
next
  case (EvHealth h)
  with ok show ?thesis by (auto simp: rate_ok_def SetStoreHealthy_def clock_after_def split: option.splits)
qed

lemma run_rate_ok:
  assumes "ordered_from c evs" "length evs + n < 2 ^ 64" "ids_ok n b" "rate_ok R c t b" "0 < R" "int64_ok R"
    and "e_limits (b_enf b) t = Some l" "RequestsPerMinute l = R"
  shows "\<exists>c'. rate_ok R c' t (run evs b)"
  using assms
proof (induction evs arbitrary: c n b)
  case (Cons ev evs)
  have c: "c \<le> clock_after c ev" "ordered_from (clock_after c ev) evs"
    using Cons.prems(1) by (auto simp: clock_after_def split: option.splits)
  have "rate_ok R (clock_after c ev) t (exec ev b)"
    using rate_ok_exec [OF Cons.prems(4,3) c(1) Cons.prems(5-8)] .
  moreover have "ids_ok (Suc n) (exec ev b)" using Cons.prems(2,3) by (intro ids_ok_exec) auto
  ultimately have "\<exists>c'. rate_ok R c' t (run evs (exec ev b))"
    using Cons.prems(2,7) exec_limits [of ev b]
    by (intro Cons.IH [OF c(2) _ _ _ Cons.prems(5,6) _ Cons.prems(8)]) auto
  then show ?case by (simp add: run_def)
qed auto

section \<open>Aligned rate windows\<close>

text \<open>The request and the token window of a tenant start together and never in the future.\<close>

definition aligned :: "instant \<Rightarrow> book \<Rightarrow> bool" where
  "aligned c b \<longleftrightarrow> (\<forall>t st. e_state (b_enf b) t = Some st \<longrightarrow> requestsAt st = tokensAt st \<and> requestsAt st \<le> c)"

lemma window_starts [simp]:
  "tokensAt (claim st est) = tokensAt st" "tokensAt (unclaim st est) = tokensAt st"
  "tokensAt (bill st est u usd) = tokensAt st"
  by (simp_all add: claim_def unclaim_def bill_def reconcileTokens_def Let_def)

lemma aligned_now:
  assumes "aligned c b" "c \<le> now"
  shows "requestsAt (stateFor (b_enf b) t now) = tokensAt (stateFor (b_enf b) t now)
       \<and> requestsAt (stateFor (b_enf b) t now) \<le> now
       \<and> now < requestsAt (stateFor (b_enf b) t now) + rateWindow"
  using assms rateWindow_pos time_Sub_ge_pos [OF rateWindow_pos]
  by (fastforce simp: aligned_def stateFor_def fresh_state_def rollRequests_def rollTokens_def split: option.split)

lemma aligned_same:
  "aligned c b \<Longrightarrow> c \<le> now \<Longrightarrow> e_state (b_enf b') = e_state (b_enf b) \<Longrightarrow> aligned now b'"
  by (fastforce simp: aligned_def)

lemma aligned_set:
  assumes "aligned c b" "c \<le> now" "e_state (b_enf b') = (e_state (b_enf b))(q \<mapsto> st)"
    and "requestsAt st = requestsAt (stateFor (b_enf b) q now)" "tokensAt st = tokensAt (stateFor (b_enf b) q now)"
  shows "aligned now b'"
  using aligned_now [OF assms(1,2), of q] assms
  by (fastforce simp: aligned_def map_upd_Some_iff split: if_splits)

lemma aligned_exec:
  assumes al: "aligned c b" and c: "c \<le> clock_after c ev"
  shows "aligned (clock_after c ev) (exec ev b)"
proof (cases ev)
  case (EvReserve q est now)
  with c have now: "c \<le> now" "clock_after c ev = now" by (simp_all add: clock_after_def)
  obtain res e where r: "Reserve (b_enf b) now q est = (res, e)" by fastforce
  have e: "b_enf (exec ev b) = e" using EvReserve r by (cases res) simp_all
  consider "e = b_enf b" | "e = touch (b_enf b) q now"
    | "e_state e = (e_state (b_enf b))(q \<mapsto> claim (stateFor (b_enf b) q now) est)"
    using Reserve_denies [of "b_enf b" now q est _ e] Reserve_admits(3) [of "b_enf b" now q est _ e] r
    by (cases res) force+
  then show ?thesis
  proof cases
    case 1
    then show ?thesis unfolding now using e by (intro aligned_same [OF al now(1)]) simp
  next
    case 2
    then show ?thesis unfolding now using e by (intro aligned_set [OF al now(1)]) auto
  next
    case 3
    then show ?thesis unfolding now using e by (intro aligned_set [OF al now(1), where q = q and st = "claim (stateFor (b_enf b) q now) est"]) auto
  qed
next
  case (EvSettle i u usd now)
  with c have now: "c \<le> now" "clock_after c ev = now" by (simp_all add: clock_after_def)
  let ?r = "b_held b ! i"
  show ?thesis unfolding now
  proof (cases "i < length (b_held b) \<and> res_ID ?r \<notin> settled (b_enf b)")
    case True
    with Settle_locked_fresh(1) [of ?r "b_enf b" now u usd] EvSettle show "aligned now (exec ev b)"
      by (intro aligned_set [OF al now(1), where q = "res_Tenant ?r"
            and st = "bill (stateFor (b_enf b) (res_Tenant ?r) now) (res_Estimate ?r) u usd"]) (auto simp: Let_def)
  qed (use EvSettle in \<open>auto simp: Let_def Settle_locked_def intro!: aligned_same [OF al now(1)]\<close>)
next
  case (EvRelease i now)
  with c have now: "c \<le> now" "clock_after c ev = now" by (simp_all add: clock_after_def)
  let ?r = "b_held b ! i"
  show ?thesis unfolding now
  proof (cases "i < length (b_held b) \<and> res_ID ?r \<notin> settled (b_enf b)")
    case True
    with Release_fresh(1) [of ?r "b_enf b" now] EvRelease show "aligned now (exec ev b)"
      by (intro aligned_set [OF al now(1), where q = "res_Tenant ?r"
            and st = "unclaim (stateFor (b_enf b) (res_Tenant ?r) now) (res_Estimate ?r)"]) auto
  qed (use EvRelease in \<open>auto simp: Release_def intro!: aligned_same [OF al now(1)]\<close>)
next
  case (EvQuery q now)
  with c have now: "c \<le> now" "clock_after c ev = now" by (simp_all add: clock_after_def)
  show ?thesis unfolding now
    by (rule aligned_set [OF al now(1)]) (use EvQuery in \<open>auto simp: Spent_def Let_def\<close>)
next
  case (EvHealth h)
  with c show ?thesis by (intro aligned_same [OF al]) (auto simp: SetStoreHealthy_def)
qed

lemma run_aligned_from:
  "ordered_from c evs \<Longrightarrow> aligned c b \<Longrightarrow> aligned (fold (\<lambda>ev c. clock_after c ev) evs c) (run evs b)"
proof (induction evs arbitrary: c b)
  case (Cons ev evs)
  have c: "c \<le> clock_after c ev" "ordered_from (clock_after c ev) evs"
    using Cons.prems(1) by (auto simp: clock_after_def split: option.splits)
  with Cons aligned_exec [OF Cons.prems(2) c(1)] show ?case by (simp add: run_def)
qed simp

lemma iadd_zero: "iadd 0 (iadd a b) = iadd a b"
  using wrap64_id [OF iadd_range [of a b]] by (simp add: iadd_def)

lemma ordered_snoc:
  "ordered_from c (evs @ [EvReserve t est now]) \<longleftrightarrow>
     ordered_from c evs \<and> fold (\<lambda>ev c. clock_after c ev) evs c \<le> now"
  by (induction evs arbitrary: c) (auto simp: clock_after_def split: option.splits)

lemma run_aligned:
  assumes "ordered_from c (evs @ [EvReserve t est now])"
  shows "aligned now (run evs (new_book lims))"
proof -
  have "aligned (fold (\<lambda>ev c. clock_after c ev) evs c) (run evs (new_book lims))"
    using assms by (intro run_aligned_from) (auto simp: ordered_snoc aligned_def new_book_def NewEnforcer_def)
  with assms show ?thesis by (fastforce simp: aligned_def ordered_snoc)
qed

section \<open>Terminal reservations\<close>

text \<open>The steps other requests may take in between.\<close>

inductive enforcer_step :: "mem_enforcer \<Rightarrow> mem_enforcer \<Rightarrow> bool" where
  reserve: "enforcer_step e (snd (Reserve e now t est))"
| settle: "enforcer_step e (snd (Settle_locked e now r u usd))"
| release: "enforcer_step e (snd (Release e now r))"
| spent: "enforcer_step e (snd (Spent e t now))"
| committed: "enforcer_step e (snd (Committed e t now))"
| persist: "enforcer_step e (fst (snd (persist (\<lambda>db row. (outcome, db)) e () row n)))"

inductive_cases enforcer_stepE: "enforcer_step e e'"

lemma Reserve_settled: "settled (snd (Reserve e now t est)) = settled e"
  using Reserve_denies [of e now t est] Reserve_admits(3) [of e now t est]
  by (cases "Reserve e now t est"; cases "fst (Reserve e now t est)") fastforce+

lemma enforcer_step_settled:
  assumes "enforcer_step e e'"
  shows "settled e \<subseteq> settled e'"
  using assms
proof cases
  case (reserve now t est)
  then show ?thesis by (simp add: Reserve_settled)
next
  case (settle now r u usd)
  then show ?thesis by (auto simp: Settle_locked_def Let_def split: option.splits)
next
  case (release now r)
  then show ?thesis by (auto simp: Release_def Let_def split: option.splits)
next
  case (persist outcome row n)
  then show ?thesis by (auto simp: persist_def SetStoreHealthy_def split: option.splits prod.splits)
qed (simp_all add: Spent_def Committed_def Let_def)

lemma enforcer_steps_settled: "enforcer_step\<^sup>*\<^sup>* e e' \<Longrightarrow> settled e \<subseteq> settled e'"
  by (induction rule: rtranclp_induct) (auto dest: enforcer_step_settled)

section \<open>Properties\<close>

text \<open>(C2) The overshoot bound, for the daily and for the monthly cap: over every run from a new enforcer,
  what a tenant has spent in the window plus what its running requests have claimed stays within the cap
  plus the amount by which the settlements since its last admission exceeded their estimates, up to the
  rounding of the additions performed (at most \<open>2 ^ (m - 54)\<close> USD per event while amounts stay below
  \<open>2 ^ m\<close> USD). The settlements since the last admission are requests that were running at that
  admission, which is the bound the package promises.\<close>

theorem overshoot_is_bounded:
  assumes "(spent, cap) = (dailySpent, DailyUSD) \<or> (spent, cap) = (monthlySpent, MonthlyUSD)"
    and "lims t = Some l" "0 < cap l" "cap l < 2 powi m" "- 1000 \<le> m"
    and "\<forall>ev \<in> set evs. event_ok ev" "length evs < 2 ^ 64"
    and "\<forall>k \<le> length evs. spent_of spent (run (take k evs) (new_book lims)) t < 2 powi m"
    and "b = run evs (new_book lims)"
  shows "spent_of spent b t + outstanding t (b_held b)
           \<le> cap l + b_excess b t + of_nat (length evs + 2) * 2 powi (m - 54)"
  using assms(1) daily.overshoot [OF assms(2) _ _ assms(5-7) _ assms(9)]
    monthly.overshoot [OF assms(2) _ _ assms(5-7) _ assms(9)] assms(3,4,8) by auto

text \<open>(C26) The request cap bounds every minute: over any run with a clock that never runs backwards, and
  wherever the minute starts, a tenant is admitted at most twice its requests per minute in it, since a
  minute overlaps at most two of the fixed windows the counter uses.\<close>

theorem request_rate_is_bounded:
  assumes "lims t = Some l" "0 < RequestsPerMinute l" "int64_ok (RequestsPerMinute l)"
    and "ordered_from c evs" "length evs < 2 ^ 64"
  shows "admissions t a (a + rateWindow) (b_admitted (run evs (new_book lims))) \<le> 2 * RequestsPerMinute l"
proof -
  have "rate_ok (RequestsPerMinute l) c t (new_book lims)" "ids_ok 0 (new_book lims)"
    "e_limits (b_enf (new_book lims)) t = Some l"
    using assms(1,2) by (simp_all add: rate_ok_def ids_ok_def new_book_def NewEnforcer_def)
  then obtain c' where "rate_ok (RequestsPerMinute l) c' t (run evs (new_book lims))"
    using run_rate_ok [OF assms(4) _ _ _ assms(2,3) _ refl, of 0 "new_book lims" t] assms(5) by auto
  then show ?thesis by (simp add: rate_ok_def)
qed

text \<open>(C19) A reservation is terminal once: after a settlement, and whatever other requests do in between,
  settling or releasing the same reservation again reports success and changes nothing, so no request is
  billed twice and no claim is returned twice.\<close>

theorem settlement_is_final:
  assumes "Settle_locked e now (Some r) u usd = (x, e1)" "enforcer_step\<^sup>*\<^sup>* e1 e2"
  shows "Settle_locked e2 now' (Some r) u' usd' = (Inr None, e2) \<and> Release e2 now' (Some r) = (None, e2)"
proof -
  have "res_ID r \<in> settled e1" using assms(1) by (auto simp: Settle_locked_def Let_def split: if_splits)
  then have "res_ID r \<in> settled e2" using enforcer_steps_settled [OF assms(2)] by blast
  then show ?thesis by (simp add: Settle_locked_def Release_def)
qed

text \<open>Running requests never share a reservation: until the 64 bit counter wraps, the reservations
  held at any moment of any run have distinct identities and none of them has been settled or released.\<close>

theorem reservations_are_distinct:
  assumes "length evs < 2 ^ 64"
  shows "distinct (map res_ID (b_held (run evs (new_book lims))))
       \<and> (\<forall>r \<in> set (b_held (run evs (new_book lims))). res_ID r \<notin> settled (b_enf (run evs (new_book lims))))"
  using run_ids [OF assms, of lims] by (simp add: ids_ok_def)


section \<open>Witnesses\<close>

definition demo_limits :: "tenant_id \<rightharpoonup> limits" where
  "demo_limits = [''acme'' \<mapsto> \<lparr>RequestsPerMinute = 1, TokensPerMinute = 5000, DailyUSD = 10, MonthlyUSD = 100,
     FailClosed = True\<rparr>]"

definition demo_est :: estimate where
  "demo_est = \<lparr>est_PromptTokens = 100, est_CompletionTokens = 400, est_USD = 4\<rparr>"

definition demo_events :: "event list" where
  "demo_events = [EvReserve ''acme'' demo_est 1000,
     EvSettle 0 \<lparr>PromptTokens = 100, CompletionTokens = 600, TotalTokens = 700\<rparr> 5 2000]"

definition demo_reservation :: reservation where
  "demo_reservation = \<lparr>res_Tenant = ''acme'', res_Estimate = demo_est, IssuedAt = 1000, res_ID = ''1''\<rparr>"

lemma demo_arith: "fadd 0 0 = 0" "fadd 0 4 = 4" "fadd 0 5 = 5" "fsub 4 4 = 0"
  by code_simp+

lemma demo_claim: "iadd 0 1 = 1" "iadd 0 500 = 500" "char_of (49 :: nat) = CHR ''1''" "iadd 100 400 = 500" "isub 700 500 = 200" "iadd 500 200 = 700"
  by code_simp+

lemma demo_reserve: "Reserve (NewEnforcer demo_limits) 1000 ''acme'' demo_est = (Inr demo_reservation,
    (NewEnforcer demo_limits)\<lparr>e_state := [''acme'' \<mapsto> (fresh_state 1000)\<lparr>committed := 4, requests := 1, tokens := 500\<rparr>],
      nextID := 1\<rparr>)"
  by (simp add: Reserve_def NewEnforcer_def demo_limits_def checkRates_def checkBudgets_def stateFor_def
      fresh_state_def touch_def store_state_def claim_def wanted_tokens_def demo_est_def demo_reservation_def
      demo_arith demo_claim Let_def wrap_u64_def FormatUint.simps digit_char_def)

lemma demo_exec: "exec (EvReserve ''acme'' demo_est 1000) (new_book demo_limits) =
    \<lparr>b_enf = (NewEnforcer demo_limits)\<lparr>e_state := [''acme'' \<mapsto> (fresh_state 1000)\<lparr>committed := 4, requests := 1, tokens := 500\<rparr>],
       nextID := 1\<rparr>, b_held = [demo_reservation], b_excess = (\<lambda>_. 0), b_admitted = [(''acme'', 1000)]\<rparr>"
  by (simp add: new_book_def demo_reserve fun_upd_idem)

lemma demo_run: "e_state (b_enf (run demo_events (new_book demo_limits))) ''acme''
    = Some ((fresh_state 1000)\<lparr>dailySpent := 5, monthlySpent := 5, requests := 1, tokens := 700\<rparr>)"
    "b_held (run demo_events (new_book demo_limits)) = []"
    "b_excess (run demo_events (new_book demo_limits)) ''acme'' = 1"
  by (simp_all add: demo_events_def run_def demo_exec Let_def Settle_locked_def del: exec.simps(1))
    (simp_all add: demo_reservation_def demo_est_def stateFor_def fresh_state_def rollDaily_def rollMonthly_def
      rollRequests_def rollTokens_def time_Sub_def sat64_def window_defs bill_def unclaim_def
      reconcileTokens_def wanted_tokens_def demo_arith demo_claim drop_nth_def)

lemma demo_below: "\<forall>k \<le> length demo_events. spent_of dailySpent (run (take k demo_events) (new_book demo_limits)) ''acme'' < 2 powi 10"
proof (intro allI impI)
  fix k assume "k \<le> length demo_events"
  then consider "k = 0" | "k = 1" | "k = 2" by (auto simp: demo_events_def le_Suc_eq)
  then show "spent_of dailySpent (run (take k demo_events) (new_book demo_limits)) ''acme'' < 2 powi 10"
  proof cases
    case 1
    then show ?thesis by (simp add: spent_of_def new_book_def NewEnforcer_def)
  next
    case 2
    then show ?thesis
      by (simp add: spent_of_def new_book_def demo_events_def run_def demo_reserve) (simp add: fresh_state_def)
  next
    case 3
    then have "take k demo_events = demo_events" by (simp add: demo_events_def)
    then show ?thesis by (simp add: spent_of_def demo_run)
  qed
qed

lemma overshoot_is_bounded_witness:
  "spent_of dailySpent (run demo_events (new_book demo_limits)) ''acme''
     \<le> 10 + b_excess (run demo_events (new_book demo_limits)) ''acme'' + 4 * 2 powi (10 - 54)"
proof -
  let ?l = "\<lparr>RequestsPerMinute = 1, TokensPerMinute = 5000, DailyUSD = 10, MonthlyUSD = 100, FailClosed = True\<rparr>"
  have "spent_of dailySpent (run demo_events (new_book demo_limits)) ''acme''
      + outstanding ''acme'' (b_held (run demo_events (new_book demo_limits)))
      \<le> DailyUSD ?l + b_excess (run demo_events (new_book demo_limits)) ''acme''
        + of_nat (length demo_events + 2) * 2 powi (10 - 54)"
    by (rule overshoot_is_bounded [where spent = dailySpent and cap = DailyUSD and m = 10 and lims = demo_limits,
          OF _ _ _ _ _ _ _ demo_below refl])
      (auto simp: demo_limits_def demo_events_def demo_est_def power_int_def)
  moreover have "length demo_events = 2" by (simp add: demo_events_def)
  ultimately show ?thesis by (simp add: demo_run)
qed

lemma request_rate_is_bounded_witness:
  "admissions ''acme'' 0 (0 + rateWindow) (b_admitted (run demo_events (new_book demo_limits))) \<le> 2"
  using request_rate_is_bounded [of demo_limits "''acme''" _ 0 demo_events 0]
  by (simp add: demo_limits_def int64_ok_def demo_events_def)

lemma settlement_is_final_witness:
  "Release (snd (Settle_locked (NewEnforcer demo_limits) 2000 (Some demo_reservation) zero_usage 5)) 3000 (Some demo_reservation)
     = (None, snd (Settle_locked (NewEnforcer demo_limits) 2000 (Some demo_reservation) zero_usage 5))"
  by (rule conjunct2 [OF settlement_is_final [OF prod.collapse [symmetric] rtranclp.rtrancl_refl]])

lemma reservations_are_distinct_witness:
  "distinct (map res_ID (b_held (run demo_events (new_book demo_limits))))"
  using reservations_are_distinct [of demo_events demo_limits] by (simp add: demo_events_def)

lemma demo_denied: "Reserve (b_enf (run demo_events (new_book demo_limits))) 3000 ''acme'' demo_est
    = (Inl \<lparr>Reason = DenyRequestRate, RetryAfter = 59999998000,
         Message = ''tenant is limited to '' @ Itoa 1 @ '' requests per minute''\<rparr>,
       touch (b_enf (run demo_events (new_book demo_limits))) ''acme'' 3000)"
proof -
  have "stateFor (b_enf (run demo_events (new_book demo_limits))) ''acme'' 3000
      = (fresh_state 1000)\<lparr>dailySpent := 5, monthlySpent := 5, requests := 1, tokens := 700\<rparr>"
    by (simp add: stateFor_def demo_run fresh_state_def rollDaily_def rollMonthly_def rollRequests_def
        rollTokens_def time_Sub_def sat64_def window_defs)
  moreover have "healthy (b_enf (run demo_events (new_book demo_limits)))"
    by (simp add: demo_events_def run_def demo_exec Let_def Settle_locked_def del: exec.simps(1))
  ultimately show ?thesis
    by (simp add: Reserve_def run_limits demo_limits_def checkRates_def fresh_state_def remainingIn_def
        time_Sub_def sat64_def isub_def wrap64_def window_defs Let_def)
qed


end
