(* ===== verification/Budget_Store.thy ===== *)
theory Budget_Store
  imports Budget_Enforcer
begin

text \<open>
  The durable mirror of settled totals: the SQLite store (\<^verbatim>\<open>src/internal/budget/sqlitestore.go\<close>) and
  the ordering protocol of \<^verbatim>\<open>persist\<close> (\<^verbatim>\<open>enforcer.go\<close>). The database driver is outside the
  repository: the outcome of each of its calls is an argument, a call that reports an error leaves the
  table as it was, and the table is the list of rows its primary key keeps distinct. What the enforcer
  relies on is the interface \<open>spend_store\<close>, interpreted on the SQLite model; inside it every
  interleaving of settlements, durable writes and admissions is covered by one step relation.
\<close>

section \<open>The SQLite store\<close>

definition schemaVersion :: goint where "schemaVersion = 1"

text \<open>Instants count from Go's zero time, so the Unix epoch is 1 January 1970 on that scale.\<close>

definition unixEpoch :: instant where "unixEpoch = 62135596800 * Second"

definition UnixNano :: "instant \<Rightarrow> goint" where "UnixNano t = wrap64 (t - unixEpoch)"

definition time_Unix :: "goint \<Rightarrow> instant" where "time_Unix n = n + unixEpoch"

record sql_row =
  sql_tenant :: string
  sql_daily_usd :: float64
  sql_daily_start :: goint
  sql_monthly_usd :: float64
  sql_monthly_start :: goint
  sql_updated_at :: goint

text \<open>A store file: what the integrity check answers, the schema version and the table once created.\<close>

record sqlite_file =
  integrity :: string
  user_version :: goint
  tenant_spend :: "sql_row list option"

text \<open>The outcomes of the driver calls that opening makes, in order.\<close>

record open_outcomes =
  io_open :: "err option"
  io_ping :: "err option"
  io_integrity :: "err option"
  io_version :: "err option"
  io_begin :: "err option"
  io_create :: "err option"
  io_set_version :: "err option"
  io_commit :: "err option"
  io_prepare :: "err option"

definition checkIntegrity :: "open_outcomes \<Rightarrow> string \<Rightarrow> sqlite_file \<Rightarrow> err option" where
  "checkIntegrity io path f = (case io_integrity io of
       Some x \<Rightarrow> Some (WrapErr (''integrity check on '' @ path @ '': '') x)
     | None \<Rightarrow> if integrity f \<noteq> ''ok''
         then Some (OtherErr (''budget store at '' @ path @ '' failed its integrity check ('' @ integrity f
                @ ''); move it aside to start with clean counters, which restarts every tenant's window from zero''))
         else None)"

definition migrate0to1 :: "sqlite_file \<Rightarrow> sqlite_file" where
  "migrate0to1 f = f\<lparr>tenant_spend := (case tenant_spend f of None \<Rightarrow> Some [] | Some rows \<Rightarrow> Some rows)\<rparr>"

text \<open>\<^verbatim>\<open>migrate\<close>: with one migration the loop body runs for a version of 0. A negative version indexes the
  migration list out of range, which panics.\<close>

datatype migrate_result = Migrated sqlite_file | MigrateError err | MigratePanic

definition migrate :: "open_outcomes \<Rightarrow> string \<Rightarrow> sqlite_file \<Rightarrow> migrate_result" where
  "migrate io path f = (case io_version io of
       Some x \<Rightarrow> MigrateError (WrapErr (''read schema version of '' @ path @ '': '') x)
     | None \<Rightarrow>
         if schemaVersion < user_version f
         then MigrateError (OtherErr (''budget store at '' @ path @ '' is schema version '' @ Itoa (user_version f)
                @ '', this binary understands '' @ Itoa schemaVersion))
         else if user_version f = schemaVersion then Migrated f
         else (case io_begin io of
             Some x \<Rightarrow> MigrateError (WrapErr (''begin migration '' @ Itoa (user_version f + 1) @ '': '') x)
           | None \<Rightarrow>
               if user_version f < 0 then MigratePanic
               else (case io_create io of
                   Some x \<Rightarrow> MigrateError (WrapErr (''migration 1 on '' @ path @ '': '') x)
                 | None \<Rightarrow> (case io_set_version io of
                       Some x \<Rightarrow> MigrateError (WrapErr (''set schema version 1 on '' @ path @ '': '') x)
                     | None \<Rightarrow> (case io_commit io of
                           Some x \<Rightarrow> MigrateError (WrapErr ''commit migration 1: '' x)
                         | None \<Rightarrow> Migrated ((migrate0to1 f)\<lparr>user_version := 1\<rparr>))))))"

definition OpenSQLiteStore :: "open_outcomes \<Rightarrow> string \<Rightarrow> sqlite_file \<Rightarrow> migrate_result" where
  "OpenSQLiteStore io path f = (case io_open io of
       Some x \<Rightarrow> MigrateError (WrapErr (''open '' @ path @ '': '') x)
     | None \<Rightarrow> (case io_ping io of
         Some x \<Rightarrow> MigrateError (WrapErr (''open '' @ path @ '': '') x)
       | None \<Rightarrow> (case checkIntegrity io path f of
           Some x \<Rightarrow> MigrateError x
         | None \<Rightarrow> (case migrate io path f of
             Migrated f' \<Rightarrow> (case io_prepare io of
                 Some x \<Rightarrow> MigrateError (WrapErr ''prepare upsert: '' x)
               | None \<Rightarrow> Migrated f')
           | r \<Rightarrow> r))))"

fun upsert :: "sql_row \<Rightarrow> sql_row list \<Rightarrow> sql_row list" where
  "upsert r [] = [r]"
| "upsert r (x # xs) = (if sql_tenant x = sql_tenant r then r # xs else x # upsert r xs)"

definition to_sql :: "spend_row \<Rightarrow> sql_row" where
  "to_sql row = \<lparr>sql_tenant = row_Tenant row, sql_daily_usd = row_DailyUSD row,
     sql_daily_start = UnixNano (row_DailyStart row), sql_monthly_usd = row_MonthlyUSD row,
     sql_monthly_start = UnixNano (row_MonthlyStart row), sql_updated_at = UnixNano (row_DailyStart row)\<rparr>"

definition of_sql :: "sql_row \<Rightarrow> spend_row" where
  "of_sql r = \<lparr>row_Tenant = sql_tenant r, row_DailyUSD = sql_daily_usd r, row_MonthlyUSD = sql_monthly_usd r,
     row_DailyStart = time_Unix (sql_daily_start r), row_MonthlyStart = time_Unix (sql_monthly_start r)\<rparr>"

text \<open>\<^verbatim>\<open>Save\<close> and \<^verbatim>\<open>Load\<close>. The store carries the outcomes its next writes will have, so that one store
  value stands for a database that may fail at any write; when none are left writes succeed.\<close>

type_synonym sqlite_store = "err option list \<times> sql_row list"

definition SQLite_Save :: "sqlite_store \<Rightarrow> spend_row \<Rightarrow> err option \<times> sqlite_store" where
  "SQLite_Save s row = (case s of (outs, rows) \<Rightarrow>
     (case outs of
        Some x # outs' \<Rightarrow> (Some (WrapErr (''save tenant '' @ Quote (row_Tenant row) @ '': '') x), (outs', rows))
      | _ \<Rightarrow> (None, (tl outs, upsert (to_sql row) rows))))"

definition SQLite_Load :: "err option \<Rightarrow> sqlite_store \<Rightarrow> err + spend_row list" where
  "SQLite_Load io s = (case io of
       Some x \<Rightarrow> Inl (WrapErr ''load tenant spend: '' x)
     | None \<Rightarrow> Inr (map of_sql (snd s)))"

section \<open>The interface of a store\<close>

definition row_of :: "spend_row list \<Rightarrow> tenant_id \<Rightarrow> spend_row option" where
  "row_of rows t = find (\<lambda>r. row_Tenant r = t) rows"

text \<open>The steps of a running gateway with a store: settlements hand a snapshot to \<^verbatim>\<open>persist\<close>, which runs
  later and in any order; everything else may happen in between. \<open>d_hist\<close> records the snapshots a tenant
  produced, \<open>d_failed\<close> the tenants that lost a write, \<open>d_clock\<close> the clock, which never runs backwards.\<close>

record 's durable =
  d_enf :: mem_enforcer
  d_db :: 's
  d_pending :: "(spend_row \<times> nat) list"
  d_hist :: "tenant_id \<Rightarrow> spend_row list"
  d_failed :: "tenant_id set"
  d_clock :: instant

inductive durable_step ::
  "('s \<Rightarrow> spend_row \<Rightarrow> err option \<times> 's) \<Rightarrow> 's durable \<Rightarrow> 's durable \<Rightarrow> bool" for save where
  reserve: "d_clock d \<le> now \<Longrightarrow>
     durable_step save d (d\<lparr>d_enf := snd (Reserve (d_enf d) now t est), d_clock := now\<rparr>)"
| settle: "d_clock d \<le> now \<Longrightarrow> Settle_locked (d_enf d) now (Some r) u usd = (Inr (Some (row, n)), e) \<Longrightarrow>
     durable_step save d (d\<lparr>d_enf := e, d_pending := (row, n) # d_pending d,
       d_hist := (d_hist d)(res_Tenant r := d_hist d (res_Tenant r) @ [row]), d_clock := now\<rparr>)"
| settle_again: "d_clock d \<le> now \<Longrightarrow> Settle_locked (d_enf d) now r u usd = (Inr None, e) \<Longrightarrow>
     durable_step save d (d\<lparr>d_enf := e, d_clock := now\<rparr>)"
| release: "d_clock d \<le> now \<Longrightarrow>
     durable_step save d (d\<lparr>d_enf := snd (Release (d_enf d) now r), d_clock := now\<rparr>)"
| query: "d_clock d \<le> now \<Longrightarrow> durable_step save d (d\<lparr>d_enf := snd (Spent (d_enf d) t now), d_clock := now\<rparr>)"
| durable_write: "(row, n) \<in> set (d_pending d) \<Longrightarrow> persist save (d_enf d) (d_db d) row n = (res, e, db) \<Longrightarrow>
     durable_step save d (d\<lparr>d_enf := e, d_db := db, d_pending := remove1 (row, n) (d_pending d),
       d_failed := (if res = None then d_failed d else insert (row_Tenant row) (d_failed d))\<rparr>)"

inductive_cases durable_stepE: "durable_step save d d'"

text \<open>A start on a store: the enforcer restored from what \<open>load\<close> returns.\<close>

definition durable_start :: "mem_enforcer \<Rightarrow> 's \<Rightarrow> instant \<Rightarrow> 's durable" where
  "durable_start e db now = \<lparr>d_enf = e, d_db = db, d_pending = [], d_hist = (\<lambda>_. []), d_failed = {}, d_clock = now\<rparr>"

section \<open>Ordered writes\<close>

text \<open>What a store promises: it holds at most one row per tenant; a successful save replaces the row of its
  tenant and no other; a failed save changes nothing. Rows are the ones whose instants the store can
  represent.\<close>

locale spend_store =
  fixes save :: "'s \<Rightarrow> spend_row \<Rightarrow> err option \<times> 's"
    and load :: "'s \<Rightarrow> spend_row list"
    and storable :: "spend_row \<Rightarrow> bool"
    and wf :: "'s \<Rightarrow> bool"
  assumes save_wf: "wf db \<Longrightarrow> wf (snd (save db row))"
    and wf_distinct: "wf db \<Longrightarrow> distinct (map row_Tenant (load db))"
    and save_replaces: "storable row \<Longrightarrow> save db row = (None, db') \<Longrightarrow>
      row_of (load db') (row_Tenant row) = Some row"
    and save_other: "save db row = (None, db') \<Longrightarrow> t \<noteq> row_Tenant row \<Longrightarrow>
      row_of (load db') t = row_of (load db) t"
    and save_fails: "save db row = (Some x, db') \<Longrightarrow> load db' = load db"
begin

text \<open>How the memory of a tenant relates to its newest snapshot: a window either still holds the
  snapshot's total, or it has been cleared because the snapshot's window is over.\<close>

definition linked :: "instant \<Rightarrow> tenant_state \<Rightarrow> spend_row \<Rightarrow> bool" where
  "linked c st row \<longleftrightarrow>
     ((dailySpent st = row_DailyUSD row \<and> dailyStart st = row_DailyStart row)
        \<or> (dailySpent st = 0 \<and> dailyWindow \<le> time_Sub c (row_DailyStart row)))
     \<and> ((monthlySpent st = row_MonthlyUSD row \<and> monthlyStart st = row_MonthlyStart row)
        \<or> (monthlySpent st = 0 \<and> monthlyWindow \<le> time_Sub c (row_MonthlyStart row)))"

definition seq_ok :: "'s durable \<Rightarrow> tenant_id \<Rightarrow> bool" where
  "seq_ok d t \<longleftrightarrow> seq (d_enf d) t = length (d_hist d t) \<and> written (d_enf d) t \<le> length (d_hist d t)
     \<and> (\<forall>row \<in> set (d_hist d t). row_Tenant row = t)"

definition pending_ok :: "'s durable \<Rightarrow> tenant_id \<Rightarrow> bool" where
  "pending_ok d t \<longleftrightarrow> (\<forall>row n. (row, n) \<in> set (d_pending d) \<longrightarrow> row_Tenant row = t \<longrightarrow>
     1 \<le> n \<and> n \<le> length (d_hist d t) \<and> row = d_hist d t ! (n - 1))"

definition stored_ok :: "'s \<Rightarrow> 's durable \<Rightarrow> tenant_id \<Rightarrow> bool" where
  "stored_ok db0 d t \<longleftrightarrow> row_of (load (d_db d)) t = (if written (d_enf d) t = 0 then row_of (load db0) t
     else Some (d_hist d t ! (written (d_enf d) t - 1)))"

definition newest_ok :: "'s durable \<Rightarrow> tenant_id \<Rightarrow> bool" where
  "newest_ok d t \<longleftrightarrow> d_hist d t = [] \<or> written (d_enf d) t = length (d_hist d t) \<or> t \<in> d_failed d
     \<or> (last (d_hist d t), length (d_hist d t)) \<in> set (d_pending d)"

definition memory_ok :: "'s durable \<Rightarrow> tenant_id \<Rightarrow> bool" where
  "memory_ok d t \<longleftrightarrow> (d_hist d t \<noteq> [] \<longrightarrow>
     (\<exists>st. e_state (d_enf d) t = Some st \<and> linked (d_clock d) st (last (d_hist d t))))"

definition ordered_for :: "'s \<Rightarrow> 's durable \<Rightarrow> tenant_id \<Rightarrow> bool" where
  "ordered_for db0 d t \<longleftrightarrow> seq_ok d t \<and> pending_ok d t \<and> stored_ok db0 d t \<and> newest_ok d t \<and> memory_ok d t"

lemmas ordered_defs = ordered_for_def seq_ok_def pending_ok_def stored_ok_def newest_ok_def memory_ok_def

definition durable_inv :: "'s \<Rightarrow> 's durable \<Rightarrow> bool" where
  "durable_inv db0 d \<longleftrightarrow> wf (d_db d) \<and> (\<forall>t. length (d_hist d t) < 2 ^ 64 \<and> (\<forall>row \<in> set (d_hist d t). storable row)
      \<longrightarrow> ordered_for db0 d t)"

lemma time_Sub_mono: "c \<le> c' \<Longrightarrow> time_Sub c u \<le> time_Sub c' u"
  by (simp add: time_Sub_def sat64_def)

lemma linked_roll:
  assumes "linked c st row" "c \<le> now"
  shows "linked now (rollTokens now (rollRequests now (rollMonthly now (rollDaily now st)))) row"
  using assms time_Sub_mono [OF assms(2), of "row_DailyStart row"] time_Sub_mono [OF assms(2), of "row_MonthlyStart row"]
  by (auto simp: linked_def rollDaily_def rollMonthly_def)

lemma linked_cong:
  "dailySpent st' = dailySpent st \<Longrightarrow> dailyStart st' = dailyStart st \<Longrightarrow> monthlySpent st' = monthlySpent st
     \<Longrightarrow> monthlyStart st' = monthlyStart st \<Longrightarrow> linked c st' row = linked c st row"
  by (simp add: linked_def)

lemma linked_later: "linked c st row \<Longrightarrow> c \<le> now \<Longrightarrow> linked now st row"
  using time_Sub_mono [of c now "row_DailyStart row"] time_Sub_mono [of c now "row_MonthlyStart row"]
  by (auto simp: linked_def)

text \<open>Steps that touch only the counters of one tenant.\<close>

lemma ordered_touch:
  assumes "ordered_for db0 d t" "d_clock d \<le> now"
    and e: "seq e = seq (d_enf d)" "written e = written (d_enf d)"
      "e_state e = e_state (d_enf d) \<or> (\<exists>q st'. e_state e = (e_state (d_enf d))(q \<mapsto> st')
         \<and> dailySpent st' = dailySpent (stateFor (d_enf d) q now) \<and> dailyStart st' = dailyStart (stateFor (d_enf d) q now)
         \<and> monthlySpent st' = monthlySpent (stateFor (d_enf d) q now)
         \<and> monthlyStart st' = monthlyStart (stateFor (d_enf d) q now))"
  shows "ordered_for db0 (d\<lparr>d_enf := e, d_clock := now\<rparr>) t"
proof -
  have "\<exists>st'. e_state e t = Some st' \<and> linked now st' row"
    if "e_state (d_enf d) t = Some st" "linked (d_clock d) st row" for st row
    using e(3)
  proof
    assume "e_state e = e_state (d_enf d)"
    with that assms(2) linked_later show ?thesis by auto
  next
    assume "\<exists>q st'. e_state e = (e_state (d_enf d))(q \<mapsto> st')
         \<and> dailySpent st' = dailySpent (stateFor (d_enf d) q now) \<and> dailyStart st' = dailyStart (stateFor (d_enf d) q now)
         \<and> monthlySpent st' = monthlySpent (stateFor (d_enf d) q now)
         \<and> monthlyStart st' = monthlyStart (stateFor (d_enf d) q now)"
    then obtain q st' where q: "e_state e = (e_state (d_enf d))(q \<mapsto> st')"
      "dailySpent st' = dailySpent (stateFor (d_enf d) q now)" "dailyStart st' = dailyStart (stateFor (d_enf d) q now)"
      "monthlySpent st' = monthlySpent (stateFor (d_enf d) q now)"
      "monthlyStart st' = monthlyStart (stateFor (d_enf d) q now)" by blast
    show ?thesis
    proof (cases "q = t")
      case True
      have "linked now (stateFor (d_enf d) t now) row"
        using linked_roll [OF that(2) assms(2)] that(1) by (simp add: stateFor_def)
      with True q linked_cong [OF q(2-5)] show ?thesis by auto
    qed (use q that assms(2) linked_later in auto)
  qed
  with assms(1) e(1,2) show ?thesis by (auto simp: ordered_defs)
qed

lemma ordered_settle:
  assumes o: "ordered_for db0 d t" and len: "length (d_hist d t) + 1 < 2 ^ 64"
    and own: "res_Tenant r = t"
    and s: "Settle_locked (d_enf d) now (Some r) u usd = (Inr (Some (row, n)), e)" "d_clock d \<le> now"
  shows "ordered_for db0 (d\<lparr>d_enf := e, d_pending := (row, n) # d_pending d,
       d_hist := (d_hist d)(res_Tenant r := d_hist d (res_Tenant r) @ [row]), d_clock := now\<rparr>) t"
proof -
  let ?q = "res_Tenant r"
  define st' where "st' = bill (stateFor (d_enf d) ?q now) (res_Estimate r) u usd"
  have e: "row = snapshot ?q st'" "n = wrap_u64 (seq (d_enf d) ?q + 1)" "e_state e = (e_state (d_enf d))(?q \<mapsto> st')"
    "seq e = (seq (d_enf d))(?q := n)" "written e = written (d_enf d)"
    using s(1) by (auto simp: Settle_locked_def Let_def st'_def split: if_splits)
  have row: "row_Tenant row = ?q" by (simp add: e(1) snapshot_def)
  let ?d = "d\<lparr>d_enf := e, d_pending := (row, n) # d_pending d,
       d_hist := (d_hist d)(?q := d_hist d ?q @ [row]), d_clock := now\<rparr>"
  have n: "n = length (d_hist d t) + 1"
    using o len own unfolding e(2) by (subst wrap_u64_id) (auto simp: ordered_defs)
  have "seq_ok ?d t" "newest_ok ?d t" "memory_ok ?d t"
    using o own n row e by (auto simp: ordered_defs linked_def snapshot_def)
  moreover have "pending_ok ?d t"
    unfolding pending_ok_def
  proof (intro allI impI)
    fix row' k assume k: "(row', k) \<in> set (d_pending ?d)" "row_Tenant row' = t"
    show "1 \<le> k \<and> k \<le> length (d_hist ?d t) \<and> row' = d_hist ?d t ! (k - 1)"
    proof (cases "(row', k) = (row, n)")
      case False
      then have "1 \<le> k \<and> k \<le> length (d_hist d t) \<and> row' = d_hist d t ! (k - 1)"
        using k o by (auto simp: ordered_for_def pending_ok_def)
      then show ?thesis using own by (auto simp: nth_append)
    qed (use own n in \<open>simp add: nth_append\<close>)
  qed
  moreover have "stored_ok db0 ?d t"
    using o own e(5) unfolding ordered_for_def stored_ok_def seq_ok_def by (auto simp: nth_append)
  ultimately show ?thesis by (simp add: ordered_for_def)
qed

lemma ordered_settle_other:
  assumes o: "ordered_for db0 d t" and t: "res_Tenant r \<noteq> t"
    and s: "Settle_locked (d_enf d) now (Some r) u usd = (Inr (Some (row, n)), e)" "d_clock d \<le> now"
  shows "ordered_for db0 (d\<lparr>d_enf := e, d_pending := (row, n) # d_pending d,
       d_hist := (d_hist d)(res_Tenant r := d_hist d (res_Tenant r) @ [row]), d_clock := now\<rparr>) t"
proof -
  let ?d = "d\<lparr>d_enf := e, d_pending := (row, n) # d_pending d,
       d_hist := (d_hist d)(res_Tenant r := d_hist d (res_Tenant r) @ [row]), d_clock := now\<rparr>"
  have e: "row_Tenant row \<noteq> t" "e_state e t = e_state (d_enf d) t" "seq e t = seq (d_enf d) t" "written e = written (d_enf d)"
    using s(1) t by (auto simp: Settle_locked_def Let_def snapshot_def split: if_splits)
  have "memory_ok ?d t" using o t e(2) linked_later [OF _ s(2)] by (auto simp: ordered_defs)
  moreover have "pending_ok ?d t" using o t e(1) by (auto simp: ordered_defs)
  ultimately show ?thesis using o t e(3,4) by (auto simp: ordered_defs)
qed

lemma ordered_write:
  assumes o: "ordered_for db0 d t" and st: "\<forall>row \<in> set (d_hist d t). storable row"
    and p: "(row, n) \<in> set (d_pending d)" "persist save (d_enf d) (d_db d) row n = (res, e, db)"
  shows "ordered_for db0 (d\<lparr>d_enf := e, d_db := db, d_pending := remove1 (row, n) (d_pending d),
       d_failed := (if res = None then d_failed d else insert (row_Tenant row) (d_failed d))\<rparr>) t"
proof -
  have mem: "x \<in> set (remove1 (row, n) (d_pending d)) \<Longrightarrow> x \<in> set (d_pending d)"
    "x \<in> set (d_pending d) \<Longrightarrow> x = (row, n) \<or> x \<in> set (remove1 (row, n) (d_pending d))" for x
    using set_remove1_subset [of "(row, n)" "d_pending d"] in_set_remove1 [of x "(row, n)" "d_pending d"] by blast+
  have own: "1 \<le> n \<and> n \<le> length (d_hist d t) \<and> row = d_hist d t ! (n - 1) \<and> storable row"
    if "row_Tenant row = t"
  proof -
    have b: "1 \<le> n" "n \<le> length (d_hist d t)" "row = d_hist d t ! (n - 1)"
      using o p(1) that by (auto simp: ordered_defs)
    moreover from this have "row \<in> set (d_hist d t)" by simp
    ultimately show ?thesis using st by blast
  qed
  have last_own: "row_Tenant row = t \<and> n = length (d_hist d t)"
    if "(last (d_hist d t), length (d_hist d t)) = (row, n)" "d_hist d t \<noteq> []"
    using that o unfolding ordered_for_def seq_ok_def by (metis Pair_inject last_in_set)
  have newest: "d_hist d t = [] \<or> written (d_enf d) t = length (d_hist d t) \<or> t \<in> d_failed d
      \<or> (row_Tenant row = t \<and> n = length (d_hist d t))
      \<or> (last (d_hist d t), length (d_hist d t)) \<in> set (remove1 (row, n) (d_pending d))"
    using o last_own mem(2) [of "(last (d_hist d t), length (d_hist d t))"]
    unfolding ordered_for_def newest_ok_def by blast
  have wle: "written (d_enf d) t \<le> length (d_hist d t)" using o by (simp add: ordered_defs)
  let ?d = "d\<lparr>d_enf := e, d_db := db, d_pending := remove1 (row, n) (d_pending d),
       d_failed := (if res = None then d_failed d else insert (row_Tenant row) (d_failed d))\<rparr>"
  have pend: "pending_ok ?d t" using o mem(1) unfolding ordered_for_def pending_ok_def by fastforce
  consider (stale) "n \<le> written (d_enf d) (row_Tenant row)" "e = d_enf d" "db = d_db d" "res = None"
    | (lost) "\<not> n \<le> written (d_enf d) (row_Tenant row)" "e = SetStoreHealthy (d_enf d) False"
        "load db = load (d_db d)" "res \<noteq> None"
    | (landed) "\<not> n \<le> written (d_enf d) (row_Tenant row)" "save (d_db d) row = (None, db)" "res = None"
        "e = SetStoreHealthy ((d_enf d)\<lparr>written := (written (d_enf d))(row_Tenant row := n)\<rparr>) True"
    using p(2) save_fails [of "d_db d" row _ db]
    by (auto simp: persist_def split: if_splits prod.splits option.splits)
  then show ?thesis
  proof cases
    case stale
    then have "newest_ok ?d t" using newest wle by (auto simp: newest_ok_def)
    with o stale pend show ?thesis by (auto simp: ordered_defs)
  next
    case lost
    then have "newest_ok ?d t" using newest by (auto simp: newest_ok_def SetStoreHealthy_def)
    with o lost pend show ?thesis by (auto simp: ordered_defs SetStoreHealthy_def)
  next
    case landed
    have new: "newest_ok ?d t"
      using newest own landed wle by (cases "row_Tenant row = t") (auto simp: newest_ok_def SetStoreHealthy_def)
    have "stored_ok db0 ?d t"
    proof (cases "row_Tenant row = t")
      case True
      then show ?thesis using save_replaces [OF _ landed(2)] own landed(4)
        by (auto simp: stored_ok_def SetStoreHealthy_def)
    next
      case False
      then show ?thesis using save_other [OF landed(2), of t] o landed(4)
        by (auto simp: ordered_for_def stored_ok_def SetStoreHealthy_def)
    qed
    moreover have "seq_ok ?d t" using o own landed(4) by (auto simp: ordered_defs SetStoreHealthy_def)
    moreover have "memory_ok ?d t" using o landed(4) by (auto simp: ordered_defs SetStoreHealthy_def)
    ultimately show ?thesis using new pend by (simp add: ordered_for_def)
  qed
qed

text \<open>The enforcer steps that leave the sequence numbers alone.\<close>

lemma Reserve_touch:
  "seq (snd (Reserve e now t est)) = seq e \<and> written (snd (Reserve e now t est)) = written e
   \<and> (e_state (snd (Reserve e now t est)) = e_state e
      \<or> (\<exists>st'. e_state (snd (Reserve e now t est)) = (e_state e)(t \<mapsto> st')
         \<and> dailySpent st' = dailySpent (stateFor e t now) \<and> dailyStart st' = dailyStart (stateFor e t now)
         \<and> monthlySpent st' = monthlySpent (stateFor e t now) \<and> monthlyStart st' = monthlyStart (stateFor e t now)))"
proof -
  obtain res e' where r: "Reserve e now t est = (res, e')" by fastforce
  then consider "e' = e" | "e' = touch e t now"
    | "e' = (store_state e t (claim (stateFor e t now) est))\<lparr>nextID := wrap_u64 (nextID e + 1)\<rparr>"
    using Reserve_denies [of e now t est _ e'] Reserve_admits(3) [of e now t est _ e'] by (cases res) auto
  then show ?thesis using r by cases auto
qed

lemma Release_touch:
  "seq (snd (Release e now r)) = seq e \<and> written (snd (Release e now r)) = written e
   \<and> (e_state (snd (Release e now r)) = e_state e
      \<or> (\<exists>t st'. e_state (snd (Release e now r)) = (e_state e)(t \<mapsto> st')
         \<and> dailySpent st' = dailySpent (stateFor e t now) \<and> dailyStart st' = dailyStart (stateFor e t now)
         \<and> monthlySpent st' = monthlySpent (stateFor e t now) \<and> monthlyStart st' = monthlyStart (stateFor e t now)))"
proof (cases r)
  case (Some r')
  then show ?thesis
    by (cases "res_ID r' \<in> settled e") (auto simp: Release_def Let_def intro!: exI [of _ "res_Tenant r'"] exI)
qed (simp add: Release_def)

lemma Settle_none_touch:
  assumes "Settle_locked e now r u usd = (Inr None, e')" "has_store e"
  shows "e' = e"
  using assms by (auto simp: Settle_locked_def Let_def split: option.splits if_splits)

lemma persist_wf: "wf db \<Longrightarrow> persist save e db row n = (res, e', db') \<Longrightarrow> wf db'"
  using save_wf [of db row] by (auto simp: persist_def split: if_splits prod.splits option.splits)

lemma step_has_store: "durable_step save d d' \<Longrightarrow> has_store (d_enf d') = has_store (d_enf d)"
proof (erule durable_stepE, goal_cases)
  case (1 now t est)
  obtain res e where "Reserve (d_enf d) now t est = (res, e)" by fastforce
  then show ?case
    using 1 Reserve_denies [of "d_enf d" now t est _ e] Reserve_admits(3) [of "d_enf d" now t est _ e] by (cases res) auto
qed (auto simp: Settle_locked_def Release_def Spent_def persist_def SetStoreHealthy_def Let_def
    split: option.splits if_splits prod.splits)

text \<open>Every step keeps the invariant; the histories only grow.\<close>

lemma durable_inv_step:
  assumes "durable_step save d d'" "durable_inv db0 d" "has_store (d_enf d)"
  shows "durable_inv db0 d'"
proof -
  have wf0: "wf (d_db d)" and inv: "\<And>t. length (d_hist d t) < 2 ^ 64 \<Longrightarrow> \<forall>row \<in> set (d_hist d t). storable row
      \<Longrightarrow> ordered_for db0 d t" using assms(2) by (auto simp: durable_inv_def)
  show ?thesis
    using assms(1)
  proof cases
    case (reserve now t est)
    with wf0 inv Reserve_touch [of "d_enf d" now t est] show ?thesis
      by (auto simp: durable_inv_def intro!: ordered_touch)
  next
    case (settle now r u usd row n e)
    have "ordered_for db0 d' t" if "length (d_hist d' t) < 2 ^ 64" "\<forall>row \<in> set (d_hist d' t). storable row" for t
    proof (cases "res_Tenant r = t")
      case True
      with settle that inv [of t] show ?thesis by (auto intro!: ordered_settle)
    next
      case False
      with settle that have "ordered_for db0 d t" by (intro inv) auto
      with settle False that show ?thesis by (auto intro: ordered_settle_other)
    qed
    with wf0 settle show ?thesis by (auto simp: durable_inv_def)
  next
    case (settle_again now r u usd e)
    with Settle_none_touch assms(3) have "e = d_enf d" by blast
    with settle_again wf0 inv ordered_touch [of db0 d _ now "d_enf d"] show ?thesis
      by (auto simp: durable_inv_def)
  next
    case (release now r)
    with wf0 inv Release_touch [of "d_enf d" now r] show ?thesis
      by (auto simp: durable_inv_def intro!: ordered_touch)
  next
    case (query now t)
    with wf0 inv ordered_touch [of db0 d _ now "touch (d_enf d) t now"] show ?thesis
      by (auto simp: durable_inv_def Spent_def Let_def)
  next
    case (durable_write row n res e db)
    have "ordered_for db0 d' t" if "ordered_for db0 d t" "\<forall>row \<in> set (d_hist d t). storable row" for t
      unfolding durable_write(1) using that durable_write(2,3) by (rule ordered_write)
    moreover have "wf (d_db d')" "d_hist d' = d_hist d"
      using persist_wf [OF wf0 durable_write(3)] by (simp_all add: durable_write(1))
    ultimately show ?thesis using inv by (auto simp: durable_inv_def)
  qed
qed

lemma durable_inv_steps:
  assumes "(durable_step save)\<^sup>*\<^sup>* d d'" "durable_inv db0 d" "has_store (d_enf d)"
  shows "durable_inv db0 d' \<and> has_store (d_enf d')"
  using assms(1)
proof (induction rule: rtranclp_induct)
  case (step d1 d2)
  with durable_inv_step [of d1 d2 db0] step_has_store [of d1 d2] show ?case by simp
qed (use assms in simp)

lemma durable_inv_start:
  assumes "wf db0" "seq e = (\<lambda>_. 0)" "written e = (\<lambda>_. 0)"
  shows "durable_inv db0 (durable_start e db0 now)"
  using assms by (simp add: durable_inv_def durable_start_def ordered_defs)

text \<open>When the last write of a tenant has been tried and none failed, its row is its newest snapshot.\<close>

lemma newest_is_stored:
  assumes "ordered_for db0 d t" "t \<notin> d_failed d" "d_hist d t \<noteq> []" "\<forall>(row, n) \<in> set (d_pending d). row_Tenant row \<noteq> t"
  shows "row_of (load (d_db d)) t = Some (last (d_hist d t))"
proof -
  have t: "row_Tenant (last (d_hist d t)) = t" using assms(1,3) by (simp add: ordered_defs)
  have "(last (d_hist d t), length (d_hist d t)) \<notin> set (d_pending d)" using assms(4) t by blast
  with assms(1-3) have "written (d_enf d) t = length (d_hist d t)" by (simp add: ordered_defs)
  with assms(1,3) show ?thesis by (simp add: ordered_defs last_conv_nth)
qed

lemma linked_restore:
  assumes "linked c st row" "c \<le> now'" "e_state e t = Some st" "e_state e2 t = Some (restored_state row now)"
  shows "fst (Spent e2 t now') = fst (Spent e t now')"
  using assms(1,3,4) time_Sub_mono [OF assms(2), of "row_DailyStart row"]
    time_Sub_mono [OF assms(2), of "row_MonthlyStart row"]
  by (auto simp: Spent_def Let_def stateFor_def linked_def rollDaily_def rollMonthly_def restored_state_def)

end

text \<open>The SQLite model keeps the promise for rows whose windows start within the range of
  nanoseconds an \<^verbatim>\<open>int64\<close> holds, the years 1678 to 2262.\<close>

definition storable_row :: "spend_row \<Rightarrow> bool" where
  "storable_row row \<longleftrightarrow> int64_ok (row_DailyStart row - unixEpoch) \<and> int64_ok (row_MonthlyStart row - unixEpoch)"

definition loaded :: "sqlite_store \<Rightarrow> spend_row list" where
  "loaded s = map of_sql (snd s)"

definition primary_key :: "sqlite_store \<Rightarrow> bool" where
  "primary_key s \<longleftrightarrow> distinct (map sql_tenant (snd s))"

lemma of_to_sql: "storable_row row \<Longrightarrow> of_sql (to_sql row) = row"
  by (simp add: of_sql_def to_sql_def time_Unix_def UnixNano_def storable_row_def)

lemma sql_tenant_to_sql [simp]: "sql_tenant (to_sql row) = row_Tenant row" "row_Tenant (of_sql r) = sql_tenant r"
  by (simp_all add: to_sql_def of_sql_def)

lemma upsert_tenants: "set (map sql_tenant (upsert r rows)) = insert (sql_tenant r) (set (map sql_tenant rows))"
  by (induction rows) auto

lemma upsert_distinct: "distinct (map sql_tenant rows) \<Longrightarrow> distinct (map sql_tenant (upsert r rows))"
proof (induction rows)
  case (Cons x xs)
  then show ?case using upsert_tenants [of r xs] by (auto simp del: set_map)
qed simp

lemma row_of_upsert:
  "row_of (map of_sql (upsert r rows)) t = (if t = sql_tenant r then Some (of_sql r) else row_of (map of_sql rows) t)"
  by (induction rows) (auto simp: row_of_def)

lemma SQLite_Save_cases:
  "SQLite_Save s row = (None, s') \<Longrightarrow> snd s' = upsert (to_sql row) (snd s)"
  "SQLite_Save s row = (Some x, s') \<Longrightarrow> snd s' = snd s"
  by (auto simp: SQLite_Save_def split: prod.splits list.splits option.splits)

interpretation sq: spend_store SQLite_Save loaded storable_row primary_key
proof unfold_locales
  show "primary_key (snd (SQLite_Save db row))" if "primary_key db" for db row
    using that SQLite_Save_cases [of db row] upsert_distinct
    by (cases "SQLite_Save db row"; cases "fst (SQLite_Save db row)") (auto simp: primary_key_def)
  show "distinct (map row_Tenant (loaded db))" if "primary_key db" for db
    using that by (simp add: primary_key_def loaded_def comp_def)
qed (auto dest!: SQLite_Save_cases simp: loaded_def row_of_upsert of_to_sql)

section \<open>Restart\<close>

lemma restore_other: "t \<notin> row_Tenant ` set rows \<Longrightarrow> e_state (fold (restore_row now) rows e) t = e_state e t"
  by (induction rows arbitrary: e) (auto simp: restore_row_def)

lemma restore_limits [simp]: "e_limits (fold (restore_row now) rows e) = e_limits e"
  by (induction rows arbitrary: e) (auto simp: restore_row_def)

lemma restore_frame:
  "seq (fold (restore_row now) rows e) = seq e \<and> written (fold (restore_row now) rows e) = written e
     \<and> has_store (fold (restore_row now) rows e) = has_store e"
  by (induction rows arbitrary: e) (auto simp: restore_row_def)

lemma restore_found:
  "distinct (map row_Tenant rows) \<Longrightarrow> row_of rows t = Some row \<Longrightarrow> e_limits e t \<noteq> None \<Longrightarrow>
     e_state (fold (restore_row now) rows e) t = Some (restored_state row now)"
proof (induction rows arbitrary: e)
  case (Cons r rows)
  show ?case
  proof (cases "row_Tenant r = t")
    case True
    with Cons.prems have "row = r" "t \<notin> row_Tenant ` set rows" by (auto simp: row_of_def)
    with True Cons.prems(3) show ?thesis by (auto simp: restore_other restore_row_def [of now r e])
  next
    case False
    with Cons.prems have "row_of rows t = Some row" by (simp add: row_of_def)
    moreover have "e_limits (restore_row now r e) t \<noteq> None" using Cons.prems(3) by (simp add: restore_row_def)
    ultimately show ?thesis using Cons by simp
  qed
qed (simp add: row_of_def)

lemma NewDurable_frame:
  assumes "NewDurableEnforcer lims now (Some (SQLite_Load None db)) = Inr e"
  shows "e = fold (restore_row now) (loaded db) ((NewEnforcer lims)\<lparr>has_store := True\<rparr>)"
    and "seq e = (\<lambda>_. 0)" "written e = (\<lambda>_. 0)" "has_store e"
proof -
  show e: "e = fold (restore_row now) (loaded db) ((NewEnforcer lims)\<lparr>has_store := True\<rparr>)"
    using assms by (simp add: NewDurableEnforcer_def SQLite_Load_def loaded_def Let_def)
  show "seq e = (\<lambda>_. 0)" "written e = (\<lambda>_. 0)" "has_store e"
    unfolding e using restore_frame by (simp_all add: NewEnforcer_def)
qed

section \<open>Properties\<close>

text \<open>(C6) Settled totals reach the store in order: from any start on a store, over every interleaving of
  settlements, admissions and durable writes in any order, once no write of a tenant is outstanding and
  none of its writes failed, the stored row is the snapshot of its newest settlement, so a late write of
  an older total never erases money.\<close>

theorem stored_row_is_newest:
  assumes "NewDurableEnforcer lims now0 (Some (SQLite_Load None db0)) = Inr e" "primary_key db0"
    and "(durable_step SQLite_Save)\<^sup>*\<^sup>* (durable_start e db0 now0) d"
    and "t \<notin> d_failed d" "d_hist d t \<noteq> []" "\<forall>(row, n) \<in> set (d_pending d). row_Tenant row \<noteq> t"
    and "length (d_hist d t) < 2 ^ 64" "\<forall>row \<in> set (d_hist d t). storable_row row"
  shows "row_of (loaded (d_db d)) t = Some (last (d_hist d t))"
proof -
  note e = NewDurable_frame [OF assms(1)]
  have "sq.durable_inv db0 (durable_start e db0 now0)" "has_store (d_enf (durable_start e db0 now0))"
    using sq.durable_inv_start [OF assms(2) e(2,3)] e(4) by (auto simp: durable_start_def)
  then have "sq.ordered_for db0 d t"
    using sq.durable_inv_steps [OF assms(3)] assms(7,8) by (auto simp: sq.durable_inv_def)
  then show ?thesis using assms(4-6) by (rule sq.newest_is_stored)
qed

text \<open>(C15) A restart forgives nothing: under the same conditions, an enforcer restored from the store
  reports for every configured tenant exactly the spend the running one would have reported, at any
  instant from the restart on, window rollovers included.\<close>

theorem restart_forgets_no_spend:
  assumes "NewDurableEnforcer lims now0 (Some (SQLite_Load None db0)) = Inr e" "primary_key db0"
    and "(durable_step SQLite_Save)\<^sup>*\<^sup>* (durable_start e db0 now0) d"
    and "t \<notin> d_failed d" "d_hist d t \<noteq> []" "\<forall>(row, n) \<in> set (d_pending d). row_Tenant row \<noteq> t"
    and "length (d_hist d t) < 2 ^ 64" "\<forall>row \<in> set (d_hist d t). storable_row row"
    and "NewDurableEnforcer lims' now (Some (SQLite_Load None (d_db d))) = Inr e2" "lims' t \<noteq> None"
    and "d_clock d \<le> now'"
  shows "fst (Spent e2 t now') = fst (Spent (d_enf d) t now')"
proof -
  note e = NewDurable_frame [OF assms(1)]
  have "sq.durable_inv db0 (durable_start e db0 now0)" "has_store (d_enf (durable_start e db0 now0))"
    using sq.durable_inv_start [OF assms(2) e(2,3)] e(4) by (auto simp: durable_start_def)
  then have inv: "sq.durable_inv db0 d" using sq.durable_inv_steps [OF assms(3)] by blast
  then have o: "sq.ordered_for db0 d t" using assms(7,8) by (auto simp: sq.durable_inv_def)
  then obtain st where st: "e_state (d_enf d) t = Some st" "sq.linked (d_clock d) st (last (d_hist d t))"
    using assms(5) by (auto simp: sq.ordered_for_def sq.memory_ok_def)
  have "row_of (loaded (d_db d)) t = Some (last (d_hist d t))" using o assms(4-6) by (rule sq.newest_is_stored)
  moreover have "distinct (map row_Tenant (loaded (d_db d)))"
    using inv sq.wf_distinct by (simp add: sq.durable_inv_def)
  ultimately have "e_state e2 t = Some (restored_state (last (d_hist d t)) now)"
    using NewDurable_frame(1) [OF assms(9)] assms(10) by (simp add: restore_found)
  with st assms(11) show ?thesis by (intro sq.linked_restore)
qed

text \<open>Opening never starts over silently: a store that opens passed its integrity check, was not
  written by a newer schema, ends at this binary's schema version with its table in place, and kept
  every row it held.\<close>

theorem open_keeps_rows:
  assumes "OpenSQLiteStore io path f = Migrated f'"
  shows "integrity f = ''ok'' \<and> user_version f \<le> schemaVersion \<and> user_version f' = schemaVersion
       \<and> (\<forall>rows. tenant_spend f = Some rows \<longrightarrow> tenant_spend f' = Some rows)
       \<and> (user_version f < schemaVersion \<longrightarrow> tenant_spend f' \<noteq> None)"
  using assms
  by (auto simp: OpenSQLiteStore_def checkIntegrity_def migrate_def migrate0to1_def schemaVersion_def
      split: option.splits migrate_result.splits if_splits)

text \<open>(C29) One successful write of any tenant clears the alarm of another: after a write of one tenant was
  lost, the next write that lands marks the store healthy again although the lost total is still not in
  the store, so a tenant that asked to fail closed is admitted again.\<close>

theorem alarm_is_cleared_by_another_tenant:
  assumes "persist save e db rowA n = (Some x, e1, db1)" "persist save e1 db1 rowB k = (None, e2, db2)"
    and "row_Tenant rowA \<noteq> row_Tenant rowB" "written e1 (row_Tenant rowB) < k"
  shows "\<not> healthy e1 \<and> healthy e2 \<and> written e2 (row_Tenant rowA) < n"
  using assms
  by (auto simp: persist_def SetStoreHealthy_def split: if_splits prod.splits option.splits)

section \<open>Witnesses\<close>

text \<open>A tenant at noon of some day in 1970 settles one request, and its write lands.\<close>

definition demo_now :: instant where "demo_now = unixEpoch + 12 * Hour"

definition demo_store_limits :: "tenant_id \<rightharpoonup> limits" where
  "demo_store_limits = [''acme'' \<mapsto> \<lparr>RequestsPerMinute = 0, TokensPerMinute = 0, DailyUSD = 10, MonthlyUSD = 100, FailClosed = True\<rparr>]"

definition demo_claim_of :: reservation where
  "demo_claim_of = \<lparr>res_Tenant = ''acme'', res_Estimate = \<lparr>est_PromptTokens = 1, est_CompletionTokens = 1, est_USD = 1\<rparr>,
     IssuedAt = demo_now, res_ID = ''1''\<rparr>"

definition demo_start :: mem_enforcer where
  "demo_start = (NewEnforcer demo_store_limits)\<lparr>has_store := True\<rparr>"

definition demo_row :: spend_row where
  "demo_row = snapshot ''acme'' (bill (fresh_state demo_now) (res_Estimate demo_claim_of) zero_usage 2)"

definition demo_settled :: mem_enforcer where
  "demo_settled = snd (Settle_locked demo_start demo_now (Some demo_claim_of) zero_usage 2)"

definition demo_written :: "sqlite_store durable" where
  "demo_written = \<lparr>d_enf = SetStoreHealthy (demo_settled\<lparr>written := (written demo_settled)(''acme'' := 1)\<rparr>) True,
     d_db = ([], [to_sql demo_row]), d_pending = [], d_hist = (\<lambda>_. [])(''acme'' := [demo_row]),
     d_failed = {}, d_clock = demo_now\<rparr>"

lemma demo_start_new: "NewDurableEnforcer demo_store_limits demo_now (Some (SQLite_Load None ([], []))) = Inr demo_start"
  by (simp add: NewDurableEnforcer_def SQLite_Load_def demo_start_def Let_def)

lemma demo_settles: "Settle_locked demo_start demo_now (Some demo_claim_of) zero_usage 2 = (Inr (Some (demo_row, 1)), demo_settled)"
  by (simp add: demo_settled_def Settle_locked_def demo_start_def Let_def demo_claim_of_def stateFor_def wrap_u64_def
      demo_row_def)

lemma demo_reaches: "(durable_step SQLite_Save)\<^sup>*\<^sup>* (durable_start demo_start ([], []) demo_now) demo_written"
proof -
  define d1 where "d1 = \<lparr>d_enf = demo_settled, d_db = (([], []) :: sqlite_store), d_pending = [(demo_row, 1)],
    d_hist = (\<lambda>_. [])(''acme'' := [demo_row]), d_failed = {}, d_clock = demo_now\<rparr>"
  have "durable_step SQLite_Save (durable_start demo_start ([], []) demo_now) d1"
    using durable_step.settle [where save = SQLite_Save and d = "durable_start demo_start ([], []) demo_now"
        and now = demo_now and r = demo_claim_of and u = zero_usage and usd = 2] demo_settles
    by (simp add: d1_def durable_start_def demo_claim_of_def)
  moreover have t: "row_Tenant demo_row = ''acme''" by (simp add: demo_row_def snapshot_def)
  have "persist SQLite_Save demo_settled ([], []) demo_row 1
      = (None, d_enf demo_written, ([], [to_sql demo_row]))"
    by (simp add: persist_def demo_settled_def Settle_locked_def demo_start_def Let_def demo_claim_of_def t
        SQLite_Save_def demo_written_def)
  then have "durable_step SQLite_Save d1 demo_written"
    using durable_step.durable_write [where save = SQLite_Save and d = d1 and row = demo_row and n = 1]
    by (simp add: d1_def demo_written_def)
  ultimately show ?thesis by (meson converse_rtranclp_into_rtranclp rtranclp.rtrancl_refl)
qed

lemma demo_storable: "storable_row demo_row"
  by (simp add: storable_row_def demo_row_def snapshot_def fresh_state_def demo_now_def int64_ok_def time_unit_defs)

lemma demo_hist: "d_hist demo_written ''acme'' = [demo_row]" "d_pending demo_written = []" "d_failed demo_written = {}"
    "d_clock demo_written = demo_now" "d_db demo_written = ([], [to_sql demo_row])"
  by (simp_all add: demo_written_def)

lemma stored_row_is_newest_witness: "row_of (loaded (d_db demo_written)) ''acme'' = Some demo_row"
  using stored_row_is_newest [OF demo_start_new _ demo_reaches, of "''acme''"] demo_storable
  by (simp add: primary_key_def demo_hist)

lemma restart_forgets_no_spend_witness:
  "\<exists>e2. NewDurableEnforcer demo_store_limits demo_now (Some (SQLite_Load None (d_db demo_written))) = Inr e2
     \<and> fst (Spent e2 ''acme'' demo_now) = fst (Spent (d_enf demo_written) ''acme'' demo_now)"
proof -
  obtain e2 where e2: "NewDurableEnforcer demo_store_limits demo_now (Some (SQLite_Load None (d_db demo_written))) = Inr e2"
    by (simp add: NewDurableEnforcer_def SQLite_Load_def Let_def)
  have "fst (Spent e2 ''acme'' demo_now) = fst (Spent (d_enf demo_written) ''acme'' demo_now)"
    by (rule restart_forgets_no_spend [OF demo_start_new _ demo_reaches _ _ _ _ _ e2])
      (use demo_storable in \<open>simp_all add: primary_key_def demo_hist demo_store_limits_def\<close>)
  with e2 show ?thesis by blast
qed

definition demo_io :: open_outcomes where
  "demo_io = \<lparr>io_open = None, io_ping = None, io_integrity = None, io_version = None, io_begin = None,
     io_create = None, io_set_version = None, io_commit = None, io_prepare = None\<rparr>"

definition demo_file :: sqlite_file where
  "demo_file = \<lparr>integrity = ''ok'', user_version = 1, tenant_spend = Some [to_sql demo_row]\<rparr>"

lemma open_keeps_rows_witness: "user_version demo_file \<le> schemaVersion"
proof -
  have "OpenSQLiteStore demo_io ''budget.db'' demo_file = Migrated demo_file"
    by (simp add: OpenSQLiteStore_def checkIntegrity_def migrate_def demo_io_def demo_file_def schemaVersion_def)
  then show ?thesis using open_keeps_rows by blast
qed

lemma alarm_is_cleared_by_another_tenant_witness:
  "\<exists>e2 db2. persist SQLite_Save (SetStoreHealthy demo_start False) ([], []) (demo_row\<lparr>row_Tenant := ''other''\<rparr>) 1 = (None, e2, db2)
     \<and> healthy e2 \<and> written e2 ''acme'' < 1"
proof -
  have t: "row_Tenant demo_row = ''acme''" by (simp add: demo_row_def snapshot_def)
  obtain x where a: "persist SQLite_Save demo_start ([Some IoEOF], []) demo_row 1
      = (Some x, SetStoreHealthy demo_start False, ([], []))"
    by (simp add: persist_def SQLite_Save_def demo_start_def)
  obtain e2 db2 where b: "persist SQLite_Save (SetStoreHealthy demo_start False) ([], []) (demo_row\<lparr>row_Tenant := ''other''\<rparr>) 1
      = (None, e2, db2)"
    by (simp add: persist_def SQLite_Save_def demo_start_def SetStoreHealthy_def)
  have "healthy e2 \<and> written e2 ''acme'' < 1"
    using alarm_is_cleared_by_another_tenant [OF a b] t by (simp add: demo_start_def SetStoreHealthy_def)
  with b show ?thesis by blast
qed

end
