(* ===== verification/Pricing.thy ===== *)
theory Pricing
  imports Providers Go_Format "HOL-Library.List_Lexorder" "HOL-Library.Char_ord"
begin

text \<open>
  Price list and cost ledger (\<^verbatim>\<open>src/internal/pricing/pricing.go\<close>, \<^verbatim>\<open>ledger.go\<close>). A table maps
  \<^verbatim>\<open>kind/model\<close> keys to rates per million tokens; a Go map is an association list whose first
  binding of a key counts, as decoding leaves it. The YAML decoding itself is a library's; \<^verbatim>\<open>Load\<close> is
  modelled from the decoded table on. The lemmas show that a validated table never yields a negative
  cost, how far a cost may be from the exact product, and that keys of different vendors never collide.
\<close>

section \<open>Tables\<close>

definition keySeparator :: char where "keySeparator = CHR ''/''"
definition MinVersion :: goint where "MinVersion = 1"
definition tokensPerMTok :: float64 where "tokensPerMTok = 1000000"
definition updatedLayout :: string where "updatedLayout = ''2006-01-02''"

record price =
  InputPerMTok :: float64
  OutputPerMTok :: float64
  price_Free :: bool

record table =
  Version :: goint
  Updated :: string
  Prices :: "(string \<times> price) list"

record cost =
  cost_USD :: float64
  PriceVersion :: goint
  cost_Free :: bool

definition clampTokens :: "goint \<Rightarrow> goint" where
  "clampTokens n = (if n < 0 then 0 else n)"

definition costUSD :: "price \<Rightarrow> goint \<Rightarrow> goint \<Rightarrow> float64" where
  "costUSD p promptTokens completionTokens =
     (if price_Free p then 0
      else fdiv (fadd (fmul (float_of_int (clampTokens promptTokens)) (InputPerMTok p))
                      (fmul (float_of_int (clampTokens completionTokens)) (OutputPerMTok p)))
                tokensPerMTok)"

definition key :: "string \<Rightarrow> string \<Rightarrow> string" where
  "key kind model = kind @ [keySeparator] @ model"

definition Cost :: "table \<Rightarrow> string \<Rightarrow> string \<Rightarrow> usage \<Rightarrow> cost option" where
  "Cost t kind model u = (case map_of (Prices t) (key kind model) of
       None \<Rightarrow> None
     | Some p \<Rightarrow> Some \<lparr>cost_USD = costUSD p (PromptTokens u) (CompletionTokens u),
                       PriceVersion = Version t, cost_Free = price_Free p\<rparr>)"

definition Models :: "table \<Rightarrow> string list" where
  "Models t = sort (remdups (map fst (Prices t)))"

definition validKey :: "string \<Rightarrow> bool" where
  "validKey k = (case Cut k keySeparator of (kind, model, found) \<Rightarrow>
     if \<not> found \<or> kind = [] \<or> model = [] then False
     else TrimSpace kind = kind \<and> TrimSpace model = model)"

section \<open>Validation\<close>

text \<open>\<^verbatim>\<open>time.Parse\<close> with the layout \<^verbatim>\<open>2006-01-02\<close>: four digits, two digits, two digits, with the month
  and the day in range.\<close>

definition is_digit :: "char \<Rightarrow> bool" where
  "is_digit c \<longleftrightarrow> 48 \<le> (of_char c :: nat) \<and> (of_char c :: nat) \<le> 57"

definition leap_year :: "nat \<Rightarrow> bool" where
  "leap_year y \<longleftrightarrow> 4 dvd y \<and> (\<not> 100 dvd y \<or> 400 dvd y)"

definition days_in :: "nat \<Rightarrow> nat \<Rightarrow> nat" where
  "days_in m y = (if m = 2 then (if leap_year y then 29 else 28)
     else if m \<in> {4, 6, 9, 11} then 30 else 31)"

definition is_iso_date :: "string \<Rightarrow> bool" where
  "is_iso_date s = (case s of
       [a, b, c, d, h1, e, f, h2, g, h] \<Rightarrow>
         list_all is_digit [a, b, c, d, e, f, g, h] \<and> h1 = CHR ''-'' \<and> h2 = CHR ''-'' \<and>
         (let y = dec_value [a, b, c, d]; m = dec_value [e, f]; dd = dec_value [g, h]
          in 1 \<le> m \<and> m \<le> 12 \<and> 1 \<le> dd \<and> dd \<le> days_in m y)
     | _ \<Rightarrow> False)"

definition header_problems :: "table \<Rightarrow> string list" where
  "header_problems t =
     (if Version t < MinVersion
      then [''version is '' @ Itoa (Version t) @ '', must be at least '' @ Itoa MinVersion
            @ ''; the version is stamped on every ledger row and 0 would leave that row untraceable'']
      else [])
     @ (if Updated t = [] then [''updated is required, as an ISO date such as 2026-01-31'']
        else if \<not> is_iso_date (Updated t)
        then [''updated '' @ Quote (Updated t) @ '' is not an ISO date ('' @ updatedLayout @ '')'']
        else [])
     @ (if Prices t = [] then [''models: at least one model price is required''] else [])"

definition price_problems :: "string \<Rightarrow> price \<Rightarrow> string list" where
  "price_problems k p = (let label = ''models['' @ Quote k @ '']'' in
     (if \<not> validKey k
      then [label @ '': key must be '' @ Quote ''<kind>/<model>'' @ '', for example '' @ Quote ''openai/gpt-4o-mini'']
      else [])
     @ (if InputPerMTok p < 0
        then [label @ '': input_per_mtok is '' @ FormatFloat_g (InputPerMTok p) @ '', must not be negative''] else [])
     @ (if OutputPerMTok p < 0
        then [label @ '': output_per_mtok is '' @ FormatFloat_g (OutputPerMTok p) @ '', must not be negative''] else [])
     @ (if price_Free p \<and> (InputPerMTok p \<noteq> 0 \<or> OutputPerMTok p \<noteq> 0)
        then [label @ '': free is true but a rate is set; a free model must cost nothing'']
        else if \<not> price_Free p \<and> InputPerMTok p = 0 \<and> OutputPerMTok p = 0
        then [label @ '': input_per_mtok and output_per_mtok are both missing; set them, or mark the model free: true'']
        else []))"

text \<open>\<^verbatim>\<open>Validate\<close>: every problem found, header first, then by key; the empty list is success.\<close>

definition Validate :: "table \<Rightarrow> string list" where
  "Validate t = header_problems t
     @ concat (map (\<lambda>k. price_problems k (the (map_of (Prices t) k))) (Models t))"

text \<open>\<^verbatim>\<open>Load\<close> and \<^verbatim>\<open>DefaultTable\<close> after decoding: the table, or the joined problems.\<close>

definition Load_decoded :: "string \<Rightarrow> string + table \<Rightarrow> string + table" where
  "Load_decoded path decoded = (case decoded of
       Inl e \<Rightarrow> Inl (''parse price table '' @ path @ '': '' @ e)
     | Inr t \<Rightarrow> (if Validate t = [] then Inr t
         else Inl (''invalid price table '' @ path @ '':'' @ [CHR 0x0A]
                   @ concat (map (\<lambda>e. e @ [CHR 0x0A]) (butlast (Validate t))) @ last (Validate t))))"

section \<open>The ledger\<close>

record entry =
  Timestamp :: instant
  ent_Tenant :: string
  ProviderKind :: string
  ent_Model :: string
  ent_PromptTokens :: goint
  ent_CompletionTokens :: goint
  ent_USD :: float64
  ent_PriceVersion :: goint
  CacheHit :: bool
  RequestID :: string

text \<open>A ledger is dropped (\<^verbatim>\<open>NopLedger\<close>) or a file opened for appending, whose lines are entries. The
  outcome of the write is the operating system's: on failure nothing lands.\<close>

datatype ledger = NopLedger | FileLedger "entry list"

fun ledger_Write :: "ledger \<Rightarrow> err option \<Rightarrow> entry \<Rightarrow> err option \<times> ledger" where
  "ledger_Write NopLedger io e = (None, NopLedger)"
| "ledger_Write (FileLedger es) io e = (case io of
       None \<Rightarrow> (None, FileLedger (es @ [e]))
     | Some x \<Rightarrow> (Some (WrapErr ''write cost ledger entry: '' x), FileLedger es))"

section \<open>Costs\<close>

lemma float_of_int_exact:
  assumes "0 \<le> n" "n \<le> 2 ^ 53"
  shows "float_of_int n = of_int n"
proof -
  have "on_grid 0 (of_int n)"
    using assms by (simp add: on_grid_def dyadic_def power_int_def)
  then show ?thesis by (simp add: float_of_int_def rnd64_exact)
qed

lemma clampTokens_id [simp]: "0 \<le> n \<Longrightarrow> clampTokens n = n"
  by (simp add: clampTokens_def)

lemma clampTokens_nonneg [simp]: "0 \<le> clampTokens n"
  by (simp add: clampTokens_def)

lemma float_of_int_nonneg: "0 \<le> n \<Longrightarrow> 0 \<le> float_of_int n"
  by (simp add: float_of_int_def rnd64_nonneg)

lemma costUSD_nonneg: "0 \<le> InputPerMTok p \<Longrightarrow> 0 \<le> OutputPerMTok p \<Longrightarrow> 0 \<le> costUSD p m n"
  by (auto simp: costUSD_def fdiv_def fadd_def fmul_def tokensPerMTok_def float_of_int_nonneg
      intro!: rnd64_nonneg divide_nonneg_nonneg add_nonneg_nonneg mult_nonneg_nonneg)

lemma costUSD_mono:
  assumes "0 \<le> InputPerMTok p" "0 \<le> OutputPerMTok p" "m \<le> m'" "n \<le> n'"
  shows "costUSD p m n \<le> costUSD p m' n'"
proof -
  have "float_of_int (clampTokens k) \<le> float_of_int (clampTokens k')" if "k \<le> k'" for k k'
    using that by (auto simp: float_of_int_def clampTokens_def intro!: rnd64_mono rnd64_nonneg)
  with assms show ?thesis
    by (auto simp: costUSD_def fdiv_def fadd_def fmul_def tokensPerMTok_def
        intro!: rnd64_mono divide_right_mono add_mono mult_right_mono)
qed

definition exact_cost :: "price \<Rightarrow> usage \<Rightarrow> rat" where
  "exact_cost p u = (if price_Free p then 0 else
     (of_int (PromptTokens u) * InputPerMTok p + of_int (CompletionTokens u) * OutputPerMTok p) / 1000000)"

text \<open>One priced direction: the product is rounded once.\<close>

lemma near_product:
  assumes "0 \<le> n" "n \<le> 2 ^ 53" "normal (- 900) r"
  shows "near 1 (fmul (float_of_int n) r) (of_int n * r) \<and> normal (- 900) (fmul (float_of_int n) r)"
proof -
  have e: "float_of_int n = of_int n" using assms(1,2) by (rule float_of_int_exact)
  have norm: "normal (- 900) (of_int n * r)"
  proof (cases "n = 0")
    case False
    then have "1 \<le> (of_int n :: rat)" using assms(1) by (simp add: int_one_le_iff_zero_less)
    then have "r \<le> of_int n * r" using normal_nonneg [OF assms(3)] mult_right_mono [of 1 "of_int n" r] by simp
    with assms(3) show ?thesis unfolding normal_def by (meson mult_eq_0_iff order_trans)
  qed (simp add: normal_def)
  then show ?thesis
    unfolding fmul_def e One_nat_def
    by (intro conjI near_rnd64 near_refl normal_rnd64 normal_mono [OF norm]) simp_all
qed

lemma costUSD_near:
  assumes "0 \<le> PromptTokens u" "PromptTokens u \<le> 2 ^ 53" "0 \<le> CompletionTokens u" "CompletionTokens u \<le> 2 ^ 53"
    and "normal (- 900) (InputPerMTok p)" "normal (- 900) (OutputPerMTok p)"
  shows "near 3 (costUSD p (PromptTokens u) (CompletionTokens u)) (exact_cost p u)"
proof -
  let ?a = "fmul (float_of_int (PromptTokens u)) (InputPerMTok p)"
  let ?b = "fmul (float_of_int (CompletionTokens u)) (OutputPerMTok p)"
  let ?x = "of_int (PromptTokens u) * InputPerMTok p + of_int (CompletionTokens u) * OutputPerMTok p"
  note ab = near_product [OF assms(1,2,5)] near_product [OF assms(3,4,6)]
  have n: "normal (- 900) (?a + ?b)" using ab by (intro normal_add) auto
  have s: "near (Suc 1) (fadd ?a ?b) ?x" "normal (- 900) (fadd ?a ?b)"
    unfolding fadd_def using ab n by (auto intro!: near_rnd64 near_add normal_rnd64 intro: normal_mono)
  have "(2 :: rat) powi (- 920) \<le> 2 powi (- 900) / 1000000"
    using powi_diff [of "- 900" 20] by (simp add: divide_left_mono)
  then have "normal (- 920) (fadd ?a ?b / 1000000)"
    using s(2) divide_right_mono [of "2 powi - 900" "fadd ?a ?b" 1000000] unfolding normal_def by auto
  then have "near (Suc (Suc 1)) (rnd64 (fadd ?a ?b / 1000000)) (?x / 1000000)"
    using s(1) by (intro near_rnd64 near_divide) (auto intro: normal_mono)
  with assms show ?thesis
    by (simp add: costUSD_def exact_cost_def fdiv_def tokensPerMTok_def numeral_3_eq_3 near_def)
qed

section \<open>Validated tables\<close>

lemma Models_set [simp]: "set (Models t) = fst ` set (Prices t)"
  by (simp add: Models_def)

lemma Validate_header: "Validate t = [] \<Longrightarrow> header_problems t = []"
  by (simp add: Validate_def)

lemma Validate_price:
  assumes "Validate t = []" "map_of (Prices t) k = Some p"
  shows "price_problems k p = []"
proof -
  have "k \<in> set (Models t)" using assms(2) by (force dest: map_of_SomeD)
  with assms show ?thesis by (fastforce simp: Validate_def)
qed

lemma if_nil_conv:
  "((if a then x # xs else ys) = []) = (\<not> a \<and> ys = [])" "([] = []) = True"
  by simp_all

lemma price_problems_nil:
  "price_problems k p = [] \<longleftrightarrow> validKey k \<and> 0 \<le> InputPerMTok p \<and> 0 \<le> OutputPerMTok p \<and>
     (price_Free p \<longleftrightarrow> InputPerMTok p = 0 \<and> OutputPerMTok p = 0)"
  unfolding price_problems_def Let_def
  by (simp only: append_is_Nil_conv if_nil_conv, simp only: not_less, blast)

lemma key_inject:
  assumes "keySeparator \<notin> set kind" "keySeparator \<notin> set kind'"
  shows "key kind model = key kind' model' \<longleftrightarrow> kind = kind' \<and> model = model'"
  using Cut_found [OF assms(1), of model] Cut_found [OF assms(2), of model']
  by (metis append_Cons append_Nil key_def prod.inject)

lemma validKey_split:
  assumes "validKey k"
  shows "\<exists>kind model. k = key kind model \<and> keySeparator \<notin> set kind \<and> kind \<noteq> [] \<and> model \<noteq> []"
  using assms Cut_split [of k keySeparator]
  by (auto simp: validKey_def key_def split: prod.splits if_splits)

section \<open>Properties\<close>

text \<open>(C28) A validated table prices every listed model without guessing: the cost carries the version
  of the list, is never negative, and is within a relative error of four roundings of the exact product
  of tokens and rates, so it is zero only when the exact cost is.\<close>

theorem listed_model_cost_is_accurate:
  assumes "Validate t = []" "map_of (Prices t) (key kind model) = Some p"
    and "0 \<le> PromptTokens u" "PromptTokens u \<le> 2 ^ 53" "0 \<le> CompletionTokens u" "CompletionTokens u \<le> 2 ^ 53"
    and "normal (- 900) (InputPerMTok p)" "normal (- 900) (OutputPerMTok p)"
  shows "\<exists>c. Cost t kind model u = Some c \<and> 0 \<le> cost_USD c \<and> 1 \<le> PriceVersion c
           \<and> cost_Free c = price_Free p
           \<and> \<bar>cost_USD c - exact_cost p u\<bar> \<le> 4 * unit_roundoff * exact_cost p u"
proof -
  let ?c = "costUSD p (PromptTokens u) (CompletionTokens u)" and ?x = "exact_cost p u"
  have pos: "0 \<le> InputPerMTok p" "0 \<le> OutputPerMTok p"
    using Validate_price [OF assms(1,2)] by (simp_all add: price_problems_nil)
  then have "0 \<le> ?x" using assms(3,5) by (simp add: exact_cost_def)
  moreover have "near 3 ?c ?x" using assms(3-8) by (rule costUSD_near)
  moreover have "(1 + unit_roundoff) ^ 3 \<le> 1 + 4 * unit_roundoff" "1 - 4 * unit_roundoff \<le> (1 - unit_roundoff) ^ 3"
    by (simp_all add: unit_roundoff_def power3_eq_cube)
  ultimately have "?x * (1 - 4 * unit_roundoff) \<le> ?c" "?c \<le> ?x * (1 + 4 * unit_roundoff)"
    unfolding near_def by (meson mult_left_mono order_trans)+
  then have "\<bar>?c - ?x\<bar> \<le> 4 * unit_roundoff * ?x" by (simp add: abs_le_iff algebra_simps)
  moreover have "1 \<le> Version t"
    using Validate_header [OF assms(1)] by (auto simp: header_problems_def MinVersion_def split: if_splits)
  ultimately show ?thesis using assms(2) pos by (simp add: Cost_def costUSD_nonneg)
qed

text \<open>What an upstream reports can only ever be charged, never credited: in a validated table the
  cost of a listed model is at least zero for any token counts, negative ones included, and grows with
  both counts.\<close>

theorem cost_never_credits:
  assumes "Validate t = []" "Cost t kind model u = Some c" "Cost t kind model u' = Some c'"
    and "PromptTokens u \<le> PromptTokens u'" "CompletionTokens u \<le> CompletionTokens u'"
  shows "0 \<le> cost_USD c \<and> cost_USD c \<le> cost_USD c'"
proof -
  obtain p where p: "map_of (Prices t) (key kind model) = Some p"
    "cost_USD c = costUSD p (PromptTokens u) (CompletionTokens u)"
    "cost_USD c' = costUSD p (PromptTokens u') (CompletionTokens u')"
    using assms(2,3) by (auto simp: Cost_def split: option.splits)
  with Validate_price [OF assms(1) p(1)] assms(4,5) show ?thesis
    by (auto simp: price_problems_nil intro: costUSD_nonneg costUSD_mono)
qed

section \<open>Witnesses\<close>

definition demo_price :: price where
  "demo_price = \<lparr>InputPerMTok = rnd64 (15 / 100), OutputPerMTok = rnd64 (6 / 10), price_Free = False\<rparr>"

definition demo_table :: table where
  "demo_table = \<lparr>Version = 3, Updated = ''2026-01-31'', Prices = [(''openai/gpt-4o-mini'', demo_price)]\<rparr>"

definition demo_usage :: usage where
  "demo_usage = \<lparr>PromptTokens = 1000, CompletionTokens = 500, TotalTokens = 1500\<rparr>"

lemma demo_price_rates:
  "0 < InputPerMTok demo_price" "0 < OutputPerMTok demo_price" "\<not> price_Free demo_price"
  "normal (- 900) (InputPerMTok demo_price)" "normal (- 900) (OutputPerMTok demo_price)"
proof -
  have n: "normal (- 900) (rnd64 x)" if "1 / 8 \<le> x" for x
  proof -
    have "normal (- 3) x" using that by (simp add: normal_def power_int_def power3_eq_cube)
    from normal_mono [OF this, of "- 900"] have "normal (- 900) x" by simp
    then show ?thesis by (rule normal_rnd64) simp
  qed
  show "normal (- 900) (InputPerMTok demo_price)" "normal (- 900) (OutputPerMTok demo_price)"
    by (simp_all only: demo_price_def price.simps, rule n, simp, rule n, simp)
  show "0 < InputPerMTok demo_price" "0 < OutputPerMTok demo_price" "\<not> price_Free demo_price"
    by code_simp+
qed

lemma demo_table_valid: "Validate demo_table = []"
proof -
  have "header_problems demo_table = []"
    by (simp add: header_problems_def demo_table_def is_iso_date_def is_digit_def dec_value_def days_in_def
        MinVersion_def Let_def)
  moreover have "validKey ''openai/gpt-4o-mini''" by code_simp
  ultimately show ?thesis using demo_price_rates
    by (simp add: Validate_def Models_def demo_table_def price_problems_nil)
qed

lemma demo_table_entry: "map_of (Prices demo_table) (key ''openai'' ''gpt-4o-mini'') = Some demo_price"
  by (simp add: demo_table_def key_def keySeparator_def)

lemma demo_usage_bounds:
  "0 \<le> PromptTokens demo_usage" "PromptTokens demo_usage \<le> 2 ^ 53"
  "0 \<le> CompletionTokens demo_usage" "CompletionTokens demo_usage \<le> 2 ^ 53"
  by (simp_all add: demo_usage_def)

lemma listed_model_cost_is_accurate_witness:
  "\<exists>c. Cost demo_table ''openai'' ''gpt-4o-mini'' demo_usage = Some c \<and> 0 \<le> cost_USD c"
  using listed_model_cost_is_accurate [OF demo_table_valid demo_table_entry demo_usage_bounds demo_price_rates(4,5)]
  by blast

lemma cost_never_credits_witness:
  "0 \<le> cost_USD (the (Cost demo_table ''openai'' ''gpt-4o-mini'' (demo_usage\<lparr>PromptTokens := - 7\<rparr>)))"
  by (rule conjunct1 [OF cost_never_credits [OF demo_table_valid, where u' = demo_usage
      and u = "demo_usage\<lparr>PromptTokens := - 7\<rparr>" and kind = "''openai''" and model = "''gpt-4o-mini''"]])
    (simp_all add: Cost_def demo_table_entry demo_usage_def)

end
