(* ===== verification/Budget_Guard.thy ===== *)
theory Budget_Guard
  imports Budget_Store Pricing
begin

text \<open>
  The guard (\<^verbatim>\<open>src/internal/budget/guard.go\<close>): the one entry of the request path into budgeting, joining
  estimator, enforcer, price list and ledger. A nil guard or a nil collaborator is \<open>None\<close> or \<open>False\<close>; the
  errors handed to the reporting callbacks are returned as a list. The lemmas show that ledger and
  running totals tell the same story.
\<close>

section \<open>The guard\<close>

record guard =
  g_estimator :: "(string \<Rightarrow> bytes \<Rightarrow> estimate) option"
  g_enforcer :: bool
  g_prices :: "table option"
  g_kindOf :: "(string \<Rightarrow> string) option"
  g_ledger :: bool

text \<open>What the guard's operations change: enforcer, store and ledger.\<close>

record 's accounts =
  a_enf :: mem_enforcer
  a_db :: 's
  a_ledger :: ledger

definition Begin ::
  "guard option \<Rightarrow> 's accounts \<Rightarrow> instant \<Rightarrow> tenant_id \<Rightarrow> string \<Rightarrow> bytes
     \<Rightarrow> (denial + reservation option) \<times> 's accounts" where
  "Begin g a now tenant model raw = (case g of
       None \<Rightarrow> (Inr None, a)
     | Some g \<Rightarrow>
         (case g_estimator g of
            None \<Rightarrow> (Inr None, a)
          | Some est \<Rightarrow>
              (if \<not> g_enforcer g then (Inr None, a)
               else case Reserve (a_enf a) now tenant (est model raw) of
                 (Inl d, e) \<Rightarrow> (Inl d, a\<lparr>a_enf := e\<rparr>)
               | (Inr r, e) \<Rightarrow> (Inr (Some r), a\<lparr>a_enf := e\<rparr>))))"

definition Price :: "guard option \<Rightarrow> string \<Rightarrow> string \<Rightarrow> usage \<Rightarrow> float64" where
  "Price g provider model u = (case g of
       None \<Rightarrow> 0
     | Some g \<Rightarrow>
         (case (g_prices g, g_kindOf g) of
            (Some t, Some kindOf) \<Rightarrow>
              (case Cost t (kindOf provider) model u of None \<Rightarrow> 0 | Some c \<Rightarrow> cost_USD c)
          | _ \<Rightarrow> 0))"

definition guard_PriceVersion :: "guard option \<Rightarrow> goint" where
  "guard_PriceVersion g = (case g of
       None \<Rightarrow> 0
     | Some g \<Rightarrow> (case g_prices g of None \<Rightarrow> 0 | Some t \<Rightarrow> Version t))"

text \<open>\<^verbatim>\<open>record\<close>: the ledger row of a settled request. The write's outcome is the operating system's.\<close>

definition ledger_entry :: "guard \<Rightarrow> instant \<Rightarrow> reservation \<Rightarrow> usage \<Rightarrow> float64 \<Rightarrow> string \<Rightarrow> string \<Rightarrow> entry" where
  "ledger_entry g now r u usd model provider =
     \<lparr>Timestamp = now, ent_Tenant = res_Tenant r, ProviderKind = provider, ent_Model = model,
      ent_PromptTokens = PromptTokens u, ent_CompletionTokens = CompletionTokens u, ent_USD = usd,
      ent_PriceVersion = guard_PriceVersion (Some g), CacheHit = False, RequestID = res_ID r\<rparr>"

definition record_row ::
  "guard \<Rightarrow> 's accounts \<Rightarrow> instant \<Rightarrow> err option \<Rightarrow> reservation \<Rightarrow> usage \<Rightarrow> float64 \<Rightarrow> string \<Rightarrow> string
     \<Rightarrow> err list \<times> 's accounts" where
  "record_row g a now io r u usd model provider =
     (if \<not> g_ledger g then ([], a)
      else case ledger_Write (a_ledger a) io (ledger_entry g now r u usd model provider) of
        (e, l) \<Rightarrow> (case e of None \<Rightarrow> [] | Some x \<Rightarrow> [x], a\<lparr>a_ledger := l\<rparr>))"

definition guard_Settle ::
  "('s \<Rightarrow> spend_row \<Rightarrow> err option \<times> 's) \<Rightarrow> guard option \<Rightarrow> 's accounts \<Rightarrow> instant \<Rightarrow> err option
     \<Rightarrow> reservation option \<Rightarrow> usage \<Rightarrow> string \<Rightarrow> string \<Rightarrow> float64 \<times> err list \<times> 's accounts" where
  "guard_Settle save g a now io r u model provider = (case (g, r) of
       (Some g', Some r') \<Rightarrow>
         (if \<not> g_enforcer g' then (0, [], a)
          else let usd = Price g provider model u in
            case Settle save (a_enf a) (a_db a) now r u usd of
              (err, e, db) \<Rightarrow>
                (case record_row g' (a\<lparr>a_enf := e, a_db := db\<rparr>) now io r' u usd model provider of
                   (errs, a') \<Rightarrow> (usd, (case err of None \<Rightarrow> [] | Some x \<Rightarrow> [x]) @ errs, a')))
     | _ \<Rightarrow> (0, [], a))"

definition Abort :: "guard option \<Rightarrow> 's accounts \<Rightarrow> instant \<Rightarrow> reservation option \<Rightarrow> err list \<times> 's accounts" where
  "Abort g a now r = (case (g, r) of
       (Some g', Some r') \<Rightarrow>
         (if \<not> g_enforcer g' then ([], a)
          else case Release (a_enf a) now r of
            (err, e) \<Rightarrow> (case err of None \<Rightarrow> [] | Some x \<Rightarrow> [x], a\<lparr>a_enf := e\<rparr>))
     | _ \<Rightarrow> ([], a))"

section \<open>Ledger and totals\<close>

text \<open>What the ledger says a tenant spent: its rows added up in order, as the enforcer adds them.\<close>

definition ledger_total :: "tenant_id \<Rightarrow> ledger \<Rightarrow> float64" where
  "ledger_total t l = (case l of
       NopLedger \<Rightarrow> 0
     | FileLedger es \<Rightarrow> foldl fadd 0 (map ent_USD (filter (\<lambda>e. ent_Tenant e = t) es)))"

definition month_of :: "mem_enforcer \<Rightarrow> tenant_id \<Rightarrow> float64" where
  "month_of e t = (case e_state e t of None \<Rightarrow> 0 | Some st \<Rightarrow> monthlySpent st)"

text \<open>Requests served one after the other or overlapping: each is admitted, and then settled or aborted.
  The ledger is a file and its writes succeed; durable writes may fail.\<close>

inductive guard_step ::
  "('s \<Rightarrow> spend_row \<Rightarrow> err option \<times> 's) \<Rightarrow> guard \<Rightarrow> instant \<Rightarrow> 's accounts \<times> reservation list
     \<Rightarrow> 's accounts \<times> reservation list \<Rightarrow> bool" for save g start where
  admitted: "start \<le> now \<Longrightarrow> now < start + monthlyWindow \<Longrightarrow>
     Begin (Some g) a now t model raw = (Inr (Some r), a') \<Longrightarrow>
     guard_step save g start (a, rs) (a', r # rs)"
| refused: "start \<le> now \<Longrightarrow> now < start + monthlyWindow \<Longrightarrow>
     Begin (Some g) a now t model raw = (Inl d, a') \<Longrightarrow>
     guard_step save g start (a, rs) (a', rs)"
| settled: "start \<le> now \<Longrightarrow> now < start + monthlyWindow \<Longrightarrow> r \<in> set rs \<Longrightarrow>
     guard_Settle save (Some g) a now None (Some r) u model provider = (usd, errs, a') \<Longrightarrow>
     guard_step save g start (a, rs) (a', filter (\<lambda>x. res_ID x \<noteq> res_ID r) rs)"
| aborted: "start \<le> now \<Longrightarrow> now < start + monthlyWindow \<Longrightarrow> r \<in> set rs \<Longrightarrow>
     Abort (Some g) a now (Some r) = (errs, a') \<Longrightarrow>
     guard_step save g start (a, rs) (a', filter (\<lambda>x. res_ID x \<noteq> res_ID r) rs)"

text \<open>Every held reservation is unsettled, no month started before the run, and ledger and month agree.\<close>

definition held_ok :: "nat \<Rightarrow> mem_enforcer \<Rightarrow> reservation list \<Rightarrow> bool" where
  "held_ok n e rs \<longleftrightarrow> nextID e \<le> n \<and> (\<forall>r \<in> set rs. res_ID r \<notin> settled e)
     \<and> res_ID ` set rs \<union> settled e \<subseteq> FormatUint ` {1..nextID e}"

definition reconciled :: "instant \<Rightarrow> nat \<Rightarrow> 's accounts \<times> reservation list \<Rightarrow> bool" where
  "reconciled start n s \<longleftrightarrow> (case s of (a, rs) \<Rightarrow>
     (\<exists>es. a_ledger a = FileLedger es)
     \<and> (\<forall>t. month_of (a_enf a) t = ledger_total t (a_ledger a))
     \<and> (\<forall>t st. e_state (a_enf a) t = Some st \<longrightarrow> start \<le> monthlyStart st)
     \<and> held_ok n (a_enf a) rs)"

lemma no_rollover:
  assumes "\<forall>t st. e_state e t = Some st \<longrightarrow> start \<le> monthlyStart st" "start \<le> now" "now < start + monthlyWindow"
  shows "monthlySpent (stateFor e t now) = month_of e t \<and> start \<le> monthlyStart (stateFor e t now)"
proof (cases "e_state e t")
  case (Some st)
  have w: "0 < monthlyWindow" "monthlyWindow < 2 ^ 63" by (simp_all add: window_defs)
  have "start \<le> monthlyStart st" using assms(1) Some by blast
  then have "\<not> monthlyWindow \<le> time_Sub now (monthlyStart st)"
    using assms(3) by (simp add: time_Sub_ge_pos [OF w])
  with Some assms(1) show ?thesis by (simp add: stateFor_def month_of_def rollMonthly_def)
qed (use assms(2) in \<open>simp add: stateFor_def month_of_def fresh_state_def\<close>)

lemma ledger_total_append:
  "ledger_total t (FileLedger (es @ [x])) = (if ent_Tenant x = t then fadd (ledger_total t (FileLedger es)) (ent_USD x)
     else ledger_total t (FileLedger es))"
  by (simp add: ledger_total_def)

text \<open>The locked half of a settlement decides the totals; the durable half does not touch them.\<close>

lemma persist_frame:
  assumes "persist save e db row n = (x, e', db')"
  shows "e_state e' = e_state e \<and> nextID e' = nextID e \<and> settled e' = settled e"
  using assms by (auto simp: persist_def SetStoreHealthy_def split: prod.splits option.splits if_splits)

lemma Settle_effect:
  assumes "res_ID r \<notin> settled e" "Settle save e db now (Some r) u usd = (x, e', db')"
  shows "e_state e' = (e_state e)(res_Tenant r \<mapsto> bill (stateFor e (res_Tenant r) now) (res_Estimate r) u usd)
       \<and> nextID e' = nextID e \<and> settled e' = insert (res_ID r) (settled e)"
proof -
  obtain res e1 where S: "Settle_locked e now (Some r) u usd = (res, e1)" by fastforce
  have "e_state e' = e_state e1 \<and> nextID e' = nextID e1 \<and> settled e' = settled e1"
    using assms(2) persist_frame [of save e1 db] unfolding Settle_def S
    by (auto split: sum.splits option.splits)
  with Settle_locked_fresh [OF assms(1), of now u usd] S show ?thesis by simp
qed

lemma held_ok_close:
  assumes "held_ok n e rs" "r \<in> set rs" "nextID e' = nextID e" "settled e' = insert (res_ID r) (settled e)"
  shows "held_ok (Suc n) e' (filter (\<lambda>x. res_ID x \<noteq> res_ID r) rs)"
  using assms by (auto simp: held_ok_def)

lemma Begin_admits:
  assumes "Begin (Some g) a now t model raw = (Inr (Some r), a')"
  shows "\<exists>est e. Reserve (a_enf a) now t est = (Inr r, e) \<and> a' = a\<lparr>a_enf := e\<rparr>"
  using assms by (auto simp: Begin_def split: option.splits if_splits prod.splits sum.splits)

lemma Begin_refuses:
  assumes "Begin (Some g) a now t model raw = (Inl d, a')"
  shows "\<exists>est e. Reserve (a_enf a) now t est = (Inl d, e) \<and> a' = a\<lparr>a_enf := e\<rparr>"
  using assms by (auto simp: Begin_def split: option.splits if_splits prod.splits sum.splits)

lemma reconciled_set:
  assumes rec: "reconciled start n (a, rs)" and now: "start \<le> now" "now < start + monthlyWindow"
    and e: "e_state e = (e_state (a_enf a))(q \<mapsto> st)" "monthlyStart st = monthlyStart (stateFor (a_enf a) q now)"
    and l: "\<exists>es. l = FileLedger es" "ledger_total q l = monthlySpent st"
      "\<And>t. t \<noteq> q \<Longrightarrow> ledger_total t l = ledger_total t (a_ledger a)"
    and h: "held_ok (Suc n) e rs'"
  shows "reconciled start (Suc n) (a\<lparr>a_enf := e, a_db := db, a_ledger := l\<rparr>, rs')"
proof -
  have starts: "\<forall>t st. e_state (a_enf a) t = Some st \<longrightarrow> start \<le> monthlyStart st"
    and eq: "\<And>t. month_of (a_enf a) t = ledger_total t (a_ledger a)"
    using rec by (auto simp: reconciled_def)
  have "start \<le> monthlyStart st" using no_rollover [OF starts now, of q] e(2) by simp
  moreover have "month_of e t = ledger_total t l" for t
    using eq [of t] l e(1) by (cases "t = q") (auto simp: month_of_def)
  ultimately show ?thesis using starts l(1) h e(1) by (auto simp: reconciled_def)
qed

lemma reconciled_set_enf:
  assumes rec: "reconciled start n (a, rs)" and now: "start \<le> now" "now < start + monthlyWindow"
    and e: "e_state e = (e_state (a_enf a))(q \<mapsto> st)" "monthlyStart st = monthlyStart (stateFor (a_enf a) q now)"
      "monthlySpent st = monthlySpent (stateFor (a_enf a) q now)"
    and h: "held_ok (Suc n) e rs'"
  shows "reconciled start (Suc n) (a\<lparr>a_enf := e\<rparr>, rs')"
proof -
  have "\<forall>t st. e_state (a_enf a) t = Some st \<longrightarrow> start \<le> monthlyStart st" using rec by (auto simp: reconciled_def)
  from no_rollover [OF this now, of q] rec e(3) have "ledger_total q (a_ledger a) = monthlySpent st"
    by (simp add: reconciled_def)
  then have "reconciled start (Suc n) (a\<lparr>a_enf := e, a_db := a_db a, a_ledger := a_ledger a\<rparr>, rs')"
    using rec h by (intro reconciled_set [OF rec now e(1,2)]) (auto simp: reconciled_def)
  then show ?thesis by simp
qed

lemma reconciled_step:
  assumes step: "guard_step save g start (a, rs) (a', rs')" and rec: "reconciled start n (a, rs)"
    and n: "Suc n < 2 ^ 64" and g: "g_enforcer g" "g_ledger g"
  shows "reconciled start (Suc n) (a', rs')"
proof -
  have starts: "\<forall>t st. e_state (a_enf a) t = Some st \<longrightarrow> start \<le> monthlyStart st"
    and eq: "\<And>t. month_of (a_enf a) t = ledger_total t (a_ledger a)"
    and held: "held_ok n (a_enf a) rs" and led: "\<exists>es. a_ledger a = FileLedger es"
    using rec by (auto simp: reconciled_def)
  note roll = no_rollover [OF starts]
  show ?thesis
    using step
  proof cases
    case (admitted now t model raw r)
    then obtain est e where R: "Reserve (a_enf a) now t est = (Inr r, e)" "a' = a\<lparr>a_enf := e\<rparr>"
      using Begin_admits by blast
    have k: "wrap_u64 (nextID (a_enf a) + 1) = nextID (a_enf a) + 1"
      using n held by (intro wrap_u64_id) (auto simp: held_ok_def)
    note f = Reserve_admits(2,3) [OF R(1), unfolded k]
    have "FormatUint (nextID (a_enf a) + 1) \<notin> FormatUint ` {1..nextID (a_enf a)}" by auto
    then have "held_ok (Suc n) e rs'" using held admitted by (auto simp: held_ok_def f image_iff)
    then show ?thesis unfolding R(2) using admitted f
      by (intro reconciled_set_enf [OF rec, of now, where q = t and st = "claim (stateFor (a_enf a) t now) est"]) auto
  next
    case (refused now t model raw d)
    then obtain est e where R: "Reserve (a_enf a) now t est = (Inl d, e)" "a' = a\<lparr>a_enf := e\<rparr>"
      using Begin_refuses by blast
    from Reserve_denies [OF R(1)] show ?thesis
    proof
      assume "e = a_enf a"
      with rec R(2) refused(1) held show ?thesis by (auto simp: reconciled_def held_ok_def)
    next
      assume "e = touch (a_enf a) t now"
      then show ?thesis unfolding R(2) using refused held
        by (intro reconciled_set_enf [OF rec, of now, where q = t and st = "stateFor (a_enf a) t now"])
          (auto simp: held_ok_def)
    qed
  next
    case (settled now r u model provider usd errs)
    have fresh: "res_ID r \<notin> Budget_Enforcer.settled (a_enf a)" using held settled by (auto simp: held_ok_def)
    obtain es where es: "a_ledger a = FileLedger es" using led by blast
    obtain x e db where S: "Settle save (a_enf a) (a_db a) now (Some r) u (Price (Some g) provider model u) = (x, e, db)"
      by (metis prod_cases3)
    have a': "a' = a\<lparr>a_enf := e, a_db := db, a_ledger := FileLedger (es @
        [ledger_entry g now r u (Price (Some g) provider model u) model provider])\<rparr>"
      using settled g S es by (auto simp: guard_Settle_def Let_def record_row_def)
    show ?thesis unfolding a'
      using settled Settle_effect [OF fresh S] eq roll [of now "res_Tenant r"] held es
      by (intro reconciled_set [OF rec, of now, where q = "res_Tenant r"
            and st = "bill (stateFor (a_enf a) (res_Tenant r) now) (res_Estimate r) u (Price (Some g) provider model u)"])
        (auto simp: ledger_total_append ledger_entry_def intro: held_ok_close)
  next
    case (aborted now r errs)
    have fresh: "res_ID r \<notin> Budget_Enforcer.settled (a_enf a)" using held aborted by (auto simp: held_ok_def)
    have a': "a' = a\<lparr>a_enf := snd (Release (a_enf a) now (Some r))\<rparr>"
      using aborted g by (auto simp: Abort_def split: prod.splits)
    show ?thesis unfolding a'
      using aborted Release_fresh [OF fresh, of now] held
      by (intro reconciled_set_enf [OF rec, of now, where q = "res_Tenant r"
            and st = "unclaim (stateFor (a_enf a) (res_Tenant r) now) (res_Estimate r)"])
        (auto intro: held_ok_close)
  qed
qed

lemma reconciled_steps:
  assumes "(guard_step save g start ^^ n) s s'" "reconciled start 0 s" "n < 2 ^ 64" "g_enforcer g" "g_ledger g"
  shows "reconciled start n s'"
  using assms(1,3)
proof (induction n arbitrary: s')
  case (Suc n)
  then obtain s1 where s1: "(guard_step save g start ^^ n) s s1" "guard_step save g start s1 s'" by auto
  with Suc have "reconciled start n s1" by simp
  with s1(2) Suc.prems(2) assms(4,5) reconciled_step [of save g start "fst s1" "snd s1" "fst s'" "snd s'" n]
  show ?case by simp
qed (use assms(2) in simp)

section \<open>Properties\<close>

text \<open>(C14) The books reconcile: from an empty ledger and a new enforcer, after any sequence of admissions,
  refusals, settlements and aborts of any number of tenants inside one monthly window, the monthly total
  the enforcer holds for a tenant is exactly the sum of the ledger rows of that tenant, also when durable
  writes fail.\<close>

theorem ledger_reconciles:
  assumes "(guard_step save g start ^^ n) (\<lparr>a_enf = e, a_db = db, a_ledger = FileLedger []\<rparr>, []) (a, rs)"
    and "e = NewEnforcer lims \<or> e = (NewEnforcer lims)\<lparr>has_store := True\<rparr>"
    and "n < 2 ^ 64" "g_enforcer g" "g_ledger g"
  shows "month_of (a_enf a) t = ledger_total t (a_ledger a)"
proof -
  have "reconciled start 0 (\<lparr>a_enf = e, a_db = db, a_ledger = FileLedger []\<rparr>, [])"
    using assms(2) by (auto simp: reconciled_def held_ok_def month_of_def ledger_total_def)
  from reconciled_steps [OF assms(1) this assms(3-5)] show ?thesis by (simp add: reconciled_def)
qed

section \<open>Witnesses\<close>

definition demo_guard :: guard where
  "demo_guard = \<lparr>g_estimator = Some (\<lambda>model raw. res_Estimate demo_claim_of), g_enforcer = True,
     g_prices = Some demo_table, g_kindOf = Some (\<lambda>p. ''openai''), g_ledger = True\<rparr>"

lemma demo_begin: "\<exists>r a. Begin (Some demo_guard) \<lparr>a_enf = demo_start, a_db = (([], []) :: sqlite_store), a_ledger = FileLedger []\<rparr>
    demo_now ''acme'' ''gpt-4o-mini'' [] = (Inr (Some r), a)"
proof -
  have "fadd (fadd 0 0) 1 \<le> 10" "fadd (fadd 0 0) 1 \<le> 100" by code_simp+
  then show ?thesis
    by (simp add: Begin_def demo_guard_def Reserve_def demo_start_def demo_store_limits_def checkRates_def
        checkBudgets_def stateFor_def fresh_state_def demo_claim_of_def Let_def)
qed

lemma ledger_reconciles_witness:
  "\<exists>a rs. (guard_step SQLite_Save demo_guard demo_now ^^ 2)
       (\<lparr>a_enf = demo_start, a_db = ([], []), a_ledger = FileLedger []\<rparr>, []) (a, rs)
     \<and> month_of (a_enf a) ''acme'' = ledger_total ''acme'' (a_ledger a)"
proof -
  obtain r a1 where b: "Begin (Some demo_guard) \<lparr>a_enf = demo_start, a_db = (([], []) :: sqlite_store), a_ledger = FileLedger []\<rparr>
      demo_now ''acme'' ''gpt-4o-mini'' [] = (Inr (Some r), a1)" using demo_begin by blast
  obtain usd errs a2 where s: "guard_Settle SQLite_Save (Some demo_guard) a1 demo_now None (Some r) demo_usage
      ''gpt-4o-mini'' ''openai'' = (usd, errs, a2)" by (metis prod_cases3)
  have w: "demo_now < demo_now + monthlyWindow" by (simp add: window_defs)
  have "(guard_step SQLite_Save demo_guard demo_now ^^ 2)
      (\<lparr>a_enf = demo_start, a_db = ([], []), a_ledger = FileLedger []\<rparr>, []) (a2, filter (\<lambda>x. res_ID x \<noteq> res_ID r) [r])"
    unfolding numeral_2_eq_2 using guard_step.admitted [OF order_refl w b, of SQLite_Save "[]"]
      guard_step.settled [OF order_refl w _ s, of "[r]"] by (auto simp: relpowp.simps)
  moreover from ledger_reconciles [OF this, of demo_store_limits "''acme''"]
  have "month_of (a_enf a2) ''acme'' = ledger_total ''acme'' (a_ledger a2)"
    by (simp add: demo_start_def demo_guard_def)
  ultimately show ?thesis by blast
qed

end
