(* ===== verification/JSON.thy ===== *)
theory JSON
  imports Go_Format
begin

text \<open>
  What the program uses of Go's \<^verbatim>\<open>encoding/json\<close>: the grammar with its nesting limit, string unquoting with
  UTF-16 escapes and the replacement of bytes that are not UTF-8, and decoding into struct fields, which
  matches keys without regard to case, lets a later duplicate win, ignores \<^verbatim>\<open>null\<close> and reports a type
  mismatch as an error. A number keeps its text. Parsers return what they read and the rest of the input.
\<close>

datatype json =
    JNull
  | JBool bool
  | JNum string
  | JStr string
  | JArr "json list"
  | JObj "(string \<times> json) list"

section \<open>Characters\<close>

abbreviation byte :: "char \<Rightarrow> nat" where "byte c \<equiv> of_char c"

definition is_json_ws :: "char \<Rightarrow> bool" where
  "is_json_ws c \<longleftrightarrow> byte c \<in> {9, 10, 13, 32}"

definition skip_ws :: "string \<Rightarrow> string" where
  "skip_ws s = dropWhile is_json_ws s"

definition dec_digit :: "char \<Rightarrow> bool" where
  "dec_digit c \<longleftrightarrow> 48 \<le> byte c \<and> byte c \<le> 57"

definition hex_value :: "char \<Rightarrow> nat option" where
  "hex_value c = (let b = byte c in
     if 48 \<le> b \<and> b \<le> 57 then Some (b - 48)
     else if 97 \<le> b \<and> b \<le> 102 then Some (b - 87)
     else if 65 \<le> b \<and> b \<le> 70 then Some (b - 55) else None)"

text \<open>UTF-8 of a code point, and the length of the well formed sequence a string starts with (0 if it is
  not well formed: overlong forms, surrogates and values above \<^verbatim>\<open>U+10FFFF\<close> are not).\<close>

definition utf8_encode :: "nat \<Rightarrow> string" where
  "utf8_encode r = map char_of
     (if r < 128 then [r]
      else if r < 2048 then [192 + r div 64, 128 + r mod 64]
      else if r < 65536 then [224 + r div 4096, 128 + r div 64 mod 64, 128 + r mod 64]
      else [240 + r div 262144, 128 + r div 4096 mod 64, 128 + r div 64 mod 64, 128 + r mod 64])"

definition replacement :: string where "replacement = utf8_encode 65533"

definition cont :: "char \<Rightarrow> bool" where "cont c \<longleftrightarrow> 128 \<le> byte c \<and> byte c < 192"

definition rune_length :: "string \<Rightarrow> nat" where
  "rune_length s = (case s of
       [] \<Rightarrow> 0
     | a # r \<Rightarrow>
         if byte a < 128 then 1
         else if 194 \<le> byte a \<and> byte a < 224 then (case r of b # _ \<Rightarrow> if cont b then 2 else 0 | _ \<Rightarrow> 0)
         else if 224 \<le> byte a \<and> byte a < 240 then
           (case r of b # c # _ \<Rightarrow>
              if cont b \<and> cont c \<and> (byte a = 224 \<longrightarrow> 160 \<le> byte b) \<and> (byte a = 237 \<longrightarrow> byte b < 160) then 3 else 0
            | _ \<Rightarrow> 0)
         else if 240 \<le> byte a \<and> byte a < 245 then
           (case r of b # c # d # _ \<Rightarrow>
              if cont b \<and> cont c \<and> cont d \<and> (byte a = 240 \<longrightarrow> 144 \<le> byte b) \<and> (byte a = 244 \<longrightarrow> byte b < 144) then 4 else 0
            | _ \<Rightarrow> 0)
         else 0)"

section \<open>Strings\<close>

text \<open>Four hexadecimal digits (\<^verbatim>\<open>getu4\<close> after the escape), and one escape sequence after its backslash.\<close>

definition hex4 :: "string \<Rightarrow> (nat \<times> string) option" where
  "hex4 s = (case s of a # b # c # d # r \<Rightarrow>
       (case (hex_value a, hex_value b, hex_value c, hex_value d) of
          (Some w, Some x, Some y, Some z) \<Rightarrow> Some (4096 * w + 256 * x + 16 * y + z, r)
        | _ \<Rightarrow> None)
     | _ \<Rightarrow> None)"

definition high_surrogate :: "nat \<Rightarrow> bool" where "high_surrogate r \<longleftrightarrow> 55296 \<le> r \<and> r < 56320"
definition low_surrogate :: "nat \<Rightarrow> bool" where "low_surrogate r \<longleftrightarrow> 56320 \<le> r \<and> r < 57344"

definition unicode_escape :: "string \<Rightarrow> (string \<times> string) option" where
  "unicode_escape s = (case hex4 s of
       None \<Rightarrow> None
     | Some (r, rest) \<Rightarrow>
         if high_surrogate r \<or> low_surrogate r then
           (case rest of
              x # y # rest1 \<Rightarrow>
                (case hex4 rest1 of
                   Some (r2, rest2) \<Rightarrow>
                     if x = CHR 0x5C \<and> y = CHR ''u'' \<and> high_surrogate r \<and> low_surrogate r2
                     then Some (utf8_encode (65536 + (r - 55296) * 1024 + (r2 - 56320)), rest2)
                     else Some (replacement, rest)
                 | None \<Rightarrow> Some (replacement, rest))
            | _ \<Rightarrow> Some (replacement, rest))
         else Some (utf8_encode r, rest))"

definition simple_escape :: "char \<Rightarrow> string option" where
  "simple_escape c =
     (if c = CHR 0x22 \<or> c = CHR 0x5C \<or> c = CHR ''/'' then Some [c]
      else if c = CHR ''b'' then Some [CHR 0x08] else if c = CHR ''f'' then Some [CHR 0x0C]
      else if c = CHR ''n'' then Some [CHR 0x0A] else if c = CHR ''r'' then Some [CHR 0x0D]
      else if c = CHR ''t'' then Some [CHR 0x09] else None)"

text \<open>The characters of a string after its opening quote.\<close>

function parse_chars :: "string \<Rightarrow> (string \<times> string) option" where
  "parse_chars s = (case s of
       [] \<Rightarrow> None
     | c # r \<Rightarrow>
         if c = CHR 0x22 then Some ([], r)
         else if byte c < 32 then None
         else
           let step = (if c = CHR 0x5C
               then (case r of
                   [] \<Rightarrow> None
                 | e # r' \<Rightarrow> if e = CHR ''u'' then unicode_escape r'
                     else (case simple_escape e of None \<Rightarrow> None | Some t \<Rightarrow> Some (t, r')))
               else let n = rune_length s in
                 if n = 0 then Some (replacement, r) else Some (take n s, drop n s))
           in (case step of
                 None \<Rightarrow> None
               | Some (t, rest) \<Rightarrow>
                   if length rest < length s
                   then (case parse_chars rest of None \<Rightarrow> None | Some (ts, rest') \<Rightarrow> Some (t @ ts, rest'))
                   else None))"
  by pat_completeness auto
termination by (relation "measure length") auto

declare parse_chars.simps [simp del]

section \<open>Numbers and literals\<close>

definition digits :: "string \<Rightarrow> (string \<times> string) option" where
  "digits s = (let d = takeWhile dec_digit s in if d = [] then None else Some (d, dropWhile dec_digit s))"

definition parse_int_part :: "string \<Rightarrow> (string \<times> string) option" where
  "parse_int_part s = (case s of
       [] \<Rightarrow> None
     | c # r \<Rightarrow> if c = CHR ''0'' then Some ([c], r) else digits s)"

definition parse_frac :: "string \<Rightarrow> (string \<times> string) option" where
  "parse_frac s = (case s of
       c # r \<Rightarrow> if c = CHR ''.'' then map_option (\<lambda>(d, r'). (c # d, r')) (digits r) else Some ([], s)
     | [] \<Rightarrow> Some ([], s))"

definition parse_exp :: "string \<Rightarrow> (string \<times> string) option" where
  "parse_exp s = (case s of
       c # r \<Rightarrow> if c = CHR ''e'' \<or> c = CHR ''E''
         then (case r of
             g # r' \<Rightarrow> if g = CHR ''+'' \<or> g = CHR ''-'' then map_option (\<lambda>(d, x). (c # g # d, x)) (digits r')
               else map_option (\<lambda>(d, x). (c # d, x)) (digits r)
           | [] \<Rightarrow> None)
         else Some ([], s)
     | [] \<Rightarrow> Some ([], s))"

definition parse_number :: "string \<Rightarrow> (string \<times> string) option" where
  "parse_number s = (let (sign, r0) = (if take 1 s = ''-'' then (''-'', drop 1 s) else ([], s)) in
     case parse_int_part r0 of None \<Rightarrow> None | Some (i, r1) \<Rightarrow>
     (case parse_frac r1 of None \<Rightarrow> None | Some (f, r2) \<Rightarrow>
     (case parse_exp r2 of None \<Rightarrow> None | Some (x, r3) \<Rightarrow> Some (sign @ i @ f @ x, r3))))"

definition parse_literal :: "string \<Rightarrow> (json \<times> string) option" where
  "parse_literal s =
     (if HasPrefix s ''null'' then Some (JNull, drop 4 s)
      else if HasPrefix s ''true'' then Some (JBool True, drop 4 s)
      else if HasPrefix s ''false'' then Some (JBool False, drop 5 s)
      else map_option (\<lambda>(t, r). (JNum t, r)) (parse_number s))"

section \<open>Values\<close>

text \<open>Values, array elements and object members. Every call spends one unit of fuel and reads at least one
  character, so the length of the input is enough; the depth counts open brackets, at most 10000.\<close>

definition max_depth :: nat where "max_depth = 10000"

fun parse_value :: "nat \<Rightarrow> nat \<Rightarrow> string \<Rightarrow> (json \<times> string) option"
  and parse_elems :: "nat \<Rightarrow> nat \<Rightarrow> string \<Rightarrow> (json list \<times> string) option"
  and parse_members :: "nat \<Rightarrow> nat \<Rightarrow> string \<Rightarrow> ((string \<times> json) list \<times> string) option" where
  "parse_value 0 depth s = None"
| "parse_value (Suc n) depth s = (case skip_ws s of
       [] \<Rightarrow> None
     | c # r \<Rightarrow>
         if c = CHR 0x22 then map_option (\<lambda>(t, x). (JStr t, x)) (parse_chars r)
         else if c = CHR ''['' then
           (if max_depth \<le> depth then None
            else case skip_ws r of
              [] \<Rightarrow> None
            | d # r' \<Rightarrow> if d = CHR '']'' then Some (JArr [], r')
                else map_option (\<lambda>(vs, x). (JArr vs, x)) (parse_elems n (Suc depth) r))
         else if c = CHR ''{'' then
           (if max_depth \<le> depth then None
            else case skip_ws r of
              [] \<Rightarrow> None
            | d # r' \<Rightarrow> if d = CHR ''}'' then Some (JObj [], r')
                else map_option (\<lambda>(ms, x). (JObj ms, x)) (parse_members n (Suc depth) r))
         else parse_literal (c # r))"
| "parse_elems 0 depth s = None"
| "parse_elems (Suc n) depth s = (case parse_value n depth s of
       None \<Rightarrow> None
     | Some (v, r) \<Rightarrow>
         (case skip_ws r of
            [] \<Rightarrow> None
          | c # r' \<Rightarrow>
              if c = CHR '']'' then Some ([v], r')
              else if c = CHR '','' then map_option (\<lambda>(vs, x). (v # vs, x)) (parse_elems n depth r')
              else None))"
| "parse_members 0 depth s = None"
| "parse_members (Suc n) depth s = (case skip_ws s of
       [] \<Rightarrow> None
     | q # r \<Rightarrow>
         if q \<noteq> CHR 0x22 then None
         else case parse_chars r of
           None \<Rightarrow> None
         | Some (k, r1) \<Rightarrow>
             (case skip_ws r1 of
                [] \<Rightarrow> None
              | c # r2 \<Rightarrow>
                  if c \<noteq> CHR '':'' then None
                  else case parse_value n depth r2 of
                    None \<Rightarrow> None
                  | Some (v, r3) \<Rightarrow>
                      (case skip_ws r3 of
                         [] \<Rightarrow> None
                       | d # r4 \<Rightarrow>
                           if d = CHR ''}'' then Some ([(k, v)], r4)
                           else if d = CHR '','' then map_option (\<lambda>(ms, x). ((k, v) # ms, x)) (parse_members n depth r4)
                           else None)))"

text \<open>A whole document: one value, then white space only.\<close>

definition json_parse :: "string \<Rightarrow> json option" where
  "json_parse s = (case parse_value (length s + 1) 0 s of
       Some (v, r) \<Rightarrow> if skip_ws r = [] then Some v else None
     | None \<Rightarrow> None)"

section \<open>Decoding into fields\<close>

text \<open>The folding that struct field lookup uses: ASCII letters without case, the Kelvin sign as \<^verbatim>\<open>K\<close> and the
  long s as \<^verbatim>\<open>S\<close>.\<close>

definition fold_char :: "char \<Rightarrow> char" where
  "fold_char c = (if 97 \<le> byte c \<and> byte c \<le> 122 then char_of (byte c - 32) else c)"

fun foldName :: "string \<Rightarrow> string" where
  "foldName (a # b # c # s) =
     (if [byte a, byte b, byte c] = [226, 132, 170] then CHR ''K'' # foldName s
      else if [byte a, byte b] = [197, 191] then CHR ''S'' # foldName (c # s)
      else fold_char a # foldName (b # c # s))"
| "foldName [a, b] = (if [byte a, byte b] = [197, 191] then ''S'' else [fold_char a, fold_char b])"
| "foldName [a] = [fold_char a]"
| "foldName [] = []"

text \<open>The values given for one field, in document order.\<close>

definition field_values :: "string \<Rightarrow> (string \<times> json) list \<Rightarrow> json list" where
  "field_values name ms = map snd (filter (\<lambda>(k, v). foldName k = foldName name) ms)"

text \<open>A field of a scalar type: \<^verbatim>\<open>null\<close> leaves it, a value of the right type sets it, anything else is an
  error. \<open>decode\<close> gives the value of a JSON value of the right type.\<close>

definition decode_field :: "(json \<Rightarrow> 'a option) \<Rightarrow> 'a \<Rightarrow> json list \<Rightarrow> 'a option" where
  "decode_field decode zero vs = foldl (\<lambda>acc v. case acc of
       None \<Rightarrow> None
     | Some x \<Rightarrow> (if v = JNull then Some x else decode v)) (Some zero) vs"

text \<open>A pointer field: \<^verbatim>\<open>null\<close> sets it to nil.\<close>

definition decode_pointer :: "(json \<Rightarrow> 'a option) \<Rightarrow> json list \<Rightarrow> 'a option option" where
  "decode_pointer decode vs = foldl (\<lambda>acc v. case acc of
       None \<Rightarrow> None
     | Some x \<Rightarrow> (if v = JNull then Some None else map_option Some (decode v))) (Some None) vs"

definition as_string :: "json \<Rightarrow> string option" where
  "as_string v = (case v of JStr s \<Rightarrow> Some s | _ \<Rightarrow> None)"

definition as_bool :: "json \<Rightarrow> bool option" where
  "as_bool v = (case v of JBool b \<Rightarrow> Some b | _ \<Rightarrow> None)"

text \<open>\<^verbatim>\<open>strconv.ParseInt(text, 10, 64)\<close> on a JSON number: digits with an optional minus sign, in range.\<close>

definition as_int :: "json \<Rightarrow> goint option" where
  "as_int v = (case v of
       JNum t \<Rightarrow>
         (let neg = (take 1 t = ''-''); ds = (if neg then drop 1 t else t);
              n = foldl (\<lambda>acc c. 10 * acc + (int (byte c) - 48)) 0 ds; i = (if neg then - n else n)
          in if list_all dec_digit ds \<and> ds \<noteq> [] \<and> int64_ok i then Some i else None)
     | _ \<Rightarrow> None)"

definition as_object :: "json \<Rightarrow> (string \<times> json) list option" where
  "as_object v = (case v of JObj ms \<Rightarrow> Some ms | JNull \<Rightarrow> Some [] | _ \<Rightarrow> None)"

definition as_array :: "json \<Rightarrow> json list option" where
  "as_array v = (case v of JArr vs \<Rightarrow> Some vs | _ \<Rightarrow> None)"

text \<open>An entry of a content array: its \<^verbatim>\<open>type\<close> and its \<^verbatim>\<open>text\<close>.\<close>

definition decode_part :: "json \<Rightarrow> (string \<times> string) option" where
  "decode_part v = (case as_object v of
       None \<Rightarrow> None
     | Some ms \<Rightarrow>
         (case (decode_field as_string [] (field_values ''type'' ms), decode_field as_string [] (field_values ''text'' ms)) of
            (Some ty, Some tx) \<Rightarrow> Some (ty, tx)
          | _ \<Rightarrow> None))"

text \<open>\<^verbatim>\<open>strconv.ParseFloat\<close> of a JSON number: the nearest float, an error beyond the largest one.\<close>

definition dec_nat :: "string \<Rightarrow> int" where
  "dec_nat ds = foldl (\<lambda>acc c. 10 * acc + (int (byte c) - 48)) 0 ds"

definition number_value :: "string \<Rightarrow> rat" where
  "number_value t =
     (let neg = (take 1 t = ''-''); t1 = (if neg then drop 1 t else t);
          i = takeWhile dec_digit t1; r1 = dropWhile dec_digit t1;
          f = (if take 1 r1 = ''.'' then takeWhile dec_digit (drop 1 r1) else []);
          r2 = (if take 1 r1 = ''.'' then dropWhile dec_digit (drop 1 r1) else r1);
          r3 = drop 1 r2; eneg = (take 1 r3 = ''-'');
          e = (if r2 = [] then 0 else dec_nat (if eneg \<or> take 1 r3 = ''+'' then drop 1 r3 else r3));
          x = (if eneg then - e else e) - int (length f);
          m = of_int (dec_nat (i @ f)) * 10 powi x
      in if neg then - m else m)"

definition as_float :: "json \<Rightarrow> float64 option" where
  "as_float v = (case v of
       JNum t \<Rightarrow> (let x = rnd64 (number_value t) in if \<bar>x\<bar> < 2 ^ 1024 then Some x else None)
     | _ \<Rightarrow> None)"

end
