(* ===== verification/Budget_Estimator.thy ===== *)
theory Budget_Estimator
  imports JSON Budget_Guard
begin

text \<open>
  The estimator (\<^verbatim>\<open>src/internal/budget/estimator.go\<close>): what one request is expected to consume, read off an
  OpenAI style chat body. The lemmas show that no estimate is free, that it covers the text it was read
  from and respects the operator's ceiling, and what happens to the sum when there is no ceiling.
\<close>

section \<open>Options and body\<close>

definition charsPerToken :: goint where "charsPerToken = 4"
definition messageOverheadTokens :: goint where "messageOverheadTokens = 4"
definition unreadableBodyFloorTokens :: goint where "unreadableBodyFloorTokens = 1024"
definition fallbackCompletionTokens :: goint where "fallbackCompletionTokens = 1024"
definition contentPartTypeText :: string where "contentPartTypeText = ''text''"

record estimator_options =
  DefaultCompletionTokens :: goint
  MaxCompletionTokens :: goint

record estimator =
  est_table :: "table option"
  est_resolve :: "(string \<Rightarrow> string \<times> string) option"
  est_opts :: estimator_options

definition NewEstimator ::
  "table option \<Rightarrow> (string \<Rightarrow> string \<times> string) option \<Rightarrow> estimator_options \<Rightarrow> estimator" where
  "NewEstimator t resolve opts = \<lparr>est_table = t, est_resolve = resolve,
     est_opts = (if DefaultCompletionTokens opts \<le> 0
       then opts\<lparr>DefaultCompletionTokens := fallbackCompletionTokens\<rparr> else opts)\<rparr>"

text \<open>The decoded body: the content field of each message, absent or a JSON value, and the two caps.\<close>

record est_request =
  req_Messages :: "json option list"
  req_MaxTokens :: "goint option"
  req_MaxCompletionTokens :: "goint option"

definition decode_message :: "json \<Rightarrow> json option option" where
  "decode_message v = map_option (\<lambda>ms. case field_values ''content'' ms of [] \<Rightarrow> None | vs \<Rightarrow> Some (last vs))
     (as_object v)"

definition decode_messages :: "json \<Rightarrow> json option list option" where
  "decode_messages v = (case as_array v of
       None \<Rightarrow> None
     | Some vs \<Rightarrow> those (map decode_message vs))"

definition decode_request :: "bytes \<Rightarrow> est_request option" where
  "decode_request raw = (case json_parse raw of
       None \<Rightarrow> None
     | Some v \<Rightarrow> (case as_object v of
         None \<Rightarrow> None
       | Some ms \<Rightarrow>
           (case (decode_field decode_messages [] (field_values ''messages'' ms),
                  decode_pointer as_int (field_values ''max_tokens'' ms),
                  decode_pointer as_int (field_values ''max_completion_tokens'' ms)) of
              (Some msgs, Some a, Some b) \<Rightarrow>
                Some \<lparr>req_Messages = msgs, req_MaxTokens = a, req_MaxCompletionTokens = b\<rparr>
            | _ \<Rightarrow> None)))"

section \<open>The estimate\<close>

definition tokensForChars :: "goint \<Rightarrow> goint" where
  "tokensForChars chars = (if chars \<le> 0 then 0 else (iadd chars (charsPerToken - 1)) div charsPerToken)"

definition textOf :: "json option \<Rightarrow> string" where
  "textOf content = (case content of
       None \<Rightarrow> []
     | Some (JStr s) \<Rightarrow> s
     | Some JNull \<Rightarrow> []
     | Some (JArr vs) \<Rightarrow>
         (case those (map decode_part vs) of
            None \<Rightarrow> []
          | Some parts \<Rightarrow> concat (map snd (filter (\<lambda>(ty, tx). ty = contentPartTypeText) parts)))
     | Some _ \<Rightarrow> [])"

definition promptTokens :: "json option list \<Rightarrow> goint" where
  "promptTokens msgs = foldl (\<lambda>total m.
     iadd total (iadd messageOverheadTokens (tokensForChars (int (length (textOf m)))))) 0 msgs"

definition unreadablePromptTokens :: "bytes \<Rightarrow> goint" where
  "unreadablePromptTokens raw =
     max (iadd messageOverheadTokens (tokensForChars (int (length raw)))) unreadableBodyFloorTokens"

definition requestedCompletionCap :: "est_request \<Rightarrow> goint" where
  "requestedCompletionCap r = foldl (\<lambda>limit c. case c of
       None \<Rightarrow> limit
     | Some n \<Rightarrow> if n \<le> 0 then limit else if limit = 0 \<or> n < limit then n else limit)
     0 [req_MaxTokens r, req_MaxCompletionTokens r]"

definition completionTokens :: "estimator \<Rightarrow> goint \<Rightarrow> goint" where
  "completionTokens e requested =
     (let n = (if requested \<le> 0 then DefaultCompletionTokens (est_opts e) else requested)
      in if 0 < MaxCompletionTokens (est_opts e) then min n (MaxCompletionTokens (est_opts e)) else n)"

definition usd :: "estimator \<Rightarrow> string \<Rightarrow> goint \<Rightarrow> goint \<Rightarrow> float64" where
  "usd e model prompt completion = (case (est_table e, est_resolve e) of
       (Some t, Some resolve) \<Rightarrow>
         (case resolve model of (kind, upstream_model) \<Rightarrow>
            let m = (if upstream_model \<noteq> [] then upstream_model else model) in
            if kind = [] then 0
            else case Cost t kind m \<lparr>PromptTokens = prompt, CompletionTokens = completion, TotalTokens = 0\<rparr> of
              None \<Rightarrow> 0
            | Some c \<Rightarrow> cost_USD c)
     | _ \<Rightarrow> 0)"

definition Estimate :: "estimator \<Rightarrow> string \<Rightarrow> bytes \<Rightarrow> estimate" where
  "Estimate e model raw =
     (let (p, c) = (case decode_request raw of
            None \<Rightarrow> (unreadablePromptTokens raw, completionTokens e 0)
          | Some r \<Rightarrow> (promptTokens (req_Messages r), completionTokens e (requestedCompletionCap r)))
      in \<lparr>est_PromptTokens = p, est_CompletionTokens = c, est_USD = usd e model p c\<rparr>)"

section \<open>Bounds\<close>

lemma completionTokens_pos:
  "0 < DefaultCompletionTokens (est_opts e) \<Longrightarrow> 0 < completionTokens e requested"
  by (simp add: completionTokens_def Let_def)

lemma NewEstimator_default: "0 < DefaultCompletionTokens (est_opts (NewEstimator t resolve opts))"
  by (simp add: NewEstimator_def fallbackCompletionTokens_def)

lemma tokensForChars_covers:
  assumes "0 \<le> chars" "chars < 2 ^ 62"
  shows "chars \<le> 4 * tokensForChars chars" "0 \<le> tokensForChars chars" "tokensForChars chars \<le> chars"
proof -
  have "iadd chars 3 = chars + 3" using assms by (intro iadd_exact) (simp add: int64_ok_def)
  then show "chars \<le> 4 * tokensForChars chars" "0 \<le> tokensForChars chars" "tokensForChars chars \<le> chars"
    using assms by (auto simp: tokensForChars_def charsPerToken_def)
qed

text \<open>What the messages cost at least and at most; the sum stays far from the top of the range.\<close>

definition chars_of :: "json option list \<Rightarrow> goint" where
  "chars_of msgs = sum_list (map (\<lambda>m. int (length (textOf m))) msgs)"

lemma chars_of_simps [simp]:
  "chars_of [] = 0" "chars_of (ms @ [m]) = chars_of ms + int (length (textOf m))"
  by (simp_all add: chars_of_def)

lemma chars_of_nonneg: "0 \<le> chars_of ms"
  by (auto simp: chars_of_def intro!: sum_list_nonneg)

lemma promptTokens_bounds:
  assumes "chars_of msgs + 8 * int (length msgs) < 2 ^ 62"
  shows "chars_of msgs + 16 * int (length msgs) \<le> 4 * promptTokens msgs
       \<and> promptTokens msgs \<le> chars_of msgs + 4 * int (length msgs)"
  using assms
proof (induction msgs rule: rev_induct)
  case (snoc m msgs)
  let ?n = "int (length (textOf m))"
  have small: "chars_of msgs + 8 * int (length msgs) < 2 ^ 62" "?n < 2 ^ 62"
    using snoc.prems chars_of_nonneg [of msgs] by auto
  note t = tokensForChars_covers [of ?n]
  note IH = snoc.IH [OF small(1)]
  have m: "iadd messageOverheadTokens (tokensForChars ?n) = 4 + tokensForChars ?n"
    using t small by (subst iadd_exact) (auto simp: messageOverheadTokens_def int64_ok_def)
  have p: "promptTokens (msgs @ [m]) = promptTokens msgs + (4 + tokensForChars ?n)"
    using IH t snoc.prems chars_of_nonneg [of msgs]
    by (simp add: promptTokens_def m, subst iadd_exact) (auto simp: int64_ok_def promptTokens_def)
  show ?case using IH t small by (simp add: p)
qed (simp add: promptTokens_def)

section \<open>Properties\<close>

text \<open>No request is estimated at nothing: every body, readable or not, is charged at least one token of
  completion, at most the operator's ceiling when there is one, an unreadable body at least the floor, and
  a readable one at least the tokens its text and framing take at four characters each.\<close>

theorem estimate_is_never_free:
  assumes "e = NewEstimator t resolve opts" "int (length raw) < 2 ^ 61"
    and "case decode_request raw of None \<Rightarrow> True
         | Some r \<Rightarrow> chars_of (req_Messages r) + 8 * int (length (req_Messages r)) < 2 ^ 62"
  shows "0 < est_CompletionTokens (Estimate e model raw)
       \<and> (0 < MaxCompletionTokens opts \<longrightarrow> est_CompletionTokens (Estimate e model raw) \<le> MaxCompletionTokens opts)
       \<and> (case decode_request raw of
            None \<Rightarrow> unreadableBodyFloorTokens \<le> est_PromptTokens (Estimate e model raw)
              \<and> int (length raw) \<le> 4 * est_PromptTokens (Estimate e model raw)
          | Some r \<Rightarrow> chars_of (req_Messages r) + 16 * int (length (req_Messages r))
              \<le> 4 * est_PromptTokens (Estimate e model raw))"
proof -
  have c: "0 < completionTokens e n" "0 < MaxCompletionTokens opts \<longrightarrow> completionTokens e n \<le> MaxCompletionTokens opts" for n
    using NewEstimator_default [of t resolve opts] assms(1)
    by (auto intro: completionTokens_pos simp: completionTokens_def NewEstimator_def Let_def)
  have raw: "iadd messageOverheadTokens (tokensForChars (int (length raw))) = 4 + tokensForChars (int (length raw))"
    using tokensForChars_covers [of "int (length raw)"] assms(2)
    by (subst iadd_exact) (auto simp: messageOverheadTokens_def int64_ok_def)
  show ?thesis
  proof (cases "decode_request raw")
    case None
    let ?p = "max (4 + tokensForChars (int (length raw))) 1024"
    have "int (length raw) \<le> 4 * tokensForChars (int (length raw))"
      using assms(2) by (intro tokensForChars_covers(1)) auto
    then have "int (length raw) \<le> 4 * ?p" by (simp add: max_def)
    with None c show ?thesis
      by (simp add: Estimate_def unreadablePromptTokens_def raw unreadableBodyFloorTokens_def)
  next
    case (Some r)
    with c promptTokens_bounds [of "req_Messages r"] assms(3) show ?thesis by (simp add: Estimate_def)
  qed
qed

text \<open>(C30) Without a ceiling the client chooses the wrap: a readable request with at least one message that
  asks for \<open>2 ^ 63 - 1\<close> completion tokens passes every token cap, since its wanted tokens wrap to a
  negative number, and drives the tenant's token counter far below zero for everything that follows.\<close>

theorem huge_completion_cap_passes_token_limit:
  assumes "e = NewEstimator t resolve opts" "MaxCompletionTokens opts \<le> 0"
    and "decode_request raw = Some r" "req_Messages r \<noteq> []" "requestedCompletionCap r = 2 ^ 63 - 1"
    and "chars_of (req_Messages r) + 8 * int (length (req_Messages r)) < 2 ^ 61"
    and "0 \<le> tokens st" "tokens st < 2 ^ 61" "0 < TokensPerMinute l"
    and "RequestsPerMinute l \<le> 0 \<or> requests st < RequestsPerMinute l"
  shows "checkRates st l (Estimate e model raw) now = None
       \<and> tokens (claim st (Estimate e model raw)) < - (2 ^ 62)"
proof -
  let ?p = "promptTokens (req_Messages r)" and ?est = "Estimate e model raw"
  have "1 \<le> int (length (req_Messages r))" using assms(4) by (cases "req_Messages r") auto
  then have p: "0 < ?p" "?p < 2 ^ 61"
    using promptTokens_bounds [of "req_Messages r"] assms(6) chars_of_nonneg [of "req_Messages r"] by auto
  have est: "est_PromptTokens ?est = ?p" "est_CompletionTokens ?est = 2 ^ 63 - 1"
    using assms(1-3,5) by (simp_all add: Estimate_def completionTokens_def NewEstimator_def)
  have w: "wanted_tokens ?est = ?p - 1 - 2 ^ 63"
    using p by (simp add: wanted_tokens_def est iadd_def wrap64_over)
  have "iadd (tokens st) (wanted_tokens ?est) = tokens st + (?p - 1 - 2 ^ 63)"
    using assms(7,8) p unfolding w by (intro iadd_exact) (simp add: int64_ok_def)
  moreover have "tokens st + (?p - 1 - 2 ^ 63) < - (2 ^ 62)" using assms(8) p by simp
  moreover from this have "\<not> TokensPerMinute l < tokens st + (?p - 1 - 2 ^ 63)" using assms(9) by simp
  ultimately show ?thesis using assms(10) by (auto simp: checkRates_def claim_def simp del: power_numeral)
qed

section \<open>Witnesses\<close>

definition demo_body :: bytes where
  "demo_body = ''{'' @ [CHR 0x22] @ ''messages'' @ [CHR 0x22] @ '':[{}],'' @ [CHR 0x22] @ ''max_tokens'' @ [CHR 0x22]
     @ '':9223372036854775807}''"

lemma demo_body_request: "decode_request demo_body = Some \<lparr>req_Messages = [None], req_MaxTokens = Some 9223372036854775807,
    req_MaxCompletionTokens = None\<rparr>"
  by code_simp

lemma estimate_is_never_free_witness:
  "0 < est_CompletionTokens (Estimate (NewEstimator None None \<lparr>DefaultCompletionTokens = 0, MaxCompletionTokens = 100\<rparr>) ''m'' demo_body)"
  by (rule conjunct1 [OF estimate_is_never_free [OF refl]])
    (simp add: demo_body_def, simp add: demo_body_request chars_of_def textOf_def)

lemma huge_completion_cap_passes_token_limit_witness:
  "checkRates (fresh_state 0) \<lparr>RequestsPerMinute = 0, TokensPerMinute = 1, DailyUSD = 0, MonthlyUSD = 0, FailClosed = True\<rparr>
     (Estimate (NewEstimator None None \<lparr>DefaultCompletionTokens = 0, MaxCompletionTokens = 0\<rparr>) ''m'' demo_body) 0 = None"
  by (rule conjunct1 [OF huge_completion_cap_passes_token_limit [OF refl _ demo_body_request]])
    (simp_all add: requestedCompletionCap_def chars_of_def textOf_def fresh_state_def)

end
