(* ===== verification/Redaction.thy ===== *)
theory Redaction
  imports Prelude
begin

text \<open>
  The text of a rejected request that may reach a client (\<^verbatim>\<open>src/internal/ingress/errors.go\<close>,
  \<^verbatim>\<open>sanitizeUpstreamMessage\<close>). The pattern of secrets is a syntax tree, matched the way Go's \<^verbatim>\<open>regexp\<close> does: the
  leftmost match, and among those the one a backtracking search finds first. The tree works on bytes; the folded
  letters s and k also stand for the two non ASCII letters Unicode folds onto them, spelled in UTF-8.
\<close>

section \<open>Patterns\<close>

datatype re =
    Byte "char \<Rightarrow> bool"
  | Seq re re
  | Alt re re
  | Opt re
  | Star re
  | WordBoundary

text \<open>A place in the text is the byte before it and the text after it.\<close>

type_synonym place = "char option \<times> string"

definition word_char :: "char \<Rightarrow> bool" where
  "word_char c \<longleftrightarrow> (let b = (of_char c :: nat) in 48 \<le> b \<and> b \<le> 57 \<or> 65 \<le> b \<and> b \<le> 90 \<or> 97 \<le> b \<and> b \<le> 122 \<or> b = 95)"

definition at_boundary :: "place \<Rightarrow> bool" where
  "at_boundary s = (case s of (before, rest) \<Rightarrow>
     (case before of None \<Rightarrow> False | Some c \<Rightarrow> word_char c) \<noteq> (case rest of [] \<Rightarrow> False | c # _ \<Rightarrow> word_char c))"

fun star_from :: "nat \<Rightarrow> (place \<Rightarrow> place list) \<Rightarrow> place \<Rightarrow> place list" where
  "star_from 0 f s = [s]"
| "star_from (Suc n) f s = concat (map (star_from n f) (filter (\<lambda>t. length (snd t) < length (snd s)) (f s))) @ [s]"

text \<open>Where a match can end, in the order a greedy backtracking search tries.\<close>

fun ends_of :: "re \<Rightarrow> place \<Rightarrow> place list" where
  "ends_of (Byte P) s = (case snd s of [] \<Rightarrow> [] | c # r \<Rightarrow> if P c then [(Some c, r)] else [])"
| "ends_of (Seq a b) s = concat (map (ends_of b) (ends_of a s))"
| "ends_of (Alt a b) s = ends_of a s @ ends_of b s"
| "ends_of (Opt a) s = ends_of a s @ [s]"
| "ends_of (Star a) s = star_from (length (snd s)) (ends_of a) s"
| "ends_of WordBoundary s = (if at_boundary s then [s] else [])"

section \<open>The pattern of secrets\<close>

fun seq :: "re list \<Rightarrow> re" where
  "seq [] = Opt (Byte (\<lambda>_. False))"
| "seq [a] = a"
| "seq (a # as) = Seq a (seq as)"

fun alts :: "re list \<Rightarrow> re" where
  "alts [] = Byte (\<lambda>_. False)"
| "alts [a] = a"
| "alts (a # as) = Alt a (alts as)"

definition one_of :: "string \<Rightarrow> re" where "one_of cs = Byte (\<lambda>c. c \<in> set cs)"

definition lit :: "string \<Rightarrow> re" where "lit s = seq (map (\<lambda>c. one_of [c]) s)"

definition plus :: "re \<Rightarrow> re" where "plus a = Seq a (Star a)"

text \<open>A lower case letter under \<^verbatim>\<open>(?i)\<close>: s also folds with U+017F, k with U+212A.\<close>

definition folded_letter :: "char \<Rightarrow> re" where
  "folded_letter c = Alt (one_of [c, char_of ((of_char c :: nat) - 32)])
     (if c = CHR ''s'' then lit [CHR 0xC5, CHR 0xBF]
      else if c = CHR ''k'' then lit [CHR 0xE2, CHR 0x84, CHR 0xAA] else Byte (\<lambda>_. False))"

definition word :: "string \<Rightarrow> re" where "word s = seq (map folded_letter s)"

definition space :: re where "space = one_of [CHR 0x09, CHR 0x0A, CHR 0x0C, CHR 0x0D, CHR 0x20]"
definition non_space :: re where "non_space = Byte (\<lambda>c. c \<notin> {CHR 0x09, CHR 0x0A, CHR 0x0C, CHR 0x0D, CHR 0x20})"
definition dec :: re where "dec = one_of ''0123456789''"

definition key_char :: re where
  "key_char = alts [Byte (\<lambda>c. word_char c \<or> c = CHR ''.'' \<or> c = CHR ''-''), lit [CHR 0xC5, CHR 0xBF], lit [CHR 0xE2, CHR 0x84, CHR 0xAA]]"

definition bearer_re :: re where "bearer_re = seq [word ''bearer'', plus space, plus non_space]"

definition key_re :: re where
  "key_re = seq ([WordBoundary, alts (map word [''sk'', ''gsk'', ''xai'', ''api'']), one_of ''-_''] @ replicate 8 key_char @ [Star key_char])"

definition octet :: re where "octet = seq [lit ''.'', dec, Opt (Seq dec (Opt dec))]"

definition address_re :: re where
  "address_re = seq [WordBoundary,
     alts [lit ''10'', lit ''127'', lit ''192.168'',
       seq [lit ''172.'', alts [seq [lit ''1'', one_of ''6789''], seq [lit ''2'', dec], seq [lit ''3'', one_of ''01'']]]],
     octet, octet, Opt octet, Opt (seq [lit '':'', plus dec])]"

definition secretPattern :: re where "secretPattern = alts [bearer_re, key_re, address_re]"

section \<open>Replacement\<close>

definition redacted :: string where "redacted = ''[redacted]''"

definition first_match :: "re \<Rightarrow> place \<Rightarrow> place option" where
  "first_match p s = (case ends_of p s of t # _ \<Rightarrow> if length (snd t) < length (snd s) then Some t else None | [] \<Rightarrow> None)"

function ReplaceAll :: "re \<Rightarrow> string \<Rightarrow> place \<Rightarrow> string" where
  "ReplaceAll p new s = (case snd s of
       [] \<Rightarrow> []
     | c # r \<Rightarrow>
         (case first_match p s of
            Some t \<Rightarrow> new @ ReplaceAll p new t
          | None \<Rightarrow> c # ReplaceAll p new (Some c, r)))"
  by pat_completeness auto
termination
  by (relation "measure (\<lambda>(p, new, s). length (snd s))")
    (auto simp: first_match_def split: list.splits if_splits)

declare ReplaceAll.simps [simp del]

definition maxRelayedMessage :: nat where "maxRelayedMessage = 512"

definition sanitizeUpstreamMessage :: "string \<Rightarrow> string" where
  "sanitizeUpstreamMessage msg = (let clean = ReplaceAll secretPattern redacted (None, msg) in
     if maxRelayedMessage < length clean then take maxRelayedMessage clean @ ''...'' else clean)"

lemma sanitized_is_short: "length (sanitizeUpstreamMessage msg) \<le> maxRelayedMessage + 3"
  by (auto simp: sanitizeUpstreamMessage_def Let_def)

end
