(* ===== verification/JSON_Encode.thy ===== *)
theory JSON_Encode
  imports JSON "HOL-Library.AList" "HOL-Library.Char_ord" "HOL-Library.List_Lexorder"
begin

text \<open>
  The other half of \<^verbatim>\<open>encoding/json\<close> the program uses: decoding into \<^verbatim>\<open>any\<close>, where an object becomes a map and
  a later duplicate key wins, and \<^verbatim>\<open>json.Marshal\<close>, which writes maps with sorted keys, escapes what HTML or a
  line based reader could trip over, and keeps a \<^verbatim>\<open>json.Number\<close> as it was written. Also the raw text of the
  members of an object, for fields of type \<^verbatim>\<open>json.RawMessage\<close>, and decoding that goes on after a mismatch.
\<close>

section \<open>Maps\<close>

text \<open>A map as the association list of its keys in order. Go's string order is the order of the bytes.\<close>

definition map_value :: "(string \<times> json) list \<Rightarrow> (string \<times> json) list" where
  "map_value ms = sort_key fst (AList.clearjunk (rev ms))"

fun any_of :: "json \<Rightarrow> json"
  and any_elems :: "json list \<Rightarrow> json list"
  and any_members :: "(string \<times> json) list \<Rightarrow> (string \<times> json) list" where
  "any_of (JArr vs) = JArr (any_elems vs)"
| "any_of (JObj ms) = JObj (map_value (any_members ms))"
| "any_of JNull = JNull"
| "any_of (JBool b) = JBool b"
| "any_of (JNum t) = JNum t"
| "any_of (JStr s) = JStr s"
| "any_elems [] = []"
| "any_elems (v # vs) = any_of v # any_elems vs"
| "any_members [] = []"
| "any_members ((k, v) # ms) = (k, any_of v) # any_members ms"

text \<open>\<^verbatim>\<open>m[k] = v\<close>.\<close>

definition map_put :: "string \<Rightarrow> json \<Rightarrow> (string \<times> json) list \<Rightarrow> (string \<times> json) list" where
  "map_put k v ms = map_value (ms @ [(k, v)])"

definition map_delete :: "string \<Rightarrow> (string \<times> json) list \<Rightarrow> (string \<times> json) list" where
  "map_delete k ms = AList.delete k ms"

section \<open>Encoding\<close>

definition escape_u :: "nat \<Rightarrow> string" where
  "escape_u r = [CHR 0x5C, CHR ''u'', hex_digit (r div 4096), hex_digit (r div 256 mod 16),
     hex_digit (r div 16 mod 16), hex_digit (r mod 16)]"

definition encode_ascii :: "char \<Rightarrow> string" where
  "encode_ascii c =
     (if c = CHR 0x22 \<or> c = CHR 0x5C then [CHR 0x5C, c]
      else if c = CHR 0x08 then [CHR 0x5C, CHR ''b''] else if c = CHR 0x0C then [CHR 0x5C, CHR ''f'']
      else if c = CHR 0x0A then [CHR 0x5C, CHR ''n''] else if c = CHR 0x0D then [CHR 0x5C, CHR ''r'']
      else if c = CHR 0x09 then [CHR 0x5C, CHR ''t'']
      else if byte c < 32 \<or> c = CHR ''<'' \<or> c = CHR ''>'' \<or> c = CHR ''&'' then escape_u (byte c)
      else [c])"

definition encode_rune :: "string \<Rightarrow> string" where
  "encode_rune t = (if t = utf8_encode 8232 then escape_u 8232 else if t = utf8_encode 8233 then escape_u 8233 else t)"

function encode_chars :: "string \<Rightarrow> string" where
  "encode_chars s = (case s of
       [] \<Rightarrow> []
     | c # r \<Rightarrow>
         if byte c < 128 then encode_ascii c @ encode_chars r
         else let n = rune_length s in
           if n = 0 then escape_u 65533 @ encode_chars r
           else encode_rune (take n s) @ encode_chars (drop n s))"
  by pat_completeness auto
termination by (relation "measure length") auto

declare encode_chars.simps [simp del]

definition quoted :: "string \<Rightarrow> string" where
  "quoted s = CHR 0x22 # encode_chars s @ [CHR 0x22]"

fun encode :: "json \<Rightarrow> string"
  and encode_elems :: "json list \<Rightarrow> string"
  and encode_members :: "(string \<times> json) list \<Rightarrow> string" where
  "encode JNull = ''null''"
| "encode (JBool b) = (if b then ''true'' else ''false'')"
| "encode (JNum t) = t"
| "encode (JStr s) = quoted s"
| "encode (JArr []) = ''[]''"
| "encode (JArr (v # vs)) = ''['' @ encode_elems (v # vs) @ '']''"
| "encode (JObj []) = ''{}''"
| "encode (JObj (m # ms)) = ''{'' @ encode_members (m # ms) @ ''}''"
| "encode_elems [] = []"
| "encode_elems [v] = encode v"
| "encode_elems (v # w # vs) = encode v @ '','' @ encode_elems (w # vs)"
| "encode_members [] = []"
| "encode_members [(k, v)] = quoted k @ '':'' @ encode v"
| "encode_members ((k, v) # m # ms) = quoted k @ '':'' @ encode v @ '','' @ encode_members (m # ms)"

section \<open>Raw fields\<close>

text \<open>The keys of the outermost object with the text of their values, for a body that is known to parse.\<close>

fun raw_members :: "nat \<Rightarrow> string \<Rightarrow> (string \<times> string) list" where
  "raw_members 0 s = []"
| "raw_members (Suc n) s = (case skip_ws s of
       [] \<Rightarrow> []
     | q # r \<Rightarrow>
         (case parse_chars r of
            None \<Rightarrow> []
          | Some (k, r1) \<Rightarrow>
              (let r2 = skip_ws (drop 1 (skip_ws r1)) in
               case parse_value (length s + 1) 1 r2 of
                 None \<Rightarrow> []
               | Some (v, r3) \<Rightarrow>
                   (k, take (length r2 - length r3) r2)
                     # (case skip_ws r3 of
                          c # r4 \<Rightarrow> if c = CHR '','' then raw_members n r4 else []
                        | [] \<Rightarrow> []))))"

definition raw_fields :: "string \<Rightarrow> (string \<times> string) list" where
  "raw_fields body = (case skip_ws body of
       c # r \<Rightarrow> if c = CHR ''{'' then raw_members (length body) r else []
     | [] \<Rightarrow> [])"

text \<open>A field of type \<^verbatim>\<open>json.RawMessage\<close>: the text of its last value, empty when the field is absent.\<close>

definition raw_field :: "string \<Rightarrow> string \<Rightarrow> string" where
  "raw_field name body =
     (case filter (\<lambda>(k, t). foldName k = foldName name) (raw_fields body) of
        [] \<Rightarrow> [] | m # ms \<Rightarrow> snd (last (m # ms)))"

text \<open>Decoding whose error is thrown away: a value of the wrong type is skipped and the rest still counts.\<close>

definition decode_lenient :: "(json \<Rightarrow> 'a option) \<Rightarrow> 'a \<Rightarrow> json list \<Rightarrow> 'a" where
  "decode_lenient decode zero vs = foldl (\<lambda>acc v. case decode v of None \<Rightarrow> acc | Some x \<Rightarrow> if v = JNull then acc else x) zero vs"

end
