(* ===== verification/SHA256.thy ===== *)
theory SHA256
  imports Providers "HOL-Library.Word"
begin

text \<open>
  \<^verbatim>\<open>crypto/sha256\<close> and \<^verbatim>\<open>encoding/hex\<close> as far as the program uses them: the digest of a byte string and its
  hexadecimal text.
\<close>

unbundle bit_operations_syntax

type_synonym w32 = "32 word"

text \<open>The constants are what the standard says they are: the first 32 bits of the fractional parts of the cube
  roots of the first 64 primes, and of the square roots of the first eight.\<close>

definition small_primes :: "nat \<Rightarrow> nat list" where
  "small_primes n = take n (filter (\<lambda>p. \<forall>d \<in> set [2..<p]. p mod d \<noteq> 0) [2..<320])"

text \<open>The integer root by binary digits: the largest number whose \<open>k\<close>-th power does not exceed the argument.\<close>

fun root_digits :: "nat \<Rightarrow> nat \<Rightarrow> nat \<Rightarrow> nat \<Rightarrow> nat" where
  "root_digits k x 0 r = r"
| "root_digits k x (Suc b) r = root_digits k x b (if (r + 2 ^ b) ^ k \<le> x then r + 2 ^ b else r)"

definition root_fraction :: "nat \<Rightarrow> nat \<Rightarrow> w32" where
  "root_fraction k p = word_of_nat (root_digits k (p * 2 ^ (32 * k)) 40 0)"

definition sha_K :: "w32 list" where "sha_K = map (root_fraction 3) (small_primes 64)"
definition sha_H0 :: "w32 list" where "sha_H0 = map (root_fraction 2) (small_primes 8)"

definition sha_ch :: "w32 \<Rightarrow> w32 \<Rightarrow> w32 \<Rightarrow> w32" where "sha_ch x y z = (x AND y) XOR (NOT x AND z)"
definition sha_maj :: "w32 \<Rightarrow> w32 \<Rightarrow> w32 \<Rightarrow> w32" where "sha_maj x y z = (x AND y) XOR (x AND z) XOR (y AND z)"
definition sha_S0 :: "w32 \<Rightarrow> w32" where "sha_S0 x = word_rotr 2 x XOR word_rotr 13 x XOR word_rotr 22 x"
definition sha_S1 :: "w32 \<Rightarrow> w32" where "sha_S1 x = word_rotr 6 x XOR word_rotr 11 x XOR word_rotr 25 x"
definition sha_s0 :: "w32 \<Rightarrow> w32" where "sha_s0 x = word_rotr 7 x XOR word_rotr 18 x XOR drop_bit 3 x"
definition sha_s1 :: "w32 \<Rightarrow> w32" where "sha_s1 x = word_rotr 17 x XOR word_rotr 19 x XOR drop_bit 10 x"

definition bytes_word :: "string \<Rightarrow> w32" where
  "bytes_word s = word_of_nat (foldl (\<lambda>n c. 256 * n + of_char c) 0 s)"

definition be_bytes :: "nat \<Rightarrow> nat \<Rightarrow> string" where
  "be_bytes len n = map (\<lambda>i. char_of (n div 256 ^ (len - 1 - i) mod 256)) [0..<len]"

definition sha_pad :: "string \<Rightarrow> string" where
  "sha_pad s = s @ CHR 0x80 # replicate ((119 - length s mod 64) mod 64) (CHR 0x00) @ be_bytes 8 (8 * length s)"

fun sha_words :: "nat \<Rightarrow> string \<Rightarrow> w32 list" where
  "sha_words 0 s = []"
| "sha_words (Suc n) s = bytes_word (take 4 s) # sha_words n (drop 4 s)"

text \<open>The message schedule, newest word first.\<close>

fun sha_extend :: "nat \<Rightarrow> w32 list \<Rightarrow> w32 list" where
  "sha_extend 0 ws = ws"
| "sha_extend (Suc n) ws = sha_extend n ((sha_s1 (ws ! 1) + ws ! 6 + sha_s0 (ws ! 14) + ws ! 15) # ws)"

definition sha_schedule :: "string \<Rightarrow> w32 list" where
  "sha_schedule block = rev (sha_extend 48 (rev (sha_words 16 block)))"

fun sha_round :: "w32 list \<Rightarrow> w32 \<times> w32 \<Rightarrow> w32 list" where
  "sha_round [a, b, c, d, e, f, g, h] (k, w) =
     (let t1 = h + sha_S1 e + sha_ch e f g + k + w; t2 = sha_S0 a + sha_maj a b c
      in [t1 + t2, a, b, c, d + t1, e, f, g])"
| "sha_round hs kw = hs"

definition sha_block :: "w32 list \<Rightarrow> string \<Rightarrow> w32 list" where
  "sha_block hs block = map2 (+) hs (foldl sha_round hs (zip sha_K (sha_schedule block)))"

fun sha_blocks :: "nat \<Rightarrow> w32 list \<Rightarrow> string \<Rightarrow> w32 list" where
  "sha_blocks 0 hs s = hs"
| "sha_blocks (Suc n) hs s = sha_blocks n (sha_block hs (take 64 s)) (drop 64 s)"

definition Sum256 :: "string \<Rightarrow> string" where
  "Sum256 s = (let p = sha_pad s in
     concat (map (\<lambda>w. be_bytes 4 (unat w)) (sha_blocks (length p div 64) sha_H0 p)))"

definition hex_char :: "nat \<Rightarrow> char" where
  "hex_char d = (if d < 10 then char_of (48 + d) else char_of (87 + d))"

definition hex_EncodeToString :: "string \<Rightarrow> string" where
  "hex_EncodeToString s = concat (map (\<lambda>c. [hex_char (of_char c div 16), hex_char (of_char c mod 16)]) s)"

lemma hex_char_inject: "a < 16 \<Longrightarrow> b < 16 \<Longrightarrow> hex_char a = hex_char b \<longleftrightarrow> a = b"
proof -
  assume ab: "a < 16" "b < 16"
  have v: "x < 16 \<Longrightarrow> of_char (hex_char x) = (if x < 10 then 48 + x else 87 + x)" for x :: nat
    by (simp add: hex_char_def)
  show ?thesis
  proof
    assume "hex_char a = hex_char b"
    then have "(of_char (hex_char a) :: nat) = of_char (hex_char b)" by simp
    with v ab show "a = b" by (simp split: if_splits)
  qed simp
qed

lemma hex_inject: "hex_EncodeToString s = hex_EncodeToString t \<longleftrightarrow> s = t"
proof
  show "hex_EncodeToString s = hex_EncodeToString t \<Longrightarrow> s = t"
  proof (induction s arbitrary: t)
    case Nil
    then show ?case by (cases t) (simp_all add: hex_EncodeToString_def)
  next
    case (Cons c s)
    then obtain d t' where t: "t = d # t'" by (cases t) (simp_all add: hex_EncodeToString_def)
    have b: "(of_char x :: nat) < 256" for x :: char by simp
    from Cons.prems t have "hex_char (of_char c div 16) = hex_char (of_char d div 16)"
      "hex_char (of_char c mod 16) = hex_char (of_char d mod 16)" "hex_EncodeToString s = hex_EncodeToString t'"
      by (simp_all add: hex_EncodeToString_def)
    then have "of_char c div 16 = (of_char d div 16 :: nat)" "of_char c mod 16 = (of_char d mod 16 :: nat)" "s = t'"
      using b [of c] b [of d] Cons.IH hex_char_inject by auto
    then have "(of_char c :: nat) = of_char d" by (metis div_mult_mod_eq)
    with t \<open>s = t'\<close> show ?case by simp
  qed
qed simp

end
