(* ===== verification/SSE.thy ===== *)
theory SSE
  imports Providers Go_Format "HOL-Library.Sublist"
begin

text \<open>
  Server sent events (\<^verbatim>\<open>src/internal/providers/sse.go\<close> and the frame writer of
  \<^verbatim>\<open>src/internal/ingress/handlers.go\<close>). A response body is the bytes it still holds and the error its
  reader reports after them; \<^verbatim>\<open>bufio.Reader.ReadSlice\<close> is modelled with its 4096 byte buffer. The lemmas
  show that the chunked line reader is the plain one under a budget, that no event exceeds the budget, and
  that what the gateway writes as frames is read back as the same events.
\<close>

section \<open>Lines\<close>

definition newline :: char where "newline = CHR 0x0A"
definition carriage :: char where "carriage = CHR 0x0D"

definition sseDataPrefix :: string where "sseDataPrefix = ''data:''"
definition sseEventPrefix :: string where "sseEventPrefix = ''event:''"
definition sseCommentByte :: char where "sseCommentByte = CHR '':''"
definition sseLineJoiner :: string where "sseLineJoiner = [newline]"
definition MaxSSEEventBytes :: int where "MaxSSEEventBytes = 1048576"

definition bufio_size :: nat where "bufio_size = 4096"

text \<open>The bytes up to and including the first newline, and the rest; \<open>None\<close> when there is none.\<close>

fun split_line :: "bytes \<Rightarrow> (bytes \<times> bytes) option" where
  "split_line [] = None"
| "split_line (c # s) =
     (if c = newline then Some ([c], s)
      else case split_line s of None \<Rightarrow> None | Some (l, r) \<Rightarrow> Some (c # l, r))"

text \<open>\<^verbatim>\<open>ReadSlice\<close>: a slice through the newline when it is in the buffer, a full buffer otherwise, and at
  the end of the body what is left together with the reader's error.\<close>

datatype slice_end = Delimited | BufferFull | ReadFailed err

definition ReadSlice :: "bytes \<Rightarrow> err \<Rightarrow> bytes \<times> slice_end \<times> bytes" where
  "ReadSlice body fin = (case split_line (take bufio_size body) of
       Some (l, _) \<Rightarrow> (l, Delimited, drop (length l) body)
     | None \<Rightarrow>
         if bufio_size \<le> length body then (take bufio_size body, BufferFull, drop bufio_size body)
         else (body, ReadFailed fin, []))"

lemma split_line_props:
  "split_line s = Some (l, r) \<Longrightarrow> s = l @ r \<and> l \<noteq> [] \<and> last l = newline \<and> newline \<notin> set (butlast l)"
  by (induction s arbitrary: l) (auto split: if_splits option.splits)

lemma split_line_None: "split_line s = None \<longleftrightarrow> newline \<notin> set s"
  by (induction s) (auto split: option.splits)

lemma split_line_append: "split_line s = Some (l, r) \<Longrightarrow> split_line (s @ t) = Some (l, r @ t)"
  by (induction s arbitrary: l) (auto split: if_splits option.splits)

lemma split_line_skip: "newline \<notin> set s \<Longrightarrow> split_line (s @ t) = map_option (\<lambda>(l, r). (s @ l, r)) (split_line t)"
  by (induction s) (auto simp: option.map_id0 split: option.splits)

lemma bufio_pos [simp]: "0 < bufio_size"
  by (simp add: bufio_size_def)

text \<open>\<^verbatim>\<open>readLine\<close>: pieces are joined under the budget that is left of the event.\<close>

record line_result =
  lr_line :: bytes
  lr_err :: "err option"
  lr_remaining :: int
  lr_rest :: bytes

function readLine_loop :: "bytes \<Rightarrow> int \<Rightarrow> bytes \<Rightarrow> err \<Rightarrow> line_result" where
  "readLine_loop line remaining body fin = (case ReadSlice body fin of (chunk, slice_status, rest) \<Rightarrow>
     let remaining' = remaining - int (length chunk) in
     if remaining' < 0
     then \<lparr>lr_line = [], lr_err = Some ErrSSEEventTooLarge, lr_remaining = remaining', lr_rest = rest\<rparr>
     else case slice_status of
       BufferFull \<Rightarrow> readLine_loop (line @ chunk) remaining' rest fin
     | Delimited \<Rightarrow> \<lparr>lr_line = line @ chunk, lr_err = None, lr_remaining = remaining', lr_rest = rest\<rparr>
     | ReadFailed e \<Rightarrow> \<lparr>lr_line = line @ chunk, lr_err = Some e, lr_remaining = remaining', lr_rest = rest\<rparr>)"
  by pat_completeness auto
termination
  by (relation "measure (\<lambda>(line, remaining, body, fin). length body)")
    (auto simp: ReadSlice_def bufio_size_def split: option.splits if_splits prod.splits)

declare readLine_loop.simps [simp del]

definition readLine :: "int \<Rightarrow> bytes \<Rightarrow> err \<Rightarrow> line_result" where
  "readLine remaining body fin = readLine_loop [] remaining body fin"

text \<open>The reference: the line is whole or the budget is gone.\<close>

definition whole_line :: "bytes \<Rightarrow> err \<Rightarrow> bytes \<times> err option \<times> bytes" where
  "whole_line body fin = (case split_line body of
       Some (l, r) \<Rightarrow> (l, None, r)
     | None \<Rightarrow> (body, Some fin, []))"

lemma ReadSlice_full:
  assumes "newline \<notin> set (take bufio_size body)" "bufio_size \<le> length body"
  shows "ReadSlice body fin = (take bufio_size body, BufferFull, drop bufio_size body)"
    and "whole_line body fin = (case whole_line (drop bufio_size body) fin of (l, e, r) \<Rightarrow> (take bufio_size body @ l, e, r))"
proof -
  show "ReadSlice body fin = (take bufio_size body, BufferFull, drop bufio_size body)"
    using assms by (simp add: ReadSlice_def split_line_None [THEN iffD2])
  have "split_line body = map_option (\<lambda>(l, r). (take bufio_size body @ l, r)) (split_line (drop bufio_size body))"
    using split_line_skip [OF assms(1), of "drop bufio_size body"] by simp
  then show "whole_line body fin = (case whole_line (drop bufio_size body) fin of (l, e, r) \<Rightarrow> (take bufio_size body @ l, e, r))"
    by (auto simp: whole_line_def split: option.split)
qed

lemma ReadSlice_short:
  assumes "newline \<in> set (take bufio_size body) \<or> length body < bufio_size"
  shows "ReadSlice body fin = (case whole_line body fin of (l, e, r) \<Rightarrow>
           (l, (case e of None \<Rightarrow> Delimited | Some x \<Rightarrow> ReadFailed x), r))"
proof (cases "newline \<in> set (take bufio_size body)")
  case True
  then obtain l r where l: "split_line (take bufio_size body) = Some (l, r)"
    using split_line_None by fastforce
  from split_line_append [OF this, of "drop bufio_size body"]
  have "split_line body = Some (l, r @ drop bufio_size body)" by simp
  moreover from split_line_props [OF this] have "drop (length l) body = r @ drop bufio_size body"
    by (metis append_eq_conv_conj)
  ultimately show ?thesis using l by (simp add: ReadSlice_def whole_line_def)
next
  case False
  with assms have "take bufio_size body = body" "split_line body = None"
    by (auto simp: split_line_None)
  with False assms show ?thesis by (simp add: ReadSlice_def whole_line_def)
qed

text \<open>Reading in pieces is reading the whole line, refused exactly when it is longer than the budget.\<close>

lemma readLine_loop_whole:
  "case whole_line body fin of (l, e, r) \<Rightarrow>
     if int (length l) \<le> remaining
     then readLine_loop line remaining body fin
            = \<lparr>lr_line = line @ l, lr_err = e, lr_remaining = remaining - int (length l), lr_rest = r\<rparr>
     else lr_line (readLine_loop line remaining body fin) = []
          \<and> lr_err (readLine_loop line remaining body fin) = Some ErrSSEEventTooLarge"
proof (induction line remaining body fin rule: readLine_loop.induct)
  case (1 line remaining body fin)
  obtain l e r where w: "whole_line body fin = (l, e, r)" by (metis prod_cases3)
  show ?case
  proof (cases "newline \<in> set (take bufio_size body) \<or> length body < bufio_size")
    case True
    with w show ?thesis
      by (subst (1 2 3) readLine_loop.simps) (auto simp: ReadSlice_short Let_def split: option.split)
  next
    case False
    let ?t = "take bufio_size body" and ?d = "drop bufio_size body"
    have full: "newline \<notin> set ?t" "bufio_size \<le> length body" using False by auto
    obtain l' where l': "whole_line ?d fin = (l', e, r)" "l = ?t @ l'"
      using ReadSlice_full(2) [OF full, of fin] w by (auto split: prod.splits)
    show ?thesis
    proof (cases "remaining - int (length ?t) < 0")
      case True
      with w l' full show ?thesis
        by (subst (1 2 3) readLine_loop.simps) (auto simp: ReadSlice_full(1) Let_def)
    next
      case False
      have step: "readLine_loop line remaining body fin
          = readLine_loop (line @ ?t) (remaining - int (length ?t)) ?d fin"
        using False full by (subst readLine_loop.simps) (simp add: ReadSlice_full(1) Let_def)
      from "1.IH" [of ?t "(BufferFull, ?d)" BufferFull ?d] False full
      have "case whole_line ?d fin of (l, e, r) \<Rightarrow>
          if int (length l) \<le> remaining - int (length ?t)
          then readLine_loop (line @ ?t) (remaining - int (length ?t)) ?d fin
            = \<lparr>lr_line = (line @ ?t) @ l, lr_err = e, lr_remaining = remaining - int (length ?t) - int (length l), lr_rest = r\<rparr>
          else lr_line (readLine_loop (line @ ?t) (remaining - int (length ?t)) ?d fin) = []
            \<and> lr_err (readLine_loop (line @ ?t) (remaining - int (length ?t)) ?d fin) = Some ErrSSEEventTooLarge"
        unfolding ReadSlice_full(1) [OF full] by (auto split: prod.splits)
      with w l' step show ?thesis by (auto simp: algebra_simps)
    qed
  qed
qed

lemma readLine_whole:
  assumes "whole_line body fin = (l, e, r)"
  shows "int (length l) \<le> remaining \<Longrightarrow>
      readLine remaining body fin = \<lparr>lr_line = l, lr_err = e, lr_remaining = remaining - int (length l), lr_rest = r\<rparr>"
    and "remaining < int (length l) \<Longrightarrow>
      lr_line (readLine remaining body fin) = [] \<and> lr_err (readLine remaining body fin) = Some ErrSSEEventTooLarge"
  using readLine_loop_whole [where body = body and fin = fin and remaining = remaining and line = "[]"] assms by (auto simp: readLine_def)

lemma readLine_progress:
  assumes "lr_err (readLine remaining body fin) = None"
  shows "length (lr_rest (readLine remaining body fin)) < length body"
proof -
  obtain l e r where w: "whole_line body fin = (l, e, r)" by (metis prod_cases3)
  with readLine_whole [OF w, of remaining] assms have "e = None" "readLine remaining body fin =
      \<lparr>lr_line = l, lr_err = e, lr_remaining = remaining - int (length l), lr_rest = r\<rparr>"
    by (cases "int (length l) \<le> remaining"; simp)+
  with w show ?thesis by (auto simp: whole_line_def dest!: split_line_props split: option.splits)
qed

section \<open>Events\<close>

record sse_event =
  ev_Name :: string
  ev_Data :: bytes
  HasData :: bool
  ev_Keepalive :: bool

definition no_event :: sse_event where
  "no_event = \<lparr>ev_Name = [], ev_Data = [], HasData = False, ev_Keepalive = False\<rparr>"

text \<open>\<^verbatim>\<open>strings.TrimRight(line, "\r\n")\<close> and \<^verbatim>\<open>strings.Join\<close>.\<close>

definition TrimRight_crlf :: "bytes \<Rightarrow> bytes" where
  "TrimRight_crlf s = rev (dropWhile (\<lambda>c. c = newline \<or> c = carriage) (rev s))"

fun Join :: "bytes list \<Rightarrow> bytes \<Rightarrow> bytes" where
  "Join [] sep = []"
| "Join [x] sep = x"
| "Join (x # y # ys) sep = x @ sep @ Join (y # ys) sep"

definition fieldValue :: "bytes \<Rightarrow> string \<Rightarrow> bytes" where
  "fieldValue line pre = TrimPrefix (TrimPrefix line pre) '' ''"

text \<open>The loop of \<^verbatim>\<open>Next\<close> with the event so far, its data lines and what is left of the budget.\<close>

function Next_loop :: "sse_event \<Rightarrow> bytes list \<Rightarrow> int \<Rightarrow> bytes \<Rightarrow> err \<Rightarrow> (err + sse_event) \<times> bytes" where
  "Next_loop ev data remaining body fin =
     (let lr = readLine remaining body fin; trimmed = TrimRight_crlf (lr_line lr);
          go = (\<lambda>ev' data' remaining'. case lr_err lr of
                 Some e \<Rightarrow> (Inl e, lr_rest lr)
               | None \<Rightarrow> Next_loop ev' data' remaining' (lr_rest lr) fin)
      in if lr_line lr = [] then go ev data (lr_remaining lr)
         else if trimmed = [] then
           (if HasData ev \<or> ev_Name ev \<noteq> []
            then (Inr (ev\<lparr>ev_Data := Join data sseLineJoiner\<rparr>), lr_rest lr)
            else go ev data MaxSSEEventBytes)
         else if hd trimmed = sseCommentByte then
           (if \<not> HasData ev \<and> ev_Name ev = [] then (Inr (no_event\<lparr>ev_Keepalive := True\<rparr>), lr_rest lr)
            else go ev data (lr_remaining lr))
         else if HasPrefix trimmed sseDataPrefix
         then go (ev\<lparr>HasData := True\<rparr>) (data @ [fieldValue trimmed sseDataPrefix]) (lr_remaining lr)
         else if HasPrefix trimmed sseEventPrefix
         then go (ev\<lparr>ev_Name := fieldValue trimmed sseEventPrefix\<rparr>) data (lr_remaining lr)
         else go ev data (lr_remaining lr))"
  by pat_completeness auto
termination
  by (relation "measure (\<lambda>(ev, data, remaining, body, fin). length body)") (auto dest: readLine_progress)

declare Next_loop.simps [simp del]

definition Next :: "bytes \<Rightarrow> err \<Rightarrow> (err + sse_event) \<times> bytes" where
  "Next body fin = Next_loop no_event [] MaxSSEEventBytes body fin"

section \<open>Frames\<close>

definition ssePrefix :: string where "ssePrefix = ''data: ''"
definition sseTerminator :: string where "sseTerminator = [newline, newline]"
definition sseDoneFrame :: string where "sseDoneFrame = ''data: [DONE]'' @ [newline, newline]"
definition sseKeepaliveFrame :: string where "sseKeepaliveFrame = '': keep-alive'' @ [newline, newline]"

definition writeSSEFrame :: "bytes \<Rightarrow> bytes" where
  "writeSSEFrame data = ssePrefix @ data @ sseTerminator"

section \<open>Reading lines of events\<close>

definition no_break :: "bytes \<Rightarrow> bool" where
  "no_break s \<longleftrightarrow> newline \<notin> set s \<and> (s = [] \<or> last s \<noteq> carriage)"

lemma whole_line_text: "newline \<notin> set s \<Longrightarrow> whole_line (s @ newline # r) fin = (s @ [newline], None, r)"
  using split_line_skip [of s "newline # r"] by (simp add: whole_line_def)

lemma readLine_text:
  assumes "newline \<notin> set s" "int (length s) + 1 \<le> remaining"
  shows "readLine remaining (s @ newline # r) fin
    = \<lparr>lr_line = s @ [newline], lr_err = None, lr_remaining = remaining - int (length s) - 1, lr_rest = r\<rparr>"
  using readLine_whole(1) [OF whole_line_text [OF assms(1)]] assms(2) by simp

lemma TrimRight_text:
  assumes "no_break s"
  shows "TrimRight_crlf (s @ [newline]) = s"
proof (cases s rule: rev_cases)
  case (snoc xs x)
  with assms have "x \<noteq> newline" "x \<noteq> carriage" by (auto simp: no_break_def)
  with snoc show ?thesis by (simp add: TrimRight_crlf_def)
qed (simp add: TrimRight_crlf_def)

text \<open>One round of the loop on a line that was read whole.\<close>

lemma Next_loop_line:
  assumes "readLine remaining body fin = \<lparr>lr_line = l, lr_err = None, lr_remaining = left, lr_rest = r\<rparr>"
    and "l \<noteq> []" "TrimRight_crlf l = trimmed"
  shows "Next_loop ev data remaining body fin =
     (if trimmed = [] then
        (if HasData ev \<or> ev_Name ev \<noteq> [] then (Inr (ev\<lparr>ev_Data := Join data sseLineJoiner\<rparr>), r)
         else Next_loop ev data MaxSSEEventBytes r fin)
      else if hd trimmed = sseCommentByte then
        (if \<not> HasData ev \<and> ev_Name ev = [] then (Inr (no_event\<lparr>ev_Keepalive := True\<rparr>), r)
         else Next_loop ev data left r fin)
      else if HasPrefix trimmed sseDataPrefix
      then Next_loop (ev\<lparr>HasData := True\<rparr>) (data @ [fieldValue trimmed sseDataPrefix]) left r fin
      else if HasPrefix trimmed sseEventPrefix
      then Next_loop (ev\<lparr>ev_Name := fieldValue trimmed sseEventPrefix\<rparr>) data left r fin
      else Next_loop ev data left r fin)"
  using assms(2,3) by (subst Next_loop.simps) (simp add: assms(1) Let_def)

lemma Next_data_line:
  assumes "no_break (sseDataPrefix @ '' '' @ d)" "int (length d) + 7 \<le> remaining"
  shows "Next_loop ev data remaining (sseDataPrefix @ '' '' @ d @ newline # r) fin
    = Next_loop (ev\<lparr>HasData := True\<rparr>) (data @ [d]) (remaining - int (length d) - 7) r fin"
proof -
  define s where "s = sseDataPrefix @ '' '' @ d"
  have nb: "no_break s" "newline \<notin> set s" using assms(1) by (auto simp: s_def no_break_def)
  have len: "int (length s) + 1 \<le> remaining" "int (length s) = int (length d) + 6"
    using assms(2) by (simp_all add: s_def sseDataPrefix_def)
  have h: "hd s \<noteq> sseCommentByte" "s \<noteq> []" "HasPrefix s sseDataPrefix" "fieldValue s sseDataPrefix = d"
    by (auto simp: s_def sseDataPrefix_def sseCommentByte_def HasPrefix_def fieldValue_def TrimPrefix_def)
  from Next_loop_line [OF readLine_text [OF nb(2) len(1)] _ TrimRight_text [OF nb(1)]] h
  have "Next_loop ev data remaining (s @ newline # r) fin
      = Next_loop (ev\<lparr>HasData := True\<rparr>) (data @ [d]) (remaining - int (length s) - 1) r fin"
    by simp
  then show ?thesis by (simp add: len(2)) (simp add: s_def)
qed

lemma Next_blank_line:
  assumes "1 \<le> remaining"
  shows "Next_loop ev data remaining (newline # r) fin =
    (if HasData ev \<or> ev_Name ev \<noteq> [] then (Inr (ev\<lparr>ev_Data := Join data sseLineJoiner\<rparr>), r)
     else Next_loop ev data MaxSSEEventBytes r fin)"
  using Next_loop_line [OF readLine_text [of "[]" remaining r fin] _ TrimRight_text [of "[]"]] assms
  by (simp add: no_break_def)

lemma Max_pos: "1 \<le> MaxSSEEventBytes"
  by (simp add: MaxSSEEventBytes_def)

lemma Next_skip_blank [simp]: "Next (newline # r) fin = Next r fin"
  using Next_blank_line [OF Max_pos] by (simp add: Next_def no_event_def)

lemma Next_end [simp]: "Next [] fin = (Inl fin, [])"
  using readLine_whole(1) [where body = "[]" and fin = fin and l = "[]" and e = "Some fin" and r = "[]"
      and remaining = MaxSSEEventBytes]
  unfolding Next_def by (subst Next_loop.simps) (simp add: whole_line_def MaxSSEEventBytes_def Let_def)

definition data_event :: "bytes \<Rightarrow> sse_event" where
  "data_event d = no_event\<lparr>ev_Data := d, HasData := True\<rparr>"

definition keepalive_event :: sse_event where
  "keepalive_event = no_event\<lparr>ev_Keepalive := True\<rparr>"

text \<open>Data that survives a frame: one line, not ended by a carriage return, within the event budget.\<close>

definition frameable :: "bytes \<Rightarrow> bool" where
  "frameable d \<longleftrightarrow> no_break d \<and> int (length d) + 8 \<le> MaxSSEEventBytes"

lemma frameable_line: "frameable d \<Longrightarrow> no_break (sseDataPrefix @ '' '' @ d)"
  by (auto simp: frameable_def no_break_def sseDataPrefix_def newline_def carriage_def)

lemma Next_frame:
  assumes "frameable d"
  shows "Next (writeSSEFrame d @ r) fin = (Inr (data_event d), r)"
proof -
  have b: "int (length d) + 7 \<le> MaxSSEEventBytes" "1 \<le> MaxSSEEventBytes - int (length d) - 7"
    using assms by (auto simp: frameable_def)
  have "writeSSEFrame d @ r = sseDataPrefix @ '' '' @ d @ newline # newline # r"
    by (simp add: writeSSEFrame_def ssePrefix_def sseDataPrefix_def sseTerminator_def)
  then show ?thesis
    using Next_data_line [OF frameable_line [OF assms] b(1), of no_event "[]" "newline # r" fin]
      Next_blank_line [OF b(2), of "no_event\<lparr>HasData := True\<rparr>" "[d]" r fin]
    by (simp add: Next_def data_event_def no_event_def)
qed

lemma Next_keepalive_line: "Next ('': keep-alive'' @ newline # r) fin = (Inr keepalive_event, r)"
proof -
  define s where "s = '': keep-alive''"
  have nb: "no_break s" "newline \<notin> set s" by (simp_all add: s_def no_break_def newline_def carriage_def)
  have len: "int (length s) + 1 \<le> MaxSSEEventBytes" by (simp add: s_def MaxSSEEventBytes_def)
  have h: "hd s = sseCommentByte" "s \<noteq> []" by (simp_all add: s_def sseCommentByte_def)
  from Next_loop_line [OF readLine_text [OF nb(2) len] _ TrimRight_text [OF nb(1)], of no_event "[]"] h
  have "Next (s @ newline # r) fin = (Inr keepalive_event, r)"
    by (simp add: Next_def keepalive_event_def no_event_def)
  then show ?thesis by (simp add: s_def)
qed

lemma Next_keepalive: "Next (sseKeepaliveFrame @ r) fin = (Inr keepalive_event, newline # r)"
  using Next_keepalive_line [of "newline # r" fin] by (simp add: sseKeepaliveFrame_def)

section \<open>Progress and budget\<close>

lemma whole_line_rest: "whole_line body fin = (l, e, r) \<Longrightarrow> body = l @ r"
  by (auto simp: whole_line_def dest: split_line_props split: option.splits)

lemma readLine_cases:
  obtains (line) l e r where "whole_line body fin = (l, e, r)" "int (length l) \<le> remaining"
      "readLine remaining body fin = \<lparr>lr_line = l, lr_err = e, lr_remaining = remaining - int (length l), lr_rest = r\<rparr>"
      "length l + length r = length body"
  | (large) "lr_line (readLine remaining body fin) = []"
      "lr_err (readLine remaining body fin) = Some ErrSSEEventTooLarge"
proof -
  obtain l e r where w: "whole_line body fin = (l, e, r)" by (metis prod_cases3)
  show thesis
  proof (cases "int (length l) \<le> remaining")
    case True
    from whole_line_rest [OF w] have "length l + length r = length body" by simp
    with line [OF w True readLine_whole(1) [OF w True]] show thesis by blast
  next
    case False
    with readLine_whole(2) [OF w, of remaining] large show thesis by simp
  qed
qed

lemma TrimRight_length: "length (TrimRight_crlf s) \<le> length s"
  using length_dropWhile_le [of _ "rev s"] by (simp add: TrimRight_crlf_def)

lemma fieldValue_length: "HasPrefix s p \<Longrightarrow> length (fieldValue s p) + length p \<le> length s"
  using HasPrefixD [of s p] by (auto simp: fieldValue_def TrimPrefix_def)

lemma Join_snoc_length: "length (Join (data @ [x]) sseLineJoiner) \<le> length (Join data sseLineJoiner) + 1 + length x"
  by (induction data "sseLineJoiner" rule: Join.induct) (auto simp: sseLineJoiner_def)

text \<open>What the loop keeps: data lines only once the event has data, and everything gathered so far paid for
  out of the budget.\<close>

definition paid_for :: "sse_event \<Rightarrow> bytes list \<Rightarrow> int \<Rightarrow> bool" where
  "paid_for ev data remaining \<longleftrightarrow> (\<not> HasData ev \<longrightarrow> data = []) \<and>
     int (length (Join data sseLineJoiner)) + int (length (ev_Name ev)) \<le> MaxSSEEventBytes - remaining"

lemma paid_for_data:
  assumes "paid_for ev data remaining" "HasPrefix t sseDataPrefix" "length t \<le> length l"
  shows "paid_for (ev\<lparr>HasData := True\<rparr>) (data @ [fieldValue t sseDataPrefix]) (remaining - int (length l))"
  using assms fieldValue_length [OF assms(2)] Join_snoc_length [of data "fieldValue t sseDataPrefix"]
  by (simp add: paid_for_def sseDataPrefix_def)

lemma paid_for_name:
  assumes "paid_for ev data remaining" "HasPrefix t sseEventPrefix" "length t \<le> length l"
  shows "paid_for (ev\<lparr>ev_Name := fieldValue t sseEventPrefix\<rparr>) data (remaining - int (length l))"
  using assms fieldValue_length [OF assms(2)] by (simp add: paid_for_def sseEventPrefix_def)

lemma paid_for_skip: "paid_for ev data remaining \<Longrightarrow> paid_for ev data (remaining - int (length l))"
  by (simp add: paid_for_def)

lemma paid_for_reset: "paid_for ev data remaining \<Longrightarrow> \<not> HasData ev \<Longrightarrow> ev_Name ev = [] \<Longrightarrow> paid_for ev data MaxSSEEventBytes"
  by (simp add: paid_for_def)

lemma Next_loop_bounded:
  assumes "Next_loop ev data remaining body fin = (Inr ev', rest)" "paid_for ev data remaining" "0 \<le> remaining"
  shows "int (length (ev_Data ev')) + int (length (ev_Name ev')) \<le> MaxSSEEventBytes \<and> length rest < length body"
  using assms
proof (induction "length body" arbitrary: ev data remaining body rule: less_induct)
  case less
  show ?case
  proof (cases rule: readLine_cases [of body fin remaining])
    case large
    with less.prems(1) show ?thesis by (subst (asm) Next_loop.simps) (simp add: Let_def)
  next
    case (line l e r)
    let ?t = "TrimRight_crlf l"
    note shape = less.prems(1) [unfolded Next_loop.simps [of ev data remaining body fin] line(3) Let_def]
    have pays: "paid_for ev data (remaining - int (length l))" "0 \<le> remaining - int (length l)"
      using less.prems(2) line(2) by (auto intro: paid_for_skip)
    have step: "Next_loop ev1 data1 remaining1 r fin = (Inr ev', rest) \<Longrightarrow> paid_for ev1 data1 remaining1 \<Longrightarrow>
        0 \<le> remaining1 \<Longrightarrow> l \<noteq> [] \<Longrightarrow> ?thesis" for ev1 data1 remaining1
      using less.hyps [of r ev1 data1 remaining1] line(4) by (cases l) auto
    have d: "HasPrefix ?t sseDataPrefix \<Longrightarrow> paid_for (ev\<lparr>HasData := True\<rparr>) (data @ [fieldValue ?t sseDataPrefix]) (remaining - int (length l))"
      and n: "HasPrefix ?t sseEventPrefix \<Longrightarrow> paid_for (ev\<lparr>ev_Name := fieldValue ?t sseEventPrefix\<rparr>) data (remaining - int (length l))"
      using paid_for_data paid_for_name less.prems(2) TrimRight_length by blast+
    show ?thesis
    proof (cases e)
      case None
      show ?thesis
      proof (cases "l = []")
        case True
        with None line(1) show ?thesis by (auto simp: whole_line_def dest: split_line_props split: option.splits)
      next
        case False
        then have shorter: "length r < length body" using line(4) by (cases l) auto
        have fits: "int (length (Join data sseLineJoiner)) + int (length (ev_Name ev)) \<le> MaxSSEEventBytes"
          using less.prems(2,3) by (simp add: paid_for_def)
        show ?thesis
          using shape None False step [OF _ pays False] step [OF _ d pays(2) False] step [OF _ n pays(2) False]
            step [OF _ paid_for_reset [OF less.prems(2)] _ False] shorter fits Max_pos
          by (auto split: if_splits simp: no_event_def)
      qed
    next
      case (Some x)
      have fits: "int (length (Join data sseLineJoiner)) + int (length (ev_Name ev)) \<le> MaxSSEEventBytes"
        using less.prems(2,3) by (simp add: paid_for_def)
      with Some shape line(4) Max_pos show ?thesis
        by (cases "l = []") (auto split: if_splits simp: no_event_def dest: sym)
    qed
  qed
qed

lemma Next_bounded:
  assumes "Next body fin = (Inr ev, rest)"
  shows "int (length (ev_Data ev)) + int (length (ev_Name ev)) \<le> MaxSSEEventBytes" "length rest < length body"
  using Next_loop_bounded [OF assms [unfolded Next_def]] Max_pos by (auto simp: paid_for_def no_event_def)

text \<open>What a reader of a whole body sees: the events up to the body's error.\<close>

function read_all :: "bytes \<Rightarrow> err \<Rightarrow> sse_event list \<times> err" where
  "read_all body fin = (case Next body fin of
       (Inl e, rest) \<Rightarrow> ([], e)
     | (Inr ev, rest) \<Rightarrow> (case read_all rest fin of (evs, e) \<Rightarrow> (ev # evs, e)))"
  by pat_completeness auto
termination
  by (relation "measure (\<lambda>(body, fin). length body)") (auto dest!: Next_bounded(2) [OF sym])

declare read_all.simps [simp del]

section \<open>Properties\<close>

text \<open>What the gateway writes: a frame per chunk, a comment as a sign of life, and the end frame.\<close>

datatype wire_item = Frame bytes | KeepAlive

definition wire :: "wire_item list \<Rightarrow> bytes" where
  "wire items = concat (map (\<lambda>i. case i of Frame d \<Rightarrow> writeSSEFrame d | KeepAlive \<Rightarrow> sseKeepaliveFrame) items)"

definition item_event :: "wire_item \<Rightarrow> sse_event" where
  "item_event i = (case i of Frame d \<Rightarrow> data_event d | KeepAlive \<Rightarrow> keepalive_event)"

lemma sseDoneFrame_frame: "sseDoneFrame = writeSSEFrame ''[DONE]''"
  by (simp add: sseDoneFrame_def writeSSEFrame_def ssePrefix_def sseTerminator_def)

lemma frameable_done: "frameable ''[DONE]''"
  by (simp add: frameable_def no_break_def newline_def carriage_def MaxSSEEventBytes_def)

lemma read_all_blank [simp]: "read_all (newline # r) fin = read_all r fin"
  by (subst (1 2) read_all.simps) simp

lemma read_all_event: "Next body fin = (Inr ev, rest) \<Longrightarrow> read_all body fin = (case read_all rest fin of (evs, e) \<Rightarrow> (ev # evs, e))"
  by (subst read_all.simps) simp

lemma read_all_wire:
  assumes "\<And>d. Frame d \<in> set items \<Longrightarrow> frameable d"
  shows "read_all (wire items @ rest) fin = (case read_all rest fin of (evs, e) \<Rightarrow> (map item_event items @ evs, e))"
  using assms
proof (induction items)
  case Nil
  show ?case by (simp add: wire_def)
next
  case (Cons i items)
  then have IH: "read_all (wire items @ rest) fin = (case read_all rest fin of (evs, e) \<Rightarrow> (map item_event items @ evs, e))" by simp
  show ?case
  proof (cases i)
    case (Frame d)
    with Cons.prems have "frameable d" by simp
    from read_all_event [OF Next_frame [OF this]] IH Frame show ?thesis
      by (simp add: wire_def item_event_def split: prod.splits)
  next
    case KeepAlive
    from read_all_event [OF Next_keepalive] IH KeepAlive show ?thesis
      by (simp add: wire_def item_event_def split: prod.splits)
  qed
qed

lemma read_all_frame:
  assumes "frameable d"
  shows "read_all (writeSSEFrame d) fin = ([data_event d], fin)"
proof -
  have "read_all [] fin = ([], fin)" by (subst read_all.simps) simp
  with read_all_event [OF Next_frame [OF assms, of "[]" fin]] show ?thesis by simp
qed



text \<open>Memory stays bounded. Whatever an upstream sends, an event handed to a decoder carries at most the
  budget of one mebibyte in data and name together, and every event consumes part of the body, so a reader
  cannot be kept looping on one position.\<close>

theorem events_are_bounded:
  assumes "Next body fin = (Inr ev, rest)"
  shows "int (length (ev_Data ev) + length (ev_Name ev)) \<le> MaxSSEEventBytes \<and> length rest < length body"
  using Next_bounded [OF assms] by simp

theorem events_are_bounded_witness:
  "Next (writeSSEFrame ''{}'') IoEOF = (Inr (data_event ''{}''), []) \<and>
   int (length (ev_Data (data_event ''{}'')) + length (ev_Name (data_event ''{}''))) \<le> MaxSSEEventBytes"
proof -
  have "Next (writeSSEFrame ''{}'') IoEOF = (Inr (data_event ''{}''), [])"
    using Next_frame [of "''{}''" "[]" IoEOF]
    by (simp add: frameable_def no_break_def newline_def carriage_def MaxSSEEventBytes_def)
  with events_are_bounded [OF this] show ?thesis by blast
qed

text \<open>The line reader that joins buffered pieces is the plain one: for every body and budget it returns
  exactly the bytes through the first newline, or all that is left with the body's error, and it refuses the
  line exactly when it is longer than what is left of the budget.\<close>

theorem chunked_line_is_whole_line:
  "case whole_line body fin of (l, e, r) \<Rightarrow>
     if int (length l) \<le> remaining
     then readLine remaining body fin
            = \<lparr>lr_line = l, lr_err = e, lr_remaining = remaining - int (length l), lr_rest = r\<rparr>
     else lr_line (readLine remaining body fin) = []
          \<and> lr_err (readLine remaining body fin) = Some ErrSSEEventTooLarge"
  using readLine_loop_whole [where body = body and fin = fin and remaining = remaining and line = "[]"]
  by (auto simp: readLine_def split: prod.splits)

text \<open>The frame writer does not look at what it frames: a payload of two lines goes out as one data line
  and a bare line the reader ignores, so only the first line arrives.\<close>

theorem two_line_payload_is_cut:
  assumes "frameable a" and "no_break b" and "int (length a) + int (length b) + 9 \<le> MaxSSEEventBytes"
    and "b \<noteq> []" and "hd b \<noteq> sseCommentByte" and "\<not> HasPrefix b sseDataPrefix" and "\<not> HasPrefix b sseEventPrefix"
  shows "Next (writeSSEFrame (a @ [newline] @ b) @ r) fin = (Inr (data_event a), r)"
proof -
  let ?ev = "no_event\<lparr>HasData := True\<rparr>"
  have nl: "newline \<notin> set b" using assms(2) by (simp add: no_break_def)
  have b: "int (length a) + 7 \<le> MaxSSEEventBytes" "int (length b) + 1 \<le> MaxSSEEventBytes - int (length a) - 7"
    "1 \<le> MaxSSEEventBytes - int (length a) - 7 - int (length b) - 1"
    using assms(3) by auto
  have "writeSSEFrame (a @ [newline] @ b) @ r = sseDataPrefix @ '' '' @ a @ newline # b @ newline # newline # r"
    by (simp add: writeSSEFrame_def ssePrefix_def sseDataPrefix_def sseTerminator_def)
  then show ?thesis
    using Next_data_line [OF frameable_line [OF assms(1)] b(1), of no_event "[]" "b @ newline # newline # r" fin]
      Next_loop_line [OF readLine_text [OF nl b(2), of "newline # r" fin] _ TrimRight_text [OF assms(2)], of ?ev "[a]"]
      Next_blank_line [OF b(3), of ?ev "[a]" r fin] assms(4-7)
    by (simp add: Next_def data_event_def no_event_def)
qed

theorem two_line_payload_is_cut_witness:
  "Next (writeSSEFrame (''{'' @ [newline] @ ''}'')) IoEOF = (Inr (data_event ''{''), [])"
proof -
  have "frameable ''{''" "no_break ''}''"
    by (simp_all add: frameable_def no_break_def newline_def carriage_def MaxSSEEventBytes_def)
  from two_line_payload_is_cut [OF this, of "[]" IoEOF] show ?thesis
    by (simp add: MaxSSEEventBytes_def sseCommentByte_def HasPrefix_def sseDataPrefix_def sseEventPrefix_def)
qed

end
