(* ===== verification/Gateway_HTTP.thy ===== *)
theory Gateway_HTTP
  imports Redaction Budget_Enforcer JSON_Encode SHA256 SSE
begin

text \<open>
  The HTTP surface of the gateway (\<^verbatim>\<open>src/internal/ingress\<close>: \<^verbatim>\<open>auth.go\<close>, \<^verbatim>\<open>limits.go\<close>, \<^verbatim>\<open>errors.go\<close>,
  \<^verbatim>\<open>accounting.go\<close>, the status writer of \<^verbatim>\<open>server.go\<close>; \<^verbatim>\<open>src/internal/httperr\<close>): the response writer with the
  access log's wrapper, the error envelope, the mapping of refusals and provider failures to the wire, client
  keys, and the bound on requests in flight.
\<close>

section \<open>The response writer\<close>

text \<open>\<^verbatim>\<open>net/http\<close>'s writer: headers are frozen by the first \<^verbatim>\<open>WriteHeader\<close>, later ones are ignored. The
  connection decides whether the next write is accepted; a refused write leaves nothing behind.
  \<^verbatim>\<open>w_status\<close> is the field of \<^verbatim>\<open>statusWriter\<close>, \<open>None\<close> while the writer is not wrapped in one.\<close>

type_synonym header = "(string \<times> string) list"

record writer =
  w_header :: header
  w_sent :: "(goint \<times> header) option"
  w_body :: bytes
  w_flushes :: bool
  w_count :: nat
  w_accepts :: "nat \<Rightarrow> bool"
  w_status :: "goint option"

definition header_set :: "string \<Rightarrow> string \<Rightarrow> writer \<Rightarrow> writer" where
  "header_set k v w = w\<lparr>w_header := AList.update k v (w_header w)\<rparr>"

definition newStatusWriter :: "writer \<Rightarrow> writer" where
  "newStatusWriter w = w\<lparr>w_status := Some 0\<rparr>"

definition WriteHeader :: "goint \<Rightarrow> writer \<Rightarrow> writer" where
  "WriteHeader code w = w\<lparr>w_status := map_option (\<lambda>s. if s = 0 then code else s) (w_status w),
     w_sent := (case w_sent w of None \<Rightarrow> Some (code, w_header w) | Some x \<Rightarrow> Some x)\<rparr>"

definition Write :: "bytes \<Rightarrow> writer \<Rightarrow> err option \<times> writer" where
  "Write b w = (let w1 = w\<lparr>w_status := map_option (\<lambda>s. if s = 0 then 200 else s) (w_status w),
       w_sent := (case w_sent w of None \<Rightarrow> Some (200, w_header w) | Some x \<Rightarrow> Some x), w_count := Suc (w_count w)\<rparr> in
     if w_accepts w (w_count w) then (None, w1\<lparr>w_body := w_body w1 @ b\<rparr>) else (Some (OtherErr ''write''), w1))"

definition Flush :: "writer \<Rightarrow> writer" where
  "Flush w = w\<lparr>w_sent := (case w_sent w of None \<Rightarrow> Some (200, w_header w) | Some x \<Rightarrow> Some x)\<rparr>"

definition Status :: "writer \<Rightarrow> goint" where
  "Status w = (case w_status w of Some s \<Rightarrow> if s = 0 then 200 else s | None \<Rightarrow> 200)"

definition flusherFor :: "writer \<Rightarrow> bool" where "flusherFor w = w_flushes w"

text \<open>Three writes, the first failure ends them.\<close>

definition writeSSEFrame_to :: "bytes \<Rightarrow> writer \<Rightarrow> err option \<times> writer" where
  "writeSSEFrame_to data w = (case Write ssePrefix w of
       (Some e, w1) \<Rightarrow> (Some e, w1)
     | (None, w1) \<Rightarrow>
         (case Write data w1 of
            (Some e, w2) \<Rightarrow> (Some e, w2)
          | (None, w2) \<Rightarrow> Write sseTerminator w2))"

section \<open>The error envelope\<close>

definition ContentTypeJSON :: string where "ContentTypeJSON = ''application/json''"
definition TypeInvalidRequest :: string where "TypeInvalidRequest = ''invalid_request_error''"
definition TypeRateLimit :: string where "TypeRateLimit = ''rate_limit_error''"
definition TypeAPI :: string where "TypeAPI = ''api_error''"

definition Envelope :: "string \<Rightarrow> string \<Rightarrow> string \<Rightarrow> json" where
  "Envelope message errType code =
     JObj [(''error'', JObj [(''message'', JStr message), (''type'', JStr errType), (''code'', JStr code)])]"

definition WriteJSON :: "goint \<Rightarrow> json \<Rightarrow> writer \<Rightarrow> writer" where
  "WriteJSON status v w =
     snd (Write (encode v @ [newline]) (WriteHeader status (header_set ''Content-Type'' ContentTypeJSON w)))"

definition WriteError :: "goint \<Rightarrow> string \<Rightarrow> string \<Rightarrow> string \<Rightarrow> writer \<Rightarrow> writer" where
  "WriteError status message errType code w = WriteJSON status (Envelope message errType code) w"

section \<open>Refusals\<close>

definition denialToWire :: "deny_reason \<Rightarrow> goint \<times> string \<times> string" where
  "denialToWire reason = (case reason of
       DenyRequestRate \<Rightarrow> (429, TypeRateLimit, ''tenant_request_rate_limited'')
     | DenyTokenRate \<Rightarrow> (429, TypeRateLimit, ''tenant_token_rate_limited'')
     | DenyDailyBudget \<Rightarrow> (402, TypeAPI, ''daily_budget_exhausted'')
     | DenyMonthlyBudget \<Rightarrow> (402, TypeAPI, ''monthly_budget_exhausted'')
     | DenyStoreDegraded \<Rightarrow> (503, TypeAPI, ''accounting_unavailable'')
     | DenyUnknownTenant \<Rightarrow> (500, TypeAPI, ''tenant_not_configured''))"

text \<open>\<^verbatim>\<open>Duration.Seconds\<close>: whole seconds plus the rest as a fraction.\<close>

definition Seconds :: "duration \<Rightarrow> float64" where
  "Seconds d = fadd (float_of_int (sgn d * (\<bar>d\<bar> div Second))) (fdiv (float_of_int (sgn d * (\<bar>d\<bar> mod Second))) 1000000000)"

definition retryAfterSeconds :: "duration \<Rightarrow> goint" where
  "retryAfterSeconds d = int_of_float (fadd (Seconds d) 1)"

text \<open>An error of \<^verbatim>\<open>Begin\<close> is a \<^verbatim>\<open>Denial\<close> or anything else. The first component is the denial the metrics count.\<close>

definition writeDenial :: "err + denial \<Rightarrow> writer \<Rightarrow> deny_reason option \<times> writer" where
  "writeDenial e w = (case e of
       Inl _ \<Rightarrow> (None, WriteError 500 ''internal error'' TypeAPI ''internal'' w)
     | Inr d \<Rightarrow>
         (let w1 = (if 0 < RetryAfter d then header_set ''Retry-After'' (Itoa (retryAfterSeconds (RetryAfter d))) w else w) in
          case denialToWire (Reason d) of
            (status, errType, code) \<Rightarrow> (Some (Reason d), WriteError status (Message d) errType code w1)))"

section \<open>Provider failures\<close>

definition StatusClientClosedRequest :: goint where "StatusClientClosedRequest = 499"
definition codeModelNotFound :: string where "codeModelNotFound = ''model_not_found''"
definition msgUpstreamAuth :: string where "msgUpstreamAuth = ''upstream auth failed''"

definition classMessage :: "error_class \<Rightarrow> string" where
  "classMessage c = (case c of
       ErrClassAuth \<Rightarrow> msgUpstreamAuth
     | ErrClassPaymentRequired \<Rightarrow> ''the upstream account requires payment or an activated quota''
     | ErrClassRateLimited \<Rightarrow> ''upstream rate limit reached''
     | ErrClassInvalidRequest \<Rightarrow> ''upstream rejected the request''
     | ErrClassModelNotFound \<Rightarrow> ''the requested model is not available upstream''
     | ErrClassUpstream \<Rightarrow> ''upstream is unavailable''
     | ErrClassTimeout \<Rightarrow> ''upstream timed out''
     | ErrClassCanceled \<Rightarrow> ''request canceled''
     | ErrClassInternal \<Rightarrow> ''internal error'')"

definition classToWire :: "error_class \<Rightarrow> goint \<times> string \<times> string" where
  "classToWire c = (case c of
       ErrClassAuth \<Rightarrow> (502, TypeAPI, ''upstream_auth_failed'')
     | ErrClassPaymentRequired \<Rightarrow> (402, TypeAPI, ''upstream_payment_required'')
     | ErrClassRateLimited \<Rightarrow> (429, TypeRateLimit, ''rate_limited'')
     | ErrClassInvalidRequest \<Rightarrow> (400, TypeInvalidRequest, ''invalid_request'')
     | ErrClassModelNotFound \<Rightarrow> (404, TypeInvalidRequest, codeModelNotFound)
     | ErrClassUpstream \<Rightarrow> (502, TypeAPI, ''upstream_unavailable'')
     | ErrClassTimeout \<Rightarrow> (504, TypeAPI, ''timeout'')
     | ErrClassCanceled \<Rightarrow> (StatusClientClosedRequest, TypeAPI, ''canceled'')
     | ErrClassInternal \<Rightarrow> (500, TypeAPI, ''internal''))"

definition writeUpstreamError :: "err \<Rightarrow> writer \<Rightarrow> writer" where
  "writeUpstreamError e w = (case errors_As e of
       Some (ProviderError provider cls statusCode message cause) \<Rightarrow>
         (case classToWire cls of (status, errType, code) \<Rightarrow>
            WriteError status
              (if cls = ErrClassInvalidRequest \<and> message \<noteq> [] then sanitizeUpstreamMessage message else classMessage cls)
              errType code w)
     | _ \<Rightarrow>
         if errors_Is e ContextDeadlineExceeded then WriteError 504 ''upstream timed out'' TypeAPI ''timeout'' w
         else if errors_Is e ContextCanceled then WriteError StatusClientClosedRequest ''request canceled'' TypeAPI ''canceled'' w
         else WriteError 500 ''internal error'' TypeAPI ''internal'' w)"

section \<open>Client keys\<close>

definition bearerPrefix :: string where "bearerPrefix = ''Bearer ''"
definition AnonymousTenant :: string where "AnonymousTenant = []"

definition to_lower :: "char \<Rightarrow> char" where
  "to_lower c = (let b = (of_char c :: nat) in if 65 \<le> b \<and> b \<le> 90 then char_of (b + 32) else c)"

record key_set =
  digests :: "bytes list"
  ks_tenants :: "string list"

definition key_add :: "string \<times> string \<Rightarrow> key_set \<Rightarrow> key_set" where
  "key_add kt k = (case kt of (key, tenant) \<Rightarrow>
     if key = [] then k else k\<lparr>digests := digests k @ [Sum256 key], ks_tenants := ks_tenants k @ [tenant]\<rparr>)"

definition newKeySet :: "string list \<Rightarrow> key_set" where
  "newKeySet keys = fold (\<lambda>key. key_add (key, AnonymousTenant)) keys \<lparr>digests = [], ks_tenants = []\<rparr>"

definition key_empty :: "key_set \<Rightarrow> bool" where "key_empty k \<longleftrightarrow> digests k = []"

definition key_lookup :: "key_set \<Rightarrow> string \<Rightarrow> string option" where
  "key_lookup k presented = (let got = Sum256 presented;
       matchedAt = foldl (\<lambda>m i. if got = digests k ! i then Some i else m) None [0..<length (digests k)]
     in case matchedAt of None \<Rightarrow> None | Some i \<Rightarrow> Some (ks_tenants k ! i))"

text \<open>The prefix holds no letter with a non ASCII fold, so \<^verbatim>\<open>EqualFold\<close> compares ASCII letters.\<close>

definition bearerToken :: "string \<Rightarrow> string option" where
  "bearerToken h =
     (if length h \<le> length bearerPrefix \<or> map to_lower (take (length bearerPrefix) h) \<noteq> map to_lower bearerPrefix then None
      else Some (TrimSpace (drop (length bearerPrefix) h)))"

definition rejectUnauthorized :: "writer \<Rightarrow> writer" where
  "rejectUnauthorized w = WriteError 401 ''a valid client API key is required'' TypeInvalidRequest ''invalid_api_key''
     (header_set ''WWW-Authenticate'' ''Bearer'' w)"

text \<open>The verdict of \<^verbatim>\<open>withAuth\<close>: refused, or admitted under a tenant, or admitted with none to bill.\<close>

definition healthPath :: string where "healthPath = ''/healthz''"

definition authenticate :: "key_set \<Rightarrow> string \<Rightarrow> string \<Rightarrow> string option" where
  "authenticate k path authorization =
     (if key_empty k \<or> path = healthPath then Some AnonymousTenant
      else case bearerToken authorization of None \<Rightarrow> None | Some key \<Rightarrow> key_lookup k key)"

section \<open>Requests in flight\<close>

record inflight =
  slots :: "nat option"
  slots_used :: nat

definition newInflight :: "goint \<Rightarrow> inflight" where
  "newInflight limit = \<lparr>slots = (if limit \<le> 0 then None else Some (nat limit)), slots_used = 0\<rparr>"

text \<open>The two ends of \<^verbatim>\<open>withLimit\<close>: taking a slot or shedding, and the deferred release.\<close>

definition limit_enter :: "inflight \<Rightarrow> inflight option" where
  "limit_enter f = (case slots f of
       None \<Rightarrow> Some f
     | Some cap \<Rightarrow> if slots_used f < cap then Some (f\<lparr>slots_used := Suc (slots_used f)\<rparr>) else None)"

definition limit_leave :: "inflight \<Rightarrow> inflight" where
  "limit_leave f = (case slots f of None \<Rightarrow> f | Some _ \<Rightarrow> f\<lparr>slots_used := slots_used f - 1\<rparr>)"

definition retryAfterSaturated :: goint where "retryAfterSaturated = 1"

definition writeSaturated :: "writer \<Rightarrow> writer" where
  "writeSaturated w = WriteError 503 ''gateway is at capacity, retry shortly'' TypeAPI ''gateway_saturated''
     (header_set ''Retry-After'' (Itoa retryAfterSaturated) w)"

section \<open>Paths\<close>

definition chatPath :: string where "chatPath = ''/v1/chat/completions''"
definition modelsPath :: string where "modelsPath = ''/v1/models''"
definition knownPaths :: "string list" where "knownPaths = [chatPath, modelsPath, healthPath]"
definition pathOther :: string where "pathOther = ''other''"

definition NormalizePath :: "string \<Rightarrow> string" where
  "NormalizePath path = (if path \<in> set knownPaths then path else pathOther)"

section \<open>The announced pause\<close>

lemma float_of_small_int: "\<bar>n\<bar> \<le> 2 ^ 53 \<Longrightarrow> float_of_int n = of_int n"
proof -
  assume "\<bar>n\<bar> \<le> 2 ^ 53"
  then have "\<bar>of_int n :: rat\<bar> \<le> 2 ^ 53" by (metis of_int_abs of_int_le_iff of_int_numeral of_int_power)
  then have "on_grid 0 (of_int n)" by (simp add: on_grid_def dyadic_def)
  then show ?thesis by (simp add: float_of_int_def rnd64_exact)
qed

lemma fadd_between:
  assumes "of_int m \<le> x + y" "x + y \<le> of_int n" "\<bar>m\<bar> \<le> 2 ^ 53" "\<bar>n\<bar> \<le> 2 ^ 53"
  shows "of_int m \<le> fadd x y" "fadd x y \<le> of_int n"
  using rnd64_mono [OF assms(1)] rnd64_mono [OF assms(2)] float_of_small_int [OF assms(3)] float_of_small_int [OF assms(4)]
  by (simp_all add: fadd_def float_of_int_def)

lemma retryAfterSeconds_bounds:
  assumes "0 < d" "int64_ok d"
  shows "d div Second + 1 \<le> retryAfterSeconds d" "retryAfterSeconds d \<le> d div Second + 2"
proof -
  define s where "s = d div Second"
  define f where "f = fdiv (float_of_int (d mod Second)) 1000000000"
  have s: "0 \<le> s" "s + 2 \<le> 2 ^ 53" using assms by (auto simp: s_def Second_def int64_ok_def)
  have n: "0 \<le> d mod Second" "d mod Second \<le> 1000000000" by (auto simp: Second_def intro: order.strict_implies_order)
  then have "float_of_int (d mod Second) = of_int (d mod Second)" by (intro float_of_small_int) simp
  moreover have "rnd64 0 \<le> rnd64 (of_int (d mod Second) / 1000000000)" "rnd64 (of_int (d mod Second) / 1000000000) \<le> rnd64 1"
    using n by (intro rnd64_mono; simp)+
  moreover have "rnd64 1 = 1" using float_of_small_int [of 1] by (simp add: float_of_int_def)
  ultimately have f: "0 \<le> f" "f \<le> 1" by (simp_all add: f_def fdiv_def)
  have S: "Seconds d = fadd (of_int s) f"
    using assms(1) s float_of_small_int [of s] by (simp add: Seconds_def s_def f_def)
  have "of_int s \<le> Seconds d" "Seconds d \<le> of_int (s + 1)"
    unfolding S using f s fadd_between [of s "of_int s" f "s + 1"] by simp_all
  then have "of_int (s + 1) \<le> fadd (Seconds d) 1" "fadd (Seconds d) 1 \<le> of_int (s + 2)"
    using s fadd_between [of "s + 1" "Seconds d" 1 "s + 2"] by simp_all
  then show "s + 1 \<le> retryAfterSeconds d" "retryAfterSeconds d \<le> s + 2"
    using s by (auto simp: retryAfterSeconds_def int_of_float_def le_floor_iff floor_le_iff)
qed

section \<open>Responses\<close>

lemma WriteError_sent:
  assumes "w_sent w = None" "w_accepts w (w_count w)"
  shows "w_sent (WriteError st msg ty code w) = Some (st, AList.update ''Content-Type'' ContentTypeJSON (w_header w))"
    and "w_body (WriteError st msg ty code w) = w_body w @ encode (Envelope msg ty code) @ [newline]"
  using assms by (simp_all add: WriteError_def WriteJSON_def Write_def WriteHeader_def header_set_def Let_def)

text \<open>A rate limited tenant is told the truth in the units of the wire. A denial with a pause is answered with a
  Retry-After header of whole seconds that covers the pause and exceeds it by at most two seconds, a rate denial
  with status 429, and an exhausted budget never with 429, for no wait refills it.\<close>

theorem denial_on_the_wire:
  assumes "w_sent w = None" "w_accepts w (w_count w)" "int64_ok (RetryAfter d)"
  shows "\<exists>st h. w_sent (snd (writeDenial (Inr d) w)) = Some (st, h)
    \<and> (st = 429 \<longleftrightarrow> Reason d = DenyRequestRate \<or> Reason d = DenyTokenRate)
    \<and> (0 < RetryAfter d \<longrightarrow> (\<exists>n. map_of h ''Retry-After'' = Some (Itoa n) \<and> RetryAfter d < n * Second \<and> n * Second \<le> RetryAfter d + 2 * Second))"
proof -
  define w1 where "w1 = (if 0 < RetryAfter d then header_set ''Retry-After'' (Itoa (retryAfterSeconds (RetryAfter d))) w else w)"
  obtain st ty code where dw: "denialToWire (Reason d) = (st, ty, code)" by (metis prod_cases3)
  have w1: "w_sent w1 = None" "w_accepts w1 (w_count w1)" using assms by (simp_all add: w1_def header_set_def)
  have "w_sent (snd (writeDenial (Inr d) w)) = Some (st, AList.update ''Content-Type'' ContentTypeJSON (w_header w1))"
    using WriteError_sent(1) [OF w1] by (simp add: writeDenial_def dw w1_def)
  moreover have "st = 429 \<longleftrightarrow> Reason d = DenyRequestRate \<or> Reason d = DenyTokenRate"
    using dw by (cases "Reason d") (auto simp: denialToWire_def)
  moreover have "\<exists>n. map_of (AList.update ''Content-Type'' ContentTypeJSON (w_header w1)) ''Retry-After'' = Some (Itoa n)
      \<and> RetryAfter d < n * Second \<and> n * Second \<le> RetryAfter d + 2 * Second" if "0 < RetryAfter d"
  proof -
    have "map_of (AList.update ''Content-Type'' ContentTypeJSON (w_header w1)) ''Retry-After'' = Some (Itoa (retryAfterSeconds (RetryAfter d)))"
      using that by (simp add: w1_def header_set_def update_conv')
    then show ?thesis
      using retryAfterSeconds_bounds [OF that assms(3)] by (intro exI [of _ "retryAfterSeconds (RetryAfter d)"]) (auto simp: Second_def)
  qed
  ultimately show ?thesis by blast
qed

section \<open>Who a caller is\<close>

definition no_keys :: key_set where "no_keys = \<lparr>digests = [], ks_tenants = []\<rparr>"

definition key_set_of :: "(string \<times> string) list \<Rightarrow> key_set" where
  "key_set_of adds = fold key_add adds no_keys"

lemma newKeySet_of: "newKeySet keys = key_set_of (map (\<lambda>k. (k, AnonymousTenant)) keys)"
  by (simp add: newKeySet_def key_set_of_def no_keys_def fold_map comp_def)

lemma key_set_of_lists:
  "digests (key_set_of adds) = map (Sum256 \<circ> fst) (filter (\<lambda>(k, _). k \<noteq> []) adds)"
  "ks_tenants (key_set_of adds) = map snd (filter (\<lambda>(k, _). k \<noteq> []) adds)"
  by (induction adds rule: rev_induct) (auto simp: key_set_of_def no_keys_def key_add_def)

lemma last_match:
  assumes "length xs = length ys" "n \<le> length xs"
  shows "map_option ((!) ys) (foldl (\<lambda>m i. if g = xs ! i then Some i else m) None [0..<n])
    = map_of (rev (zip (take n xs) (take n ys))) g"
  using assms by (induction n) (auto simp: take_Suc_conv_app_nth)

lemma key_lookup_of:
  "key_lookup (key_set_of adds) p = map_of (rev (map (\<lambda>(k, t). (Sum256 k, t)) (filter (\<lambda>(k, _). k \<noteq> []) adds))) (Sum256 p)"
proof -
  let ?k = "key_set_of adds"
  have len: "length (digests ?k) = length (ks_tenants ?k)" by (simp add: key_set_of_lists)
  have "key_lookup ?k p = map_of (rev (zip (digests ?k) (ks_tenants ?k))) (Sum256 p)"
    using last_match [OF len order_refl, of "Sum256 p"] len
    by (simp add: key_lookup_def Let_def map_option_case split: option.splits)
  also have "zip (digests ?k) (ks_tenants ?k) = map (\<lambda>(k, t). (Sum256 k, t)) (filter (\<lambda>(k, _). k \<noteq> []) adds)"
    by (simp add: key_set_of_lists zip_map_map split_def comp_def flip: map_map) (simp add: zip_same_conv_map comp_def)
  finally show ?thesis .
qed

lemma map_of_digest:
  assumes "\<And>k. k \<in> fst ` set xs \<Longrightarrow> Sum256 k = Sum256 p \<Longrightarrow> k = p"
  shows "map_of (map (\<lambda>(k, t). (Sum256 k, t)) xs) (Sum256 p) = map_of xs p"
  using assms
proof (induction xs)
  case (Cons x xs)
  obtain a b where x: "x = (a, b)" by (cases x)
  have "Sum256 a = Sum256 p \<longleftrightarrow> a = p" using Cons.prems [of a] by (auto simp: x)
  moreover have "map_of (map (\<lambda>(k, t). (Sum256 k, t)) xs) (Sum256 p) = map_of xs p" using Cons by simp
  ultimately show ?case by (auto simp: x)
qed simp

lemma authenticate_of:
  assumes "path \<noteq> healthPath" "\<exists>(k, _) \<in> set adds. k \<noteq> []"
    and "\<And>p k. bearerToken auth = Some p \<Longrightarrow> k \<in> fst ` set adds \<Longrightarrow> Sum256 k = Sum256 p \<Longrightarrow> k = p"
  shows "authenticate (key_set_of adds) path auth = Some t \<longleftrightarrow>
    (\<exists>p. bearerToken auth = Some p \<and> p \<noteq> [] \<and> map_of (rev adds) p = Some t)"
proof -
  have ne: "\<not> key_empty (key_set_of adds)" using assms(2) by (auto simp: key_empty_def key_set_of_lists filter_empty_conv)
  have "key_lookup (key_set_of adds) p = (if p = [] then None else map_of (rev adds) p)" if "bearerToken auth = Some p" for p
  proof -
    let ?xs = "rev (filter (\<lambda>(k, _). k \<noteq> []) adds)"
    have "key_lookup (key_set_of adds) p = map_of ?xs p"
      unfolding key_lookup_of rev_map by (rule map_of_digest, rule assms(3) [OF that]) auto
    also have "\<dots> = (if p = [] then None else map_of (rev adds) p)"
      by (induction adds rule: rev_induct) auto
    finally show ?thesis .
  qed
  then show ?thesis using ne assms(1) by (auto simp: authenticate_def split: option.splits)
qed

text \<open>A caller is who its key says. With keys configured, a request other than a health check is admitted exactly
  when it carries a bearer token that is one of the configured keys, never an empty one, and it is billed to the
  tenant the key was last added for, provided SHA-256 tells the presented key from the others.\<close>

theorem caller_is_the_owner_of_its_key:
  assumes "path \<noteq> healthPath" "\<exists>(k, _) \<in> set adds. k \<noteq> []"
    and "\<And>p k. bearerToken auth = Some p \<Longrightarrow> k \<in> fst ` set adds \<Longrightarrow> Sum256 k = Sum256 p \<Longrightarrow> k = p"
  shows "authenticate (key_set_of adds) path auth = Some t \<longleftrightarrow>
    (\<exists>p. bearerToken auth = Some p \<and> p \<noteq> [] \<and> map_of (rev adds) p = Some t)"
  using assms by (rule authenticate_of)

section \<open>The bound on requests in flight\<close>

text \<open>Requests enter and leave in any order; \<open>inside\<close> is the list of those past the limiter.\<close>

inductive limit_step :: "inflight \<times> nat list \<Rightarrow> inflight \<times> nat list \<Rightarrow> bool" where
  enter: "limit_enter f = Some f' \<Longrightarrow> r \<notin> set inside \<Longrightarrow> limit_step (f, inside) (f', r # inside)"
| shed: "limit_enter f = None \<Longrightarrow> limit_step (f, inside) (f, inside)"
| leave: "r \<in> set inside \<Longrightarrow> limit_step (f, inside) (limit_leave f, remove1 r inside)"

lemma limit_invariant:
  assumes "limit_step\<^sup>*\<^sup>* (newInflight limit, []) (f, inside)"
  shows "slots f = slots (newInflight limit) \<and> (\<forall>cap. slots f = Some cap \<longrightarrow> slots_used f = length inside \<and> length inside \<le> cap)"
  using assms
proof (induction rule: rtranclp_induct2)
  case refl
  show ?case by (simp add: newInflight_def)
next
  case (step f0 i0 f i)
  from step.hyps(2) step.IH show ?case
    by cases (auto simp: limit_enter_def limit_leave_def length_remove1 split: option.splits if_splits)
qed

text \<open>(C34) The gateway never holds more requests than its limit, and it sheds only when it is full. Over every
  interleaving of arrivals and departures at most the configured number of requests is past the limiter, and a new
  one is admitted exactly while fewer are; a limit of zero or less bounds nothing.\<close>

theorem requests_in_flight_are_bounded:
  assumes "limit_step\<^sup>*\<^sup>* (newInflight limit, []) (f, inside)"
  shows "(0 < limit \<longrightarrow> int (length inside) \<le> limit) \<and> (limit_enter f = None \<longleftrightarrow> 0 < limit \<and> int (length inside) = limit)"
  using limit_invariant [OF assms] by (auto simp: newInflight_def limit_enter_def split: option.splits if_splits)

section \<open>Witnesses\<close>

definition fresh_writer :: writer where
  "fresh_writer = \<lparr>w_header = [], w_sent = None, w_body = [], w_flushes = True, w_count = 0, w_accepts = (\<lambda>_. True), w_status = None\<rparr>"

theorem denial_on_the_wire_witness:
  "\<exists>st h. w_sent (snd (writeDenial (Inr \<lparr>Reason = DenyTokenRate, RetryAfter = 1500000000, Message = ''wait''\<rparr>) fresh_writer)) = Some (st, h)
    \<and> st = 429 \<and> (\<exists>n. map_of h ''Retry-After'' = Some (Itoa n) \<and> 1500000000 < n * Second \<and> n * Second \<le> 3500000000)"
  using denial_on_the_wire [of fresh_writer "\<lparr>Reason = DenyTokenRate, RetryAfter = 1500000000, Message = ''wait''\<rparr>"]
  by (simp add: fresh_writer_def int64_ok_def Second_def)

theorem caller_is_the_owner_of_its_key_witness:
  "authenticate (key_set_of [(''k'', ''acme'')]) chatPath ''bearer k '' = Some ''acme''"
proof -
  have "bearerToken ''bearer k '' = Some ''k''" by code_simp
  then show ?thesis
    using caller_is_the_owner_of_its_key [of chatPath "[(''k'', ''acme'')]" "''bearer k ''" "''acme''"]
    by (simp add: chatPath_def healthPath_def)
qed

theorem requests_in_flight_are_bounded_witness:
  "\<exists>f. limit_step (newInflight 1, []) (f, [7]) \<and> limit_enter f = None"
proof -
  have s: "limit_step (newInflight 1, []) ((newInflight 1)\<lparr>slots_used := 1\<rparr>, [7])"
    by (rule enter) (simp_all add: limit_enter_def newInflight_def)
  from requests_in_flight_are_bounded [OF r_into_rtranclp, OF s] show ?thesis using s by auto
qed

end
