(* ===== verification/JSON_Roundtrip.thy ===== *)
theory JSON_Roundtrip
  imports JSON_Encode
begin

text \<open>
  Encoding and decoding agree: what the encoder writes of a value the parser could have produced is read back as
  that value. The values a parser produces have well formed UTF-8 strings, number texts of the grammar and
  bounded nesting, which is what the round trip needs, and putting them into maps keeps it.
\<close>

section \<open>Strings\<close>

function valid_utf8 :: "string \<Rightarrow> bool" where
  "valid_utf8 s = (case s of [] \<Rightarrow> True
     | c # r \<Rightarrow> if rune_length s = 0 then False else valid_utf8 (drop (rune_length s) s))"
  by pat_completeness auto
termination by (relation "measure length") auto

declare valid_utf8.simps [simp del]

lemma valid_utf8_Nil [simp]: "valid_utf8 []"
  by (simp add: valid_utf8.simps)

lemma valid_utf8_unfold: "s \<noteq> [] \<Longrightarrow> valid_utf8 s \<longleftrightarrow> rune_length s \<noteq> 0 \<and> valid_utf8 (drop (rune_length s) s)"
  by (subst valid_utf8.simps) (simp split: list.split)

lemma rune_length_le: "rune_length s \<le> length s"
  by (auto simp: rune_length_def split: list.split)

lemma rune_cases:
  assumes "rune_length s = n" "0 < n"
  obtains (one) a r where "s = a # r" "n = 1" "byte a < 128"
  | (two) a b r where "s = a # b # r" "n = 2" "194 \<le> byte a" "byte a < 224" "cont b"
  | (three) a b c r where "s = a # b # c # r" "n = 3" "224 \<le> byte a" "byte a < 240" "cont b" "cont c"
      "byte a = 224 \<longrightarrow> 160 \<le> byte b" "byte a = 237 \<longrightarrow> byte b < 160"
  | (four) a b c d r where "s = a # b # c # d # r" "n = 4" "240 \<le> byte a" "byte a < 245" "cont b" "cont c" "cont d"
      "byte a = 240 \<longrightarrow> 144 \<le> byte b" "byte a = 244 \<longrightarrow> byte b < 144"
proof -
  obtain a r where s: "s = a # r" using assms by (cases s) (auto simp: rune_length_def)
  consider "byte a < 128" | "\<not> byte a < 128" "194 \<le> byte a" "byte a < 224" | "224 \<le> byte a" "byte a < 240"
    | "240 \<le> byte a" "byte a < 245"
    using assms s by (auto simp: rune_length_def split: if_splits)
  then show thesis
  proof cases
    case 1
    with assms s one show thesis by (simp add: rune_length_def)
  next
    case 2
    with assms s obtain b r' where "r = b # r'" "cont b" "n = 2"
      by (cases r) (auto simp: rune_length_def split: if_splits)
    with 2 s two show thesis by blast
  next
    case 3
    with assms s obtain b c r' where "r = b # c # r'" "cont b \<and> cont c" "n = 3"
        "byte a = 224 \<longrightarrow> 160 \<le> byte b" "byte a = 237 \<longrightarrow> byte b < 160"
      by (cases r; cases "tl r") (auto simp: rune_length_def split: if_splits)
    with 3 s three show thesis by blast
  next
    case 4
    with assms s obtain b c d r' where "r = b # c # d # r'" "cont b \<and> cont c \<and> cont d" "n = 4"
        "byte a = 240 \<longrightarrow> 144 \<le> byte b" "byte a = 244 \<longrightarrow> byte b < 144"
      by (cases r; cases "tl r"; cases "tl (tl r)") (auto simp: rune_length_def split: if_splits)
    with 4 s four show thesis by blast
  qed
qed

lemma rune_length_stable:
  assumes "rune_length s = n" "0 < n"
  shows "rune_length (take n s @ t) = n"
  using rune_cases [OF assms] by cases (simp_all add: rune_length_def)

lemma rune_length_ascii: "byte c < 128 \<Longrightarrow> rune_length (c # r) = 1"
  by (simp add: rune_length_def)

lemma rune_length_first:
  assumes "s \<noteq> []" "128 \<le> byte (hd s)"
  shows "rune_length s = 0 \<or> 2 \<le> rune_length s"
proof (cases "rune_length s = 0")
  case False
  then have "0 < rune_length s" by simp
  from rune_cases [OF refl this] assms show ?thesis by cases auto
qed simp

lemma valid_utf8_append:
  "valid_utf8 s \<Longrightarrow> valid_utf8 t \<Longrightarrow> valid_utf8 (s @ t)"
proof (induction s rule: valid_utf8.induct)
  case (1 s)
  show ?case
  proof (cases s)
    case (Cons c r)
    let ?n = "rune_length s"
    have n: "0 < ?n" "valid_utf8 (drop ?n s)" using "1.prems"(1) Cons valid_utf8_unfold [of s] by auto
    have IH: "valid_utf8 (drop ?n s @ t)" using "1.IH" [OF Cons] "1.prems"(2) n by simp
    have "take ?n s @ drop ?n s @ t = s @ t" by (metis append.assoc append_take_drop_id)
    with rune_length_stable [OF refl n(1), of "drop ?n s @ t"] have "rune_length (s @ t) = ?n" by simp
    moreover have "drop ?n (s @ t) = drop ?n s @ t" using rune_length_le [of s] by simp
    ultimately show ?thesis using Cons n(1) IH valid_utf8_unfold [of "s @ t"] by simp
  qed (use "1.prems" in simp)
qed

lemma valid_utf8_rune:
  assumes "0 < rune_length s"
  shows "valid_utf8 (take (rune_length s) s)"
proof -
  define n where "n = rune_length s"
  define t where "t = take n s"
  have "rune_length t = n" "drop n t = []"
    using rune_length_stable [OF refl assms, of "[]"] by (simp_all add: t_def n_def)
  with assms have "valid_utf8 t" using valid_utf8_unfold [of t] by (cases "t = []") (simp_all add: n_def)
  then show ?thesis by (simp add: t_def n_def)
qed

lemma of_char_char_of [simp]: "n < 256 \<Longrightarrow> byte (char_of n) = n"
  by simp

lemma utf8_bytes:
  fixes r :: nat
  assumes "r < 1114112"
  shows "r div 262144 \<le> 4" "r div 4096 mod 64 < 64" "r div 64 mod 64 < 64" "r mod 64 < 64"
    "r < 65536 \<Longrightarrow> r div 4096 < 16" "r < 2048 \<Longrightarrow> r div 64 < 32"
  using assms by auto

lemma valid_utf8_encode:
  assumes "r < 1114112" "\<not> high_surrogate r" "\<not> low_surrogate r"
  shows "valid_utf8 (utf8_encode r)"
proof -
  note b = utf8_bytes [OF assms(1)]
  consider "r < 128" | "128 \<le> r" "r < 2048" | "2048 \<le> r" "r < 65536" | "65536 \<le> r" by linarith
  then have "rune_length (utf8_encode r) = length (utf8_encode r) \<and> utf8_encode r \<noteq> []"
  proof cases
    case 1
    then show ?thesis by (simp add: utf8_encode_def rune_length_def)
  next
    case 2
    then have "2 \<le> r div 64" by auto
    with 2 b show ?thesis by (simp add: utf8_encode_def rune_length_def cont_def)
  next
    case 3
    have q: "r div 64 = r div 4096 * 64 + r div 64 mod 64"
      using div_mult_mod_eq [of "r div 64" 64] div_mult2_eq [of r 64 64] by simp
    have "r div 4096 = 0 \<Longrightarrow> 32 \<le> r div 64 mod 64" using 3 q by simp
    moreover have "r div 4096 = 13 \<Longrightarrow> r div 64 mod 64 < 32"
      using 3 q assms(2,3) by (auto simp: high_surrogate_def low_surrogate_def)
    ultimately have "r div 4096 = 0 \<Longrightarrow> 32 \<le> r div 64 mod 64" "r div 4096 = 13 \<Longrightarrow> r div 64 mod 64 < 32" by blast+
    with 3 b show ?thesis by (auto simp: utf8_encode_def rune_length_def cont_def)
  next
    case 4
    have q: "r div 4096 = r div 262144 * 64 + r div 4096 mod 64"
      using div_mult_mod_eq [of "r div 4096" 64] div_mult2_eq [of r 4096 64] by simp
    have bd: "r div 4096 < 272" "16 \<le> r div 4096" using assms(1) 4 by auto
    have "r div 262144 = 0 \<Longrightarrow> 16 \<le> r div 4096 mod 64" "r div 262144 = 4 \<Longrightarrow> r div 4096 mod 64 < 16"
      using q bd by linarith+
    with 4 b show ?thesis by (auto simp: utf8_encode_def rune_length_def cont_def)
  qed
  then show ?thesis using valid_utf8_unfold [of "utf8_encode r"] by simp
qed

section \<open>Characters of a string\<close>

lemma parse_chars_Cons:
  "parse_chars (c # r) =
     (if c = CHR 0x22 then Some ([], r)
      else if byte c < 32 then None
      else let step = (if c = CHR 0x5C
               then (case r of [] \<Rightarrow> None
                 | e # r' \<Rightarrow> if e = CHR ''u'' then unicode_escape r'
                     else (case simple_escape e of None \<Rightarrow> None | Some t \<Rightarrow> Some (t, r')))
               else let n = rune_length (c # r) in
                 if n = 0 then Some (replacement, r) else Some (take n (c # r), drop n (c # r)))
           in (case step of None \<Rightarrow> None
               | Some (t, rest) \<Rightarrow>
                   if length rest < length (c # r)
                   then (case parse_chars rest of None \<Rightarrow> None | Some (ts, rest') \<Rightarrow> Some (t @ ts, rest'))
                   else None))"
  by (subst parse_chars.simps) simp

definition prepend :: "string \<Rightarrow> (string \<times> string) option \<Rightarrow> (string \<times> string) option" where
  "prepend t p = (case p of None \<Rightarrow> None | Some (ts, rest) \<Rightarrow> Some (t @ ts, rest))"

lemma hex_value_digit: "d < 16 \<Longrightarrow> hex_value (hex_digit d) = Some d"
  by (auto simp: hex_value_def hex_digit_def Let_def)

lemma hex4_escape:
  assumes "r < 65536"
  shows "hex4 (drop 2 (escape_u r) @ t) = Some (r, t)"
proof -
  have a: "r div 4096 < 16" "r div 256 mod 16 < 16" "r div 16 mod 16 < 16" "r mod 16 < 16" using assms by auto
  have "4096 * (r div 4096) + 256 * (r div 256 mod 16) + 16 * (r div 16 mod 16) + r mod 16 = r"
  proof -
    have "r div 16 div 16 = r div 256" "r div 256 div 16 = r div 4096"
      using div_mult2_eq [of r 16 16] div_mult2_eq [of r 256 16] by simp_all
    then have "r div 16 = 16 * (r div 256) + r div 16 mod 16" "r div 256 = 16 * (r div 4096) + r div 256 mod 16"
      "r = 16 * (r div 16) + r mod 16"
      by (metis mult.commute div_mult_mod_eq)+
    then show ?thesis by linarith
  qed
  with a show ?thesis by (simp add: escape_u_def hex4_def hex_value_digit)
qed

lemma parse_escape_u:
  assumes "r < 65536" "\<not> high_surrogate r" "\<not> low_surrogate r"
  shows "parse_chars (escape_u r @ t) = prepend (utf8_encode r) (parse_chars t)"
proof -
  have e: "escape_u r = CHR 0x5C # CHR ''u'' # drop 2 (escape_u r)" "length (drop 2 (escape_u r)) = 4"
    by (simp_all add: escape_u_def)
  have "unicode_escape (drop 2 (escape_u r) @ t) = Some (utf8_encode r, t)"
    using hex4_escape [OF assms(1), of t] assms(2,3) by (simp add: unicode_escape_def)
  then have "parse_chars (CHR 0x5C # CHR ''u'' # drop 2 (escape_u r) @ t) = prepend (utf8_encode r) (parse_chars t)"
    using e(2) by (subst parse_chars_Cons) (simp add: prepend_def)
  then show ?thesis by (subst e(1)) simp
qed

lemma parse_plain:
  assumes "0 < rune_length s" "s \<noteq> []" "hd s \<noteq> CHR 0x22" "hd s \<noteq> CHR 0x5C" "32 \<le> byte (hd s)"
  shows "parse_chars (take (rune_length s) s @ t) = prepend (take (rune_length s) s) (parse_chars t)"
proof -
  define n where "n = rune_length s"
  define x where "x = take n s"
  have n: "rune_length (x @ t) = n" "length x = n" "0 < n"
    using rune_length_stable [OF refl assms(1), of t] rune_length_le [of s] assms(1) by (simp_all add: x_def n_def)
  then obtain c r where x: "x = c # r" by (cases x) auto
  have "c = hd s" using x assms(2) n(3) by (cases s; cases n) (auto simp: x_def)
  with assms(3-5) have c: "c \<noteq> CHR 0x22" "c \<noteq> CHR 0x5C" "\<not> byte c < 32" by auto
  have td: "take n (c # r @ t) = x" "drop n (c # r @ t) = t" using n(2) x by auto
  have rl: "rune_length (c # r @ t) = n" using n(1) x by simp
  have "parse_chars (c # r @ t) = prepend x (parse_chars t)"
    using c n(3) unfolding parse_chars_Cons [of c "r @ t"] rl td Let_def prepend_def by simp
  then show ?thesis using x by (simp add: x_def n_def)
qed

lemma utf8_encode_ascii: "byte c < 128 \<Longrightarrow> utf8_encode (byte c) = [c]"
  by (simp add: utf8_encode_def)

lemma parse_encode_ascii:
  assumes "byte c < 128"
  shows "parse_chars (encode_ascii c @ t) = prepend [c] (parse_chars t)"
proof -
  consider (simple) e where "encode_ascii c = [CHR 0x5C, e]" "e \<noteq> CHR ''u''" "simple_escape e = Some [c]"
    | (hex) "encode_ascii c = escape_u (byte c)"
    | (plain) "encode_ascii c = [c]" "c \<noteq> CHR 0x22" "c \<noteq> CHR 0x5C" "32 \<le> byte c"
    by (fastforce simp: encode_ascii_def simple_escape_def split: if_splits)
  then show ?thesis
  proof cases
    case simple
    then show ?thesis by (simp add: parse_chars_Cons [of "CHR 0x5C"] prepend_def)
  next
    case hex
    with parse_escape_u [of "byte c" t] assms utf8_encode_ascii [OF assms] show ?thesis
      by (simp add: high_surrogate_def low_surrogate_def)
  next
    case plain
    with parse_plain [of "[c]" t] rune_length_ascii [OF assms, of "[]"] show ?thesis by simp
  qed
qed

lemma parse_encode_rune:
  assumes "s \<noteq> []" "128 \<le> byte (hd s)" "0 < rune_length s"
  shows "parse_chars (encode_rune (take (rune_length s) s) @ t) = prepend (take (rune_length s) s) (parse_chars t)"
proof -
  have c: "hd s \<noteq> CHR 0x22" "hd s \<noteq> CHR 0x5C" "32 \<le> byte (hd s)" using assms(2) by auto
  show ?thesis
    using parse_plain [OF assms(3,1) c, of t] parse_escape_u [of 8232 t] parse_escape_u [of 8233 t]
    by (auto simp: encode_rune_def high_surrogate_def low_surrogate_def)
qed

lemma parse_encode_chars:
  "valid_utf8 s \<Longrightarrow> parse_chars (encode_chars s @ CHR 0x22 # r) = Some (s, r)"
proof (induction s rule: encode_chars.induct)
  case (1 s)
  show ?case
  proof (cases s)
    case Nil
    then show ?thesis by (simp add: encode_chars.simps parse_chars_Cons)
  next
    case (Cons c cs)
    let ?n = "rune_length s"
    have v: "0 < ?n" "valid_utf8 (drop ?n s)" using "1.prems" valid_utf8_unfold [of s] Cons by auto
    show ?thesis
    proof (cases "byte c < 128")
      case True
      then have "?n = 1" using Cons rune_length_ascii by simp
      then have "valid_utf8 cs" using v(2) Cons by simp
      then have IH: "parse_chars (encode_chars cs @ CHR 0x22 # r) = Some (cs, r)" using "1.IH"(1) [OF Cons True] by simp
      have "encode_chars s = encode_ascii c @ encode_chars cs" using Cons True by (subst encode_chars.simps) simp
      with IH Cons parse_encode_ascii [OF True] show ?thesis by (simp add: prepend_def)
    next
      case False
      have e: "encode_chars s = encode_rune (take ?n s) @ encode_chars (drop ?n s)"
        using Cons False v(1) by (subst encode_chars.simps) (simp add: Let_def)
      have IH: "parse_chars (encode_chars (drop ?n s) @ CHR 0x22 # r) = Some (drop ?n s, r)"
        using "1.IH"(3) [OF Cons False refl] v by simp
      from parse_encode_rune [of s, OF _ _ v(1)] Cons False IH show ?thesis
        unfolding e by (simp add: prepend_def)
    qed
  qed
qed

section \<open>Numbers\<close>

definition ends :: "string \<Rightarrow> bool" where
  "ends x \<longleftrightarrow> x = [] \<or> hd x \<in> {CHR '','', CHR '']'', CHR ''}''}"

lemma digits_again:
  assumes "digits s = Some (d, r)" "y = [] \<or> \<not> dec_digit (hd y)"
  shows "digits (d @ y) = Some (d, y)"
proof -
  have d: "d = takeWhile dec_digit s" "d \<noteq> []" using assms(1) by (auto simp: digits_def Let_def split: if_splits)
  then have all: "\<forall>c \<in> set d. dec_digit c" by (auto dest: set_takeWhileD)
  then have "takeWhile dec_digit (d @ y) = d" "dropWhile dec_digit (d @ y) = y"
    using assms(2) by (cases y; simp add: takeWhile_append2 dropWhile_append2)+
  with d(2) show ?thesis by (simp add: digits_def Let_def)
qed

lemma digits_head: "digits s = Some (d, r) \<Longrightarrow> d \<noteq> [] \<and> dec_digit (hd d)"
  by (auto simp: digits_def Let_def split: if_splits) (metis hd_in_set set_takeWhileD)

lemma ends_head: "ends y \<Longrightarrow> y = [] \<or> \<not> dec_digit (hd y) \<and> hd y \<noteq> CHR ''.'' \<and> hd y \<noteq> CHR ''e'' \<and> hd y \<noteq> CHR ''E''"
  by (auto simp: ends_def dec_digit_def)

lemma parse_exp_again:
  assumes "parse_exp s = Some (x, r)" "ends y"
  shows "parse_exp (x @ y) = Some (x, y)" "x = [] \<or> hd x \<in> {CHR ''e'', CHR ''E''}"
proof -
  have y: "y = [] \<or> \<not> dec_digit (hd y)" and ye: "parse_exp y = Some ([], y)"
    using ends_head [OF assms(2)] by (auto simp: parse_exp_def split: list.split)
  consider "x = []" | c g d r' where "x = c # g # d" "c = CHR ''e'' \<or> c = CHR ''E''" "g = CHR ''+'' \<or> g = CHR ''-''" "digits r' = Some (d, r)"
    | c d r' where "x = c # d" "c = CHR ''e'' \<or> c = CHR ''E''" "digits r' = Some (d, r)"
    using assms(1) by (auto simp: parse_exp_def split: list.splits if_splits)
  then have "parse_exp (x @ y) = Some (x, y) \<and> (x = [] \<or> hd x \<in> {CHR ''e'', CHR ''E''})"
  proof cases
    case 1
    with ye show ?thesis by simp
  next
    case 2
    with digits_again [OF 2(4) y] show ?thesis by (auto simp: parse_exp_def)
  next
    case 3
    with digits_head [OF 3(3)] obtain a d' where d: "d = a # d'" "dec_digit a" by (cases d) auto
    then have "a \<noteq> CHR ''+''" "a \<noteq> CHR ''-''" by (auto simp: dec_digit_def)
    with 3 d digits_again [OF 3(3) y] show ?thesis by (auto simp: parse_exp_def)
  qed
  then show "parse_exp (x @ y) = Some (x, y)" "x = [] \<or> hd x \<in> {CHR ''e'', CHR ''E''}" by auto
qed

lemma parse_frac_again:
  assumes "parse_frac s = Some (f, r)" "y = [] \<or> \<not> dec_digit (hd y) \<and> hd y \<noteq> CHR ''.''"
  shows "parse_frac (f @ y) = Some (f, y)" "f = [] \<or> hd f = CHR ''.''"
proof -
  consider "f = []" | d r' where "f = CHR ''.'' # d" "digits r' = Some (d, r)"
    using assms(1) by (auto simp: parse_frac_def split: list.splits if_splits)
  then have "parse_frac (f @ y) = Some (f, y) \<and> (f = [] \<or> hd f = CHR ''.'')"
  proof cases
    case 1
    with assms(2) show ?thesis by (auto simp: parse_frac_def split: list.split)
  next
    case 2
    with digits_again [OF 2(2), of y] assms(2) show ?thesis by (auto simp: parse_frac_def)
  qed
  then show "parse_frac (f @ y) = Some (f, y)" "f = [] \<or> hd f = CHR ''.''" by auto
qed

lemma parse_int_again:
  assumes "parse_int_part s = Some (i, r)" "y = [] \<or> \<not> dec_digit (hd y)"
  shows "parse_int_part (i @ y) = Some (i, y)" "i \<noteq> []" "dec_digit (hd i)"
proof -
  consider "i = ''0''" | "digits s = Some (i, r)" "s \<noteq> []" "hd s \<noteq> CHR ''0''"
    using assms(1) by (auto simp: parse_int_part_def split: list.splits if_splits)
  then have "parse_int_part (i @ y) = Some (i, y) \<and> i \<noteq> [] \<and> dec_digit (hd i)"
  proof cases
    case 1
    then show ?thesis by (simp add: parse_int_part_def dec_digit_def)
  next
    case 2
    have "i = takeWhile dec_digit s" using 2(1) by (auto simp: digits_def Let_def split: if_splits)
    with digits_head [OF 2(1)] 2(2,3) obtain a i' where i: "i = a # i'" "a \<noteq> CHR ''0''" by (cases s) (auto split: if_splits)
    with digits_again [OF 2(1) assms(2)] digits_head [OF 2(1)] show ?thesis by (simp add: parse_int_part_def)
  qed
  then show "parse_int_part (i @ y) = Some (i, y)" "i \<noteq> []" "dec_digit (hd i)" by auto
qed

lemma parse_number_again:
  assumes "parse_number s = Some (t, r)" "ends y"
  shows "parse_number (t @ y) = Some (t, y)" "t \<noteq> []" "dec_digit (hd t) \<or> hd t = CHR ''-''"
proof -
  define sign where "sign = (if take 1 s = ''-'' then ''-'' else [])"
  define r0 where "r0 = (if take 1 s = ''-'' then drop 1 s else s)"
  obtain i r1 f r2 x where p: "parse_int_part r0 = Some (i, r1)" "parse_frac r1 = Some (f, r2)" "parse_exp r2 = Some (x, r)"
    and t: "t = sign @ i @ f @ x"
    using assms(1) by (auto simp: parse_number_def r0_def sign_def Let_def split: if_splits option.splits)
  note x = parse_exp_again [OF p(3) assms(2)]
  have xy: "x @ y = [] \<or> \<not> dec_digit (hd (x @ y)) \<and> hd (x @ y) \<noteq> CHR ''.''"
    using x(2) ends_head [OF assms(2)] by (cases x) (auto simp: dec_digit_def)
  note f = parse_frac_again [OF p(2) xy]
  have fxy: "f @ x @ y = [] \<or> \<not> dec_digit (hd (f @ x @ y))"
    using f(2) xy by (cases f) (auto simp: dec_digit_def)
  note i = parse_int_again [OF p(1) fxy]
  have m: "hd i \<noteq> CHR ''-''" using i(3) by (auto simp: dec_digit_def)
  show "parse_number (t @ y) = Some (t, y)"
  proof (cases "sign = []")
    case True
    have "take 1 (i @ f @ x @ y) \<noteq> ''-''" using i(2) m by (cases i) auto
    with True t i f x show ?thesis by (simp add: parse_number_def)
  next
    case False
    then have "sign = ''-''" by (auto simp: sign_def split: if_splits)
    with t i f x show ?thesis by (simp add: parse_number_def)
  qed
  show "t \<noteq> []" "dec_digit (hd t) \<or> hd t = CHR ''-''"
    using t i(2,3) by (auto simp: sign_def hd_append split: if_splits)
qed

definition is_number :: "string \<Rightarrow> bool" where
  "is_number t \<longleftrightarrow> (\<exists>s r. parse_number s = Some (t, r))"

lemma parse_literal_number:
  assumes "is_number t" "ends y"
  shows "parse_literal (t @ y) = Some (JNum t, y)" "t \<noteq> []" "dec_digit (hd t) \<or> hd t = CHR ''-''"
proof -
  obtain s r where "parse_number s = Some (t, r)" using assms(1) by (auto simp: is_number_def)
  note n = parse_number_again [OF this assms(2)]
  then obtain c u where t: "t = c # u" "dec_digit c \<or> c = CHR ''-''" by (cases t) auto
  then have "c \<noteq> CHR ''n''" "c \<noteq> CHR ''t''" "c \<noteq> CHR ''f''" by (auto simp: dec_digit_def)
  with t n(1) show "parse_literal (t @ y) = Some (JNum t, y)" by (simp add: parse_literal_def HasPrefix_def)
  show "t \<noteq> []" "dec_digit (hd t) \<or> hd t = CHR ''-''" by (fact n(2,3))+
qed

section \<open>Values\<close>

text \<open>A value that a parser with \<open>k\<close> levels of nesting to go could have produced.\<close>

fun fits :: "nat \<Rightarrow> json \<Rightarrow> bool"
  and fits_elems :: "nat \<Rightarrow> json list \<Rightarrow> bool"
  and fits_members :: "nat \<Rightarrow> (string \<times> json) list \<Rightarrow> bool" where
  "fits k JNull \<longleftrightarrow> True"
| "fits k (JBool b) \<longleftrightarrow> True"
| "fits k (JNum t) \<longleftrightarrow> is_number t"
| "fits k (JStr s) \<longleftrightarrow> valid_utf8 s"
| "fits k (JArr vs) \<longleftrightarrow> 0 < k \<and> fits_elems (k - 1) vs"
| "fits k (JObj ms) \<longleftrightarrow> 0 < k \<and> fits_members (k - 1) ms"
| "fits_elems k [] \<longleftrightarrow> True"
| "fits_elems k (v # vs) \<longleftrightarrow> fits k v \<and> fits_elems k vs"
| "fits_members k [] \<longleftrightarrow> True"
| "fits_members k ((m, v) # ms) \<longleftrightarrow> valid_utf8 m \<and> fits k v \<and> fits_members k ms"

lemma fits_members_iff: "fits_members k ms \<longleftrightarrow> (\<forall>(m, v) \<in> set ms. valid_utf8 m \<and> fits k v)"
  by (induction ms) auto

lemma encode_head:
  assumes "fits k v"
  obtains c u where "encode v = c # u" "\<not> is_json_ws c" "c \<noteq> CHR '']''"
proof -
  have "\<exists>c u. encode v = c # u \<and> \<not> is_json_ws c \<and> c \<noteq> CHR '']''"
  proof (cases v)
    case (JNum t)
    with assms parse_literal_number [of t "[]"] have "t \<noteq> []" "dec_digit (hd t) \<or> hd t = CHR ''-''"
      by (simp_all add: ends_def)
    with JNum show ?thesis by (cases t) (auto simp: is_json_ws_def dec_digit_def)
  next
    case (JArr vs)
    then show ?thesis by (cases vs) (simp_all add: is_json_ws_def)
  next
    case (JObj ms)
    then show ?thesis by (cases ms) (simp_all add: is_json_ws_def)
  qed (auto simp: is_json_ws_def quoted_def)
  with that show thesis by blast
qed

lemma skip_ws_stop: "\<not> is_json_ws c \<Longrightarrow> skip_ws (c # u) = c # u"
  by (simp add: skip_ws_def)

lemma structural [simp]:
  "\<not> is_json_ws (CHR '','')" "\<not> is_json_ws (CHR '']'')" "\<not> is_json_ws (CHR ''}'')" "\<not> is_json_ws (CHR '':'')"
  "\<not> is_json_ws (CHR 0x22)" "\<not> is_json_ws (CHR ''['')" "\<not> is_json_ws (CHR ''{'')"
  "ends (CHR '','' # r)" "ends (CHR '']'' # r)" "ends (CHR ''}'' # r)"
  by (simp_all add: is_json_ws_def ends_def)

lemma encode_length: "fits k v \<Longrightarrow> 0 < length (encode v)"
  by (erule encode_head) simp

text \<open>One member, up to what follows its value.\<close>

lemma parse_members_step:
  assumes "valid_utf8 m" "parse_value n depth (e @ rest) = Some (v, rest)"
  shows "parse_members (Suc n) depth (quoted m @ '':'' @ e @ rest) = (case skip_ws rest of
       [] \<Rightarrow> None
     | c # r \<Rightarrow> if c = CHR ''}'' then Some ([(m, v)], r)
         else if c = CHR '','' then map_option (\<lambda>(ms, x). ((m, v) # ms, x)) (parse_members n depth r) else None)"
  using parse_encode_chars [OF assms(1), of "'':'' @ e @ rest"] assms(2)
  by (simp add: quoted_def skip_ws_stop)

lemma parse_encode:
  shows "fits k v \<Longrightarrow> k + depth \<le> max_depth \<Longrightarrow> length (encode v) \<le> n \<Longrightarrow> ends rest \<Longrightarrow>
      parse_value n depth (encode v @ rest) = Some (v, rest)"
    and "fits_elems k vs \<Longrightarrow> vs \<noteq> [] \<Longrightarrow> k + depth \<le> max_depth \<Longrightarrow> length (encode_elems vs) < n \<Longrightarrow>
      parse_elems n depth (encode_elems vs @ CHR '']'' # rest) = Some (vs, rest)"
    and "fits_members k ms \<Longrightarrow> ms \<noteq> [] \<Longrightarrow> k + depth \<le> max_depth \<Longrightarrow> length (encode_members ms) < n \<Longrightarrow>
      parse_members n depth (encode_members ms @ CHR ''}'' # rest) = Some (ms, rest)"
proof (induction v and vs and ms arbitrary: k depth n rest and k depth n rest and k depth n rest
    rule: encode_encode_elems_encode_members.induct)
  case 1
  then obtain m where "n = Suc m" by (cases n) auto
  then show ?case by (simp add: skip_ws_def is_json_ws_def parse_literal_def HasPrefix_def)
next
  case (2 b)
  then obtain m where "n = Suc m" by (cases n) (auto split: if_splits)
  then show ?case by (cases b) (simp_all add: skip_ws_def is_json_ws_def parse_literal_def HasPrefix_def)
next
  case (3 t)
  note lit = parse_literal_number [of t rest]
  from 3 lit obtain m where n: "n = Suc m" by (cases n) auto
  from 3 lit obtain c u where t: "t = c # u" "dec_digit c \<or> c = CHR ''-''" by (cases t) auto
  then have "\<not> is_json_ws c" "c \<noteq> CHR 0x22" "c \<noteq> CHR ''[''" "c \<noteq> CHR ''{''" by (auto simp: is_json_ws_def dec_digit_def)
  with n t lit 3 show ?case by (simp add: skip_ws_stop)
next
  case (4 s)
  then obtain m where n: "n = Suc m" by (cases n) (auto simp: quoted_def)
  with 4 parse_encode_chars [of s rest] show ?case by (simp add: quoted_def skip_ws_stop)
next
  case 5
  then obtain m where "n = Suc m" by (cases n) auto
  with 5 show ?case by (simp add: skip_ws_stop)
next
  case (6 v vs)
  then obtain m where n: "n = Suc m" "length (encode_elems (v # vs)) < m" by (cases n) auto
  have "fits (k - 1) v" using 6 by simp
  then obtain c u where c: "encode v = c # u" "\<not> is_json_ws c" "c \<noteq> CHR '']''" by (rule encode_head)
  then obtain u' where u: "encode_elems (v # vs) = c # u'" by (cases vs) auto
  have "parse_elems m (Suc depth) (encode_elems (v # vs) @ CHR '']'' # rest) = Some (v # vs, rest)"
    using 6 n by (intro "6.IH" [where k = "k - 1"]) auto
  with 6 n c u show ?case by (simp add: skip_ws_stop)
next
  case 7
  then obtain m where "n = Suc m" by (cases n) auto
  with 7 show ?case by (simp add: skip_ws_stop)
next
  case (8 x xs)
  then obtain m where n: "n = Suc m" "length (encode_members (x # xs)) < m" by (cases n) auto
  obtain u' where u: "encode_members (x # xs) = CHR 0x22 # u'" by (cases xs; cases x) (auto simp: quoted_def)
  have "parse_members m (Suc depth) (encode_members (x # xs) @ CHR ''}'' # rest) = Some (x # xs, rest)"
    using 8 n by (intro "8.IH" [where k = "k - 1"]) auto
  with 8 n u show ?case by (simp add: skip_ws_stop)
next
  case 9
  then show ?case by simp
next
  case (10 v)
  then obtain m where n: "n = Suc m" "length (encode v) \<le> m" by (cases n) auto
  with 10 have "parse_value m depth (encode v @ CHR '']'' # rest) = Some (v, CHR '']'' # rest)"
    by (intro "10.IH") auto
  with n show ?case by (simp add: skip_ws_stop)
next
  case (11 v w vs)
  then obtain m where n: "n = Suc m" "length (encode v) \<le> m" "length (encode_elems (w # vs)) < m" by (cases n) auto
  have "parse_value m depth (encode v @ CHR '','' # encode_elems (w # vs) @ CHR '']'' # rest)
      = Some (v, CHR '','' # encode_elems (w # vs) @ CHR '']'' # rest)"
    using 11 n by (intro "11.IH"(1)) auto
  moreover have "parse_elems m depth (encode_elems (w # vs) @ CHR '']'' # rest) = Some (w # vs, rest)"
    using 11 n by (intro "11.IH"(2)) auto
  ultimately show ?case using n by (simp add: skip_ws_stop)
next
  case 12
  then show ?case by simp
next
  case (13 q v)
  then obtain m where n: "n = Suc m" "length (encode v) \<le> m" by (cases n) (auto simp: quoted_def)
  have "parse_value m depth (encode v @ CHR ''}'' # rest) = Some (v, CHR ''}'' # rest)"
    using 13 n by (intro "13.IH") auto
  from parse_members_step [OF _ this, of q] 13 n show ?case by (simp add: skip_ws_stop)
next
  case (14 q v x xs)
  then obtain m where n: "n = Suc m" "length (encode v) \<le> m" "length (encode_members (x # xs)) < m"
    by (cases n) (auto simp: quoted_def)
  have "parse_value m depth (encode v @ CHR '','' # encode_members (x # xs) @ CHR ''}'' # rest)
      = Some (v, CHR '','' # encode_members (x # xs) @ CHR ''}'' # rest)"
    using 14 n by (intro "14.IH"(1)) auto
  moreover have "parse_members m depth (encode_members (x # xs) @ CHR ''}'' # rest) = Some (x # xs, rest)"
    using 14 n by (intro "14.IH"(2)) auto
  ultimately show ?case using parse_members_step [of q m depth "encode v" "CHR '','' # encode_members (x # xs) @ CHR ''}'' # rest" v] 14 n
    by (simp add: skip_ws_stop)
qed

lemma json_parse_encode:
  assumes "fits max_depth v"
  shows "json_parse (encode v) = Some v"
  using parse_encode(1) [OF assms, of 0 "length (encode v) + 1" "[]"]
  by (simp add: json_parse_def ends_def skip_ws_def)

lemma encode_inject:
  assumes "fits max_depth v" "fits max_depth w" "encode v = encode w"
  shows "v = w"
  using json_parse_encode [OF assms(1)] json_parse_encode [OF assms(2)] assms(3) by (metis option.inject)

section \<open>What a parser produces\<close>

lemma hex_value_bound: "hex_value c = Some d \<Longrightarrow> d < 16"
  by (auto simp: hex_value_def Let_def split: if_splits)

lemma hex4_bound:
  assumes "hex4 s = Some (n, r)"
  shows "n < 65536"
proof -
  obtain a b c d w x y z where "hex_value a = Some w" "hex_value b = Some x" "hex_value c = Some y" "hex_value d = Some z"
    "n = 4096 * w + 256 * x + 16 * y + z"
    using assms by (auto simp: hex4_def split: list.splits option.splits)
  with hex_value_bound [of a w] hex_value_bound [of b x] hex_value_bound [of c y] hex_value_bound [of d z]
  show ?thesis by simp
qed

lemma valid_replacement: "valid_utf8 replacement"
  unfolding replacement_def by (rule valid_utf8_encode) (simp_all add: high_surrogate_def low_surrogate_def)

lemma unicode_escape_valid:
  assumes "unicode_escape s = Some (t, r)"
  shows "valid_utf8 t"
proof -
  obtain n rest where h: "hex4 s = Some (n, rest)" using assms by (auto simp: unicode_escape_def split: option.splits)
  have n: "n < 65536" by (rule hex4_bound [OF h])
  show ?thesis
  proof (cases "high_surrogate n \<or> low_surrogate n")
    case False
    with assms h have "t = utf8_encode n" by (simp add: unicode_escape_def)
    with False n show ?thesis using valid_utf8_encode [of n] by simp
  next
    case True
    with assms h consider "t = replacement"
      | m where "t = utf8_encode (65536 + (n - 55296) * 1024 + (m - 56320))" "high_surrogate n" "low_surrogate m"
      by (auto simp: unicode_escape_def split: list.splits option.splits if_splits)
    then show ?thesis
    proof cases
      case 1
      with valid_replacement show ?thesis by simp
    next
      case 2
      then have "65536 + (n - 55296) * 1024 + (m - 56320) < 1114112"
        "65536 \<le> 65536 + (n - 55296) * 1024 + (m - 56320)"
        by (auto simp: high_surrogate_def low_surrogate_def)
      with 2(1) show ?thesis by (auto intro!: valid_utf8_encode simp: high_surrogate_def low_surrogate_def)
    qed
  qed
qed

lemma simple_escape_valid: "simple_escape c = Some t \<Longrightarrow> valid_utf8 t"
  by (auto simp: simple_escape_def valid_utf8_unfold rune_length_def split: if_splits)

definition char_step :: "char \<Rightarrow> string \<Rightarrow> (string \<times> string) option" where
  "char_step c r = (if c = CHR 0x5C
     then (case r of [] \<Rightarrow> None
       | e # r' \<Rightarrow> if e = CHR ''u'' then unicode_escape r'
           else (case simple_escape e of None \<Rightarrow> None | Some t \<Rightarrow> Some (t, r')))
     else let n = rune_length (c # r) in
       if n = 0 then Some (replacement, r) else Some (take n (c # r), drop n (c # r)))"

lemma parse_chars_step:
  "parse_chars (c # r) = (if c = CHR 0x22 then Some ([], r) else if byte c < 32 then None
     else case char_step c r of None \<Rightarrow> None
       | Some (t, rest) \<Rightarrow> if length rest < length (c # r)
           then (case parse_chars rest of None \<Rightarrow> None | Some (ts, rest') \<Rightarrow> Some (t @ ts, rest')) else None)"
  unfolding parse_chars_Cons char_step_def Let_def by (rule refl)

lemma char_step_valid: "char_step c r = Some (t, rest) \<Longrightarrow> valid_utf8 t"
  using valid_utf8_rune [of "c # r"]
  by (auto simp: char_step_def Let_def valid_replacement intro: unicode_escape_valid simple_escape_valid
      split: if_splits list.splits option.splits)

lemma parse_chars_valid: "parse_chars s = Some (t, r) \<Longrightarrow> valid_utf8 t"
proof (induction "length s" arbitrary: s t rule: less_induct)
  case less
  from less.prems obtain c cs where s: "s = c # cs" by (cases s) (auto simp: parse_chars.simps)
  show ?case
  proof (cases "c = CHR 0x22")
    case True
    with less.prems s show ?thesis by (simp add: parse_chars_step)
  next
    case False
    with less.prems obtain x rest ts where p: "char_step c cs = Some (x, rest)" "length rest < length s"
        "parse_chars rest = Some (ts, r)" "t = x @ ts"
      unfolding s parse_chars_step by (auto split: if_splits option.splits)
    from char_step_valid [OF p(1)] less.hyps [OF p(2,3)] p(4) valid_utf8_append show ?thesis by simp
  qed
qed

lemma parse_literal_fits: "parse_literal s = Some (v, r) \<Longrightarrow> fits k v"
  unfolding parse_literal_def is_number_def by (fastforce simp: is_number_def split: if_splits)

lemma parse_fits:
  shows "parse_value n depth s = Some (v, r) \<Longrightarrow> depth \<le> max_depth \<Longrightarrow> fits (max_depth - depth) v"
    and "parse_elems n depth s = Some (vs, r) \<Longrightarrow> depth \<le> max_depth \<Longrightarrow> fits_elems (max_depth - depth) vs"
    and "parse_members n depth s = Some (ms, r) \<Longrightarrow> depth \<le> max_depth \<Longrightarrow> fits_members (max_depth - depth) ms"
proof (induction n depth s and n depth s and n depth s arbitrary: v r and vs r and ms r
    rule: parse_value_parse_elems_parse_members.induct)
  case (2 n depth s)
  then obtain c u where s: "skip_ws s = c # u" by (cases "skip_ws s") auto
  consider "c = CHR 0x22" | "c = CHR ''[''" | "c = CHR ''{''" | "c \<noteq> CHR 0x22" "c \<noteq> CHR ''[''" "c \<noteq> CHR ''{''" by blast
  then show ?case
  proof cases
    case 1
    with "2.prems" s show ?thesis by (auto dest: parse_chars_valid)
  next
    case b: 2
    with "2.prems" s obtain d u' where u: "skip_ws u = d # u'" and lt: "\<not> max_depth \<le> depth"
      by (auto split: if_splits list.splits)
    show ?thesis
    proof (cases "d = CHR '']''")
      case True
      with "2.prems" s b u lt show ?thesis by auto
    next
      case False
      with "2.prems" s b u lt obtain vs where p: "parse_elems n (Suc depth) u = Some (vs, r)" "v = JArr vs" by auto
      from "2.IH"(1) [OF s _ b lt u False p(1)] b lt p(2) show ?thesis by (simp add: Suc_diff_Suc)
    qed
  next
    case b: 3
    with "2.prems" s obtain d u' where u: "skip_ws u = d # u'" and lt: "\<not> max_depth \<le> depth"
      by (auto split: if_splits list.splits)
    show ?thesis
    proof (cases "d = CHR ''}''")
      case True
      with "2.prems" s b u lt show ?thesis by auto
    next
      case False
      with "2.prems" s b u lt obtain ms where p: "parse_members n (Suc depth) u = Some (ms, r)" "v = JObj ms" by auto
      from "2.IH"(2) [OF s _ _ b lt u False p(1)] b lt p(2) show ?thesis by (simp add: Suc_diff_Suc)
    qed
  next
    case 4
    with "2.prems" s show ?thesis by (auto dest: parse_literal_fits)
  qed
next
  case (4 n depth s)
  then obtain v r1 where v: "parse_value n depth s = Some (v, r1)" by (auto split: option.splits)
  with 4 obtain c r2 where c: "skip_ws r1 = c # r2" by (auto split: list.splits)
  have fv: "fits (max_depth - depth) v" using "4.IH"(1) [OF v "4.prems"(2)] .
  show ?case
  proof (cases "c = CHR '']''")
    case True
    with "4.prems" v c fv show ?thesis by auto
  next
    case False
    with "4.prems" v c obtain vs' where p: "c = CHR '',''" "parse_elems n depth r2 = Some (vs', r)" "vs = v # vs'"
      by (auto split: if_splits)
    from "4.IH"(2) [OF v refl c False p(1,2) "4.prems"(2)] fv p(3) show ?thesis by simp
  qed
next
  case (6 n depth s)
  then obtain u where s: "skip_ws s = CHR 0x22 # u" by (auto split: list.splits if_splits)
  with "6.prems" obtain k r1 where k: "parse_chars u = Some (k, r1)" by (auto split: option.splits)
  with "6.prems" s obtain r2 where r1: "skip_ws r1 = CHR '':'' # r2" by (auto split: list.splits if_splits)
  with "6.prems" s k obtain v r3 where v: "parse_value n depth r2 = Some (v, r3)" by (auto split: option.splits)
  with "6.prems" s k r1 obtain c r4 where c: "skip_ws r3 = c # r4" by (auto split: list.splits)
  have fv: "fits (max_depth - depth) v" "valid_utf8 k"
    using "6.IH"(1) [OF s _ k refl r1 _ v "6.prems"(2)] parse_chars_valid [OF k] by auto
  show ?case
  proof (cases "c = CHR ''}''")
    case True
    with "6.prems" s k r1 v c fv show ?thesis by auto
  next
    case False
    with "6.prems" s k r1 v c obtain ms' where p: "c = CHR '',''" "parse_members n depth r4 = Some (ms', r)" "ms = (k, v) # ms'"
      by (auto split: if_splits)
    from "6.IH"(2) [OF s _ k refl r1 _ v refl c False p(1,2) "6.prems"(2)] fv p(3) show ?thesis by simp
  qed
qed simp_all

section \<open>Maps\<close>

lemma clearjunk_subset: "set (AList.clearjunk ms) \<subseteq> set ms"
  by (induction ms rule: AList.clearjunk.induct) (auto simp: AList.delete_eq)

lemma map_value_subset: "set (map_value ms) \<subseteq> set ms"
  using clearjunk_subset [of "rev ms"] by (auto simp: map_value_def)

lemma fits_map_value: "fits_members k ms \<Longrightarrow> fits_members k (map_value ms)"
  using map_value_subset [of ms] by (auto simp: fits_members_iff)

lemma any_fits:
  shows "fits k v \<Longrightarrow> fits k (any_of v)"
    and "fits_elems k vs \<Longrightarrow> fits_elems k (any_elems vs)"
    and "fits_members k ms \<Longrightarrow> fits_members k (any_members ms)"
  by (induction v and vs and ms arbitrary: k and k and k rule: any_of_any_elems_any_members.induct)
    (auto simp: fits_map_value)

lemma map_delete_subset: "set (map_delete k ms) \<subseteq> set ms"
  by (auto simp: map_delete_def AList.delete_eq)

lemma fits_fold_delete: "fits_members k ms \<Longrightarrow> fits_members k (fold map_delete names ms)"
proof (induction names arbitrary: ms)
  case (Cons n names)
  then have "fits_members k (map_delete n ms)" using map_delete_subset [of n ms] by (auto simp: fits_members_iff)
  with Cons.IH show ?case by simp
qed simp

text \<open>A map keeps what was put into it last.\<close>

lemma map_of_map_value: "map_of (map_value ms) k = map_of (rev ms) k"
proof -
  have d: "distinct (map fst (AList.clearjunk (rev ms)))" by simp
  then have "distinct (map fst (map_value ms))"
    unfolding map_value_def by (simp add: distinct_map)
  with d have "map_of (map_value ms) = map_of (AList.clearjunk (rev ms))"
    by (simp add: map_of_inject_set map_value_def)
  then show ?thesis by (simp add: map_of_clearjunk)
qed

end
