(* ===== verification/Provider_Rewrite.thy ===== *)
theory Provider_Rewrite
  imports JSON_Roundtrip Providers Go_Format
begin

text \<open>
  Retargeting a request at the model name one provider understands (\<^verbatim>\<open>src/internal/providers/rewrite.go\<close>). The
  body is decoded into a map, its model field replaced and the map written back. A call that panics is \<open>None\<close>:
  assigning into the nil map a JSON null leaves behind does.
\<close>

section \<open>Providers\<close>

text \<open>A provider as its callers see it. The first argument of a call is the time its context allows.\<close>

record provider =
  prov_Name :: string
  prov_Chat :: "duration option \<Rightarrow> chat_request \<Rightarrow> (err + chat_response) option"
  prov_ChatStream :: "duration option \<Rightarrow> chat_request \<Rightarrow> (err + reader) option"

section \<open>The rewrite\<close>

definition modelField :: string where "modelField = ''model''"

definition setModel :: "bytes \<Rightarrow> string \<Rightarrow> (err + bytes) option" where
  "setModel raw model =
     (if TrimSpace raw = [] then Some (Inr raw)
      else case parse_value (length raw + 1) 0 raw of
        None \<Rightarrow> Some (Inl (WrapErr ''decode request body: '' (OtherErr ''json'')))
      | Some (v, _) \<Rightarrow>
          (case any_of v of
             JObj body \<Rightarrow> Some (Inr (encode (JObj (map_put modelField (JStr model) body))))
           | JNull \<Rightarrow> None
           | _ \<Rightarrow> Some (Inl (WrapErr ''decode request body: '' (OtherErr ''json'')))))"

definition rewrite :: "string \<Rightarrow> string \<Rightarrow> chat_request \<Rightarrow> (err + chat_request) option" where
  "rewrite inner model req = (case setModel (ReqRaw req) model of
       None \<Rightarrow> None
     | Some (Inl e) \<Rightarrow>
         Some (Inl (ProviderError inner ErrClassInvalidRequest 0
           ''request body could not be retargeted at this provider'' (Some e)))
     | Some (Inr raw) \<Rightarrow> Some (Inr (req\<lparr>ReqModel := model, ReqRaw := raw\<rparr>)))"

definition WithModel :: "provider \<Rightarrow> string \<Rightarrow> provider" where
  "WithModel p upstreamModel =
     (if upstreamModel = [] then p
      else \<lparr>prov_Name = prov_Name p,
            prov_Chat = (\<lambda>ctx req. case rewrite (prov_Name p) upstreamModel req of
                None \<Rightarrow> None
              | Some (Inl e) \<Rightarrow> Some (Inl e)
              | Some (Inr rewritten) \<Rightarrow> prov_Chat p ctx rewritten),
            prov_ChatStream = (\<lambda>ctx req. case rewrite (prov_Name p) upstreamModel req of
                None \<Rightarrow> None
              | Some (Inl e) \<Rightarrow> Some (Inl e)
              | Some (Inr rewritten) \<Rightarrow>
                  (case prov_ChatStream p ctx rewritten of
                     None \<Rightarrow> None
                   | Some (Inl e) \<Rightarrow> Some (Inl e)
                   | Some (Inr reader) \<Rightarrow> Some (Inr (WithModel_stream upstreamModel reader))))\<rparr>)"

section \<open>Only the model changes\<close>

lemma TrimSpace_Nil: "TrimSpace s = [] \<longleftrightarrow> (\<forall>c \<in> set s. is_space c)"
proof
  assume "TrimSpace s = []"
  then have all: "\<forall>c \<in> set (dropWhile is_space s). is_space c" by (simp add: TrimSpace_def dropWhile_eq_Nil_conv)
  then have "dropWhile is_space s = []" using hd_dropWhile [of is_space s] hd_in_set by blast
  then show "\<forall>c \<in> set s. is_space c" by (simp add: dropWhile_eq_Nil_conv)
qed (auto simp: TrimSpace_def dropWhile_eq_Nil_conv dest: set_dropWhileD)

lemma skip_ws_head: "skip_ws s = c # r \<Longrightarrow> c \<in> set s \<and> \<not> is_json_ws c"
  unfolding skip_ws_def by (metis dropWhile_eq_Cons_conv hd_dropWhile list.distinct(1) list.sel(1) list.set_intros(1) set_dropWhileD)

lemma parse_object:
  assumes "json_parse raw = Some (JObj ms)"
  shows "\<exists>r. parse_value (length raw + 1) 0 raw = Some (JObj ms, r)" "TrimSpace raw \<noteq> []"
    "fits_members (max_depth - 1) (map_value (any_members ms))"
proof -
  obtain r where r: "parse_value (length raw + 1) 0 raw = Some (JObj ms, r)"
    using assms by (auto simp: json_parse_def split: option.splits if_splits)
  then show "\<exists>r. parse_value (length raw + 1) 0 raw = Some (JObj ms, r)" ..
  obtain rest where "skip_ws raw = CHR ''{'' # rest"
    using r by (auto simp: parse_literal_def split: list.splits if_splits option.splits)
  with skip_ws_head have "CHR ''{'' \<in> set raw" by blast
  then show "TrimSpace raw \<noteq> []" by (auto simp: TrimSpace_Nil is_space_def intro!: bexI [of _ "CHR ''{''"])
  from parse_fits(1) [OF r] have "fits_members (max_depth - 1) ms" by simp
  then show "fits_members (max_depth - 1) (map_value (any_members ms))"
    by (intro fits_map_value any_fits(3))
qed

lemma map_value_distinct: "distinct (map fst (map_value ms))"
  using distinct_clearjunk [of "rev ms"] unfolding map_value_def by (simp add: distinct_map)

lemma map_of_rev_map_value: "map_of (rev (map_value ms)) = map_of (map_value ms)"
  by (rule map_of_inject_set [THEN iffD2]) (simp_all add: map_value_distinct flip: rev_map)

lemma map_of_put: "map_of (map_put k v (map_value ms)) = (map_of (rev ms))(k \<mapsto> v)"
  by (rule ext) (simp add: map_put_def map_of_map_value map_of_rev_map_value)

lemma fits_put: "fits_members k ms \<Longrightarrow> valid_utf8 n \<Longrightarrow> fits k v \<Longrightarrow> fits_members k (map_put n v ms)"
  unfolding map_put_def by (rule fits_map_value) (simp add: fits_members_iff)

lemma setModel_object:
  assumes "json_parse raw = Some (JObj ms)"
  shows "setModel raw m = Some (Inr (encode (JObj (map_put modelField (JStr m) (map_value (any_members ms))))))"
  using parse_object(1,2) [OF assms] by (auto simp: setModel_def)

lemma map_of_any_members: "map_of (any_members ms) k = map_option any_of (map_of ms k)"
  by (induction ms) auto

lemma rev_any_members: "rev (any_members ms) = any_members (rev ms)"
proof -
  have "any_members (xs @ ys) = any_members xs @ any_members ys" for xs ys by (induction xs) auto
  then show ?thesis by (induction ms) auto
qed

text \<open>(C33) Retargeting a request changes its model and nothing else. For a request body that is a JSON object, the
  rewritten body parses, its model is the upstream's name, and every other field has the value the client sent,
  the last one where the client repeated a field, numbers in the client's own notation.\<close>

theorem rewrite_changes_only_the_model:
  assumes "json_parse (ReqRaw req) = Some (JObj ms)" and "valid_utf8 m"
  shows "\<exists>out fields. rewrite inner m req = Some (Inr out) \<and> ReqModel out = m \<and> ReqStream out = ReqStream req
    \<and> json_parse (ReqRaw out) = Some (JObj fields) \<and> distinct (map fst fields)
    \<and> (\<forall>f. map_of fields f = (if f = modelField then Some (JStr m) else map_option any_of (map_of (rev ms) f)))"
proof -
  let ?fields = "map_put modelField (JStr m) (map_value (any_members ms))"
  have "valid_utf8 modelField" by code_simp
  then have "fits max_depth (JObj ?fields)"
    using fits_put [OF parse_object(3) [OF assms(1)], of modelField "JStr m"] assms(2) by (simp add: max_depth_def)
  then have "json_parse (encode (JObj ?fields)) = Some (JObj ?fields)" by (rule json_parse_encode)
  moreover have "map_of ?fields f = (if f = modelField then Some (JStr m) else map_option any_of (map_of (rev ms) f))" for f
    by (simp add: map_of_put rev_any_members map_of_any_members)
  moreover have "distinct (map fst ?fields)" by (simp add: map_put_def map_value_distinct)
  ultimately show ?thesis by (auto simp: rewrite_def setModel_object [OF assms(1)])
qed

lemma rewritten_body_never_panics:
  assumes "json_parse raw = Some v" "v \<noteq> JNull"
  shows "setModel raw m \<noteq> None"
  using assms by (cases v) (auto simp: setModel_def json_parse_def split: option.splits if_splits)

definition demo_body :: bytes where
  "demo_body = [CHR ''{'', CHR 0x22] @ modelField @ [CHR 0x22] @ '':1e2}''"

theorem rewrite_changes_only_the_model_witness:
  "\<exists>out fields. rewrite ''p'' ''up'' \<lparr>ReqModel = ''alias'', ReqStream = False, ReqRaw = demo_body\<rparr> = Some (Inr out)
    \<and> json_parse (ReqRaw out) = Some (JObj fields) \<and> map_of fields modelField = Some (JStr ''up'')"
proof -
  have p: "json_parse (ReqRaw \<lparr>ReqModel = ''alias'', ReqStream = False, ReqRaw = demo_body\<rparr>) = Some (JObj [(modelField, JNum ''1e2'')])"
    by code_simp
  have u: "valid_utf8 ''up''" by code_simp
  from rewrite_changes_only_the_model [OF p u, of "''p''"] show ?thesis by (simp split: if_splits)
qed

end
