(* ===== verification/Cache_Exact.thy ===== *)
theory Cache_Exact
  imports Providers Float64 "HOL-Library.AList"
begin

text \<open>
  The exact answer cache (\<^verbatim>\<open>src/internal/cache/types.go\<close>, \<^verbatim>\<open>src/internal/cache/exact.go\<close>): nodes in an explicit
  heap, an intrusive doubly linked recency list through them, and a map per tenant that finds them. The
  reference is an association list, most recently used first; every operation on the pointers is shown to
  be the corresponding one on that list, and the guarantees of the cache are proved once, over the interface.
\<close>

section \<open>Entries and keys\<close>

record cache_entry =
  ce_Body :: bytes
  ce_Frames :: "bytes list"
  ce_Usage :: usage
  ce_USD :: float64
  ce_Provider :: string
  ce_Model :: string
  ce_StoredAt :: instant

definition Streamed :: "cache_entry \<Rightarrow> bool" where
  "Streamed e \<longleftrightarrow> 0 < length (ce_Frames e)"

record cache_key =
  key_Tenant :: string
  key_Model :: string
  key_Hash :: string

record exact_key =
  ek_Model :: string
  ek_Hash :: string

datatype cache_event = EventExactHit | EventSemanticHit | EventMiss | EventIneligible | EventStored
  | EventEvicted | EventEmbedFailed

section \<open>The cache\<close>

type_synonym addr = nat

record exact_node =
  node_tenant :: string
  node_key :: exact_key
  node_entry :: cache_entry
  node_expiresAt :: instant
  node_prev :: "addr option"
  node_next :: "addr option"

record exact =
  heap :: "addr \<Rightarrow> exact_node"
  fresh :: addr
  byTenant :: "(string \<times> (exact_key \<times> addr) list) list"
  head :: "addr option"
  tail :: "addr option"
  c_size :: int
  maxEntries :: int
  ttl :: duration

definition DefaultExactMaxEntries :: int where "DefaultExactMaxEntries = 4096"
definition DefaultExactTTL :: duration where "DefaultExactTTL = 5 * Minute"

definition no_node :: exact_node where
  "no_node = \<lparr>node_tenant = [], node_key = \<lparr>ek_Model = [], ek_Hash = []\<rparr>,
     node_entry = \<lparr>ce_Body = [], ce_Frames = [], ce_Usage = \<lparr>PromptTokens = 0, CompletionTokens = 0, TotalTokens = 0\<rparr>,
       ce_USD = 0, ce_Provider = [], ce_Model = [], ce_StoredAt = 0\<rparr>,
     node_expiresAt = 0, node_prev = None, node_next = None\<rparr>"

definition NewExact :: "int \<Rightarrow> duration \<Rightarrow> exact" where
  "NewExact limit life =
     \<lparr>heap = (\<lambda>_. no_node), fresh = 0, byTenant = [], head = None, tail = None, c_size = 0,
      maxEntries = (if limit \<le> 0 then DefaultExactMaxEntries else limit),
      ttl = (if life \<le> 0 then DefaultExactTTL else life)\<rparr>"

definition set_prev :: "addr \<Rightarrow> addr option \<Rightarrow> exact \<Rightarrow> exact" where
  "set_prev a p c = c\<lparr>heap := (heap c)(a := (heap c a)\<lparr>node_prev := p\<rparr>)\<rparr>"

definition set_next :: "addr \<Rightarrow> addr option \<Rightarrow> exact \<Rightarrow> exact" where
  "set_next a n c = c\<lparr>heap := (heap c)(a := (heap c a)\<lparr>node_next := n\<rparr>)\<rparr>"

definition unlink :: "addr \<Rightarrow> exact \<Rightarrow> exact" where
  "unlink a c =
     (let c1 = (case node_prev (heap c a) of
                  Some p \<Rightarrow> set_next p (node_next (heap c a)) c
                | None \<Rightarrow> if head c = Some a then c\<lparr>head := node_next (heap c a)\<rparr> else c);
          c2 = (case node_next (heap c1 a) of
                  Some n \<Rightarrow> set_prev n (node_prev (heap c1 a)) c1
                | None \<Rightarrow> if tail c1 = Some a then c1\<lparr>tail := node_prev (heap c1 a)\<rparr> else c1)
      in set_next a None (set_prev a None c2))"

definition pushFront :: "addr \<Rightarrow> exact \<Rightarrow> exact" where
  "pushFront a c =
     (let c1 = set_next a (head c) (set_prev a None c);
          c2 = (case head c1 of Some h \<Rightarrow> set_prev h (Some a) c1 | None \<Rightarrow> c1);
          c3 = c2\<lparr>head := Some a\<rparr>
      in if tail c3 = None then c3\<lparr>tail := Some a\<rparr> else c3)"

definition drop_node :: "addr \<Rightarrow> exact \<Rightarrow> exact" where
  "drop_node a c =
     (let c1 = unlink a c; t = node_tenant (heap c1 a);
          c2 = (case map_of (byTenant c1) t of
                  None \<Rightarrow> c1
                | Some byKey \<Rightarrow>
                    (let byKey' = AList.delete (node_key (heap c1 a)) byKey in
                     if byKey' = [] then c1\<lparr>byTenant := AList.delete t (byTenant c1)\<rparr>
                     else c1\<lparr>byTenant := AList.update t byKey' (byTenant c1)\<rparr>))
      in c2\<lparr>c_size := c_size c2 - 1\<rparr>)"

text \<open>Payloads are values here, so the copy that keeps a caller's buffers apart from a stored answer is the
  entry rebuilt from its own payloads.\<close>

definition snapshot_entry :: "cache_entry \<Rightarrow> cache_entry" where
  "snapshot_entry e = e\<lparr>ce_Body := ce_Body e, ce_Frames := map (\<lambda>f. f) (ce_Frames e)\<rparr>"

definition find_node :: "exact \<Rightarrow> string \<Rightarrow> exact_key \<Rightarrow> addr option" where
  "find_node c t k = (case map_of (byTenant c) t of None \<Rightarrow> None | Some byKey \<Rightarrow> map_of byKey k)"

definition body_key :: "cache_key \<Rightarrow> exact_key" where
  "body_key k = \<lparr>ek_Model = key_Model k, ek_Hash = key_Hash k\<rparr>"

definition lookup :: "exact \<Rightarrow> instant \<Rightarrow> cache_key \<Rightarrow> cache_entry option \<times> exact" where
  "lookup c now k = (case find_node c (key_Tenant k) (body_key k) of
       None \<Rightarrow> (None, c)
     | Some a \<Rightarrow>
         (if \<not> now < node_expiresAt (heap c a) then (None, drop_node a c)
          else (let c' = pushFront a (unlink a c) in (Some (snapshot_entry (node_entry (heap c' a))), c'))))"

text \<open>What the list operations leave alone: everything but the links.\<close>

definition content :: "exact_node \<Rightarrow> string \<times> exact_key \<times> cache_entry \<times> instant" where
  "content nd = (node_tenant nd, node_key nd, node_entry nd, node_expiresAt nd)"

definition same_content :: "exact \<Rightarrow> exact \<Rightarrow> bool" where
  "same_content c c' \<longleftrightarrow> (\<forall>a. content (heap c' a) = content (heap c a)) \<and> fresh c' = fresh c
     \<and> byTenant c' = byTenant c \<and> c_size c' = c_size c \<and> maxEntries c' = maxEntries c \<and> ttl c' = ttl c"

lemma same_content_set: "same_content c (set_prev a p c)" "same_content c (set_next a p c)"
    "same_content c (c\<lparr>head := p\<rparr>)" "same_content c (c\<lparr>tail := p\<rparr>)" "same_content c c"
  by (simp_all add: same_content_def set_prev_def set_next_def content_def)

lemma same_content_trans: "same_content c c' \<Longrightarrow> same_content c' c'' \<Longrightarrow> same_content c c''"
  by (simp add: same_content_def)

lemmas same_content_then = same_content_trans [OF _ same_content_set(1)] same_content_trans [OF _ same_content_set(2)]
  same_content_trans [OF _ same_content_set(3)] same_content_trans [OF _ same_content_set(4)]

lemma same_content_unlink: "same_content c (unlink a c)"
proof -
  define c1 where "c1 = (case node_prev (heap c a) of Some p \<Rightarrow> set_next p (node_next (heap c a)) c
      | None \<Rightarrow> if head c = Some a then c\<lparr>head := node_next (heap c a)\<rparr> else c)"
  define c2 where "c2 = (case node_next (heap c1 a) of Some n \<Rightarrow> set_prev n (node_prev (heap c1 a)) c1
      | None \<Rightarrow> if tail c1 = Some a then c1\<lparr>tail := node_prev (heap c1 a)\<rparr> else c1)"
  have "same_content c c1" by (simp add: c1_def same_content_set split: option.split)
  then have "same_content c c2" by (simp add: c2_def same_content_then split: option.split)
  then have "same_content c (set_next a None (set_prev a None c2))" by (intro same_content_then)
  then show ?thesis by (simp add: unlink_def c1_def [symmetric] c2_def [symmetric] Let_def)
qed

lemma same_content_pushFront: "same_content c (pushFront a c)"
proof -
  define c1 where "c1 = set_next a (head c) (set_prev a None c)"
  define c2 where "c2 = (case head c1 of Some h \<Rightarrow> set_prev h (Some a) c1 | None \<Rightarrow> c1)"
  have "same_content c c1" unfolding c1_def by (intro same_content_then same_content_set)
  then have "same_content c c2" by (simp add: c2_def same_content_then split: option.split)
  then have "same_content c (c2\<lparr>head := Some a\<rparr>)" by (intro same_content_then)
  then show ?thesis by (simp add: pushFront_def c1_def [symmetric] c2_def [symmetric] Let_def same_content_then)
qed

lemma drop_node_size: "c_size (drop_node a c) = c_size c - 1" "maxEntries (drop_node a c) = maxEntries c"
proof -
  have "c_size (drop_node a c) = c_size (unlink a c) - 1" "maxEntries (drop_node a c) = maxEntries (unlink a c)"
    by (simp_all add: drop_node_def Let_def split: option.split)
  then show "c_size (drop_node a c) = c_size c - 1" "maxEntries (drop_node a c) = maxEntries c"
    using same_content_unlink [of c a] by (simp_all add: same_content_def)
qed

function evict :: "exact \<Rightarrow> nat \<times> exact" where
  "evict c = (if maxEntries c < c_size c \<and> tail c \<noteq> None
     then (case evict (drop_node (the (tail c)) c) of (n, c') \<Rightarrow> (n + 1, c'))
     else (0, c))"
  by pat_completeness auto
termination by (relation "measure (\<lambda>c. nat (c_size c - maxEntries c))") (auto simp: drop_node_size)

declare evict.simps [simp del]

definition insert_entry :: "exact \<Rightarrow> instant \<Rightarrow> cache_key \<Rightarrow> cache_entry \<Rightarrow> nat \<times> exact" where
  "insert_entry c now k entry0 =
     (let entry = (if ce_StoredAt entry0 = 0 then entry0\<lparr>ce_StoredAt := now\<rparr> else entry0);
          expiresAt = now + ttl c; t = key_Tenant k; bodyKey = body_key k;
          (byKey, c1) = (case map_of (byTenant c) t of
                           Some m \<Rightarrow> (m, c)
                         | None \<Rightarrow> ([], c\<lparr>byTenant := AList.update t [] (byTenant c)\<rparr>))
      in case map_of byKey bodyKey of
        Some a \<Rightarrow>
          (0, pushFront a (unlink a (c1\<lparr>heap := (heap c1)(a := (heap c1 a)\<lparr>node_entry := entry, node_expiresAt := expiresAt\<rparr>)\<rparr>)))
      | None \<Rightarrow>
          (let a = fresh c1;
               c2 = c1\<lparr>heap := (heap c1)(a := \<lparr>node_tenant = t, node_key = bodyKey, node_entry = entry,
                                            node_expiresAt = expiresAt, node_prev = None, node_next = None\<rparr>),
                       fresh := a + 1,
                       byTenant := AList.update t (AList.update bodyKey a byKey) (byTenant c1)\<rparr>;
               c3 = pushFront a c2
           in evict (c3\<lparr>c_size := c_size c3 + 1\<rparr>)))"

definition Get :: "exact \<Rightarrow> instant \<Rightarrow> cache_key \<Rightarrow> cache_entry option \<times> cache_event list \<times> exact" where
  "Get c now k = (case lookup c now k of
       (None, c') \<Rightarrow> (None, [EventMiss], c')
     | (Some e, c') \<Rightarrow> (Some e, [EventExactHit], c'))"

definition Put :: "exact \<Rightarrow> instant \<Rightarrow> cache_key \<Rightarrow> cache_entry option \<Rightarrow> cache_event list \<times> exact" where
  "Put c now k e = (case e of
       None \<Rightarrow> ([], c)
     | Some entry \<Rightarrow> (case insert_entry c now k (snapshot_entry entry) of
         (evicted, c') \<Rightarrow> (replicate evicted EventEvicted @ [EventStored], c')))"

definition Len :: "exact \<Rightarrow> int" where "Len c = c_size c"

lemma snapshot_entry_id [simp]: "snapshot_entry e = e"
  by (simp add: snapshot_entry_def)

section \<open>The recency list\<close>

text \<open>A segment of the list: the nodes at the addresses are linked in order, from predecessor \<open>p\<close> to
  successor \<open>n\<close>.\<close>

definition first_or :: "addr list \<Rightarrow> addr option \<Rightarrow> addr option" where
  "first_or as n = (case as of [] \<Rightarrow> n | a # _ \<Rightarrow> Some a)"

definition last_or :: "addr list \<Rightarrow> addr option \<Rightarrow> addr option" where
  "last_or as p = (if as = [] then p else Some (last as))"

fun seg :: "(addr \<Rightarrow> exact_node) \<Rightarrow> addr option \<Rightarrow> addr list \<Rightarrow> addr option \<Rightarrow> bool" where
  "seg h p [] n \<longleftrightarrow> True"
| "seg h p (a # as) n \<longleftrightarrow> node_prev (h a) = p \<and> node_next (h a) = first_or as n \<and> seg h (Some a) as n"

lemma or_simps [simp]:
  "first_or [] n = n" "first_or (a # as) n = Some a" "last_or [] p = p" "last_or (as @ [a]) p = Some a"
  "first_or (as @ bs) n = first_or as (first_or bs n)" "last_or (as @ bs) p = last_or bs (last_or as p)"
  "last_or [a] p = Some a"
  by (auto simp: first_or_def last_or_def split: list.split)

lemma last_or_Cons: "last_or (a # as) p = last_or as (Some a)"
  by (simp add: last_or_def)

lemma seg_append: "seg h p (as @ bs) n \<longleftrightarrow> seg h p as (first_or bs n) \<and> seg h (last_or as p) bs n"
  by (induction as arbitrary: p) (auto simp: last_or_Cons)

lemma seg_frame: "(\<And>a. a \<in> set as \<Longrightarrow> node_prev (h' a) = node_prev (h a) \<and> node_next (h' a) = node_next (h a))
    \<Longrightarrow> seg h' p as n = seg h p as n"
  by (induction as arbitrary: p) auto

lemma seg_upd [simp]: "a \<notin> set as \<Longrightarrow> seg (h(a := nd)) p as n = seg h p as n"
  by (rule seg_frame) auto

lemma seg_set_next:
  assumes "seg h p (as @ [a]) n" "a \<notin> set as"
  shows "seg (h(a := (h a)\<lparr>node_next := m\<rparr>)) p (as @ [a]) m"
  using assms by (auto simp: seg_append)

lemma seg_set_prev:
  assumes "seg h p (a # as) n" "a \<notin> set as"
  shows "seg (h(a := (h a)\<lparr>node_prev := q\<rparr>)) q (a # as) n"
  using assms by auto

definition linked :: "exact \<Rightarrow> addr list \<Rightarrow> bool" where
  "linked c as \<longleftrightarrow> distinct as \<and> seg (heap c) None as None \<and> head c = first_or as None \<and> tail c = last_or as None"

lemma linked_unlink:
  assumes "linked c (as @ a # bs)"
  shows "linked (unlink a c) (as @ bs)"
proof -
  have d: "a \<notin> set as" "a \<notin> set bs" "distinct as" "distinct bs" "set as \<inter> set bs = {}"
    and s: "seg (heap c) None as (Some a)" "seg (heap c) (Some a) bs None"
    and n: "node_prev (heap c a) = last_or as None" "node_next (heap c a) = first_or bs None"
    and ht: "head c = first_or as (Some a)" "tail c = last_or bs (Some a)"
    using assms by (auto simp: linked_def seg_append last_or_Cons)
  define c1 where "c1 = (case node_prev (heap c a) of Some p \<Rightarrow> set_next p (node_next (heap c a)) c
      | None \<Rightarrow> if head c = Some a then c\<lparr>head := node_next (heap c a)\<rparr> else c)"
  have c1: "seg (heap c1) None as (first_or bs None) \<and> seg (heap c1) (Some a) bs None \<and>
      node_prev (heap c1 a) = last_or as None \<and> node_next (heap c1 a) = first_or bs None \<and>
      head c1 = first_or as (first_or bs None) \<and> tail c1 = last_or bs (Some a)"
  proof (cases as rule: rev_cases)
    case Nil
    then show ?thesis using s n ht by (simp add: c1_def)
  next
    case (snoc as' x)
    with d have "x \<notin> set as'" "x \<noteq> a" "x \<notin> set bs" by auto
    with snoc s n ht seg_set_next [of "heap c" None as' x "Some a" "first_or bs None"] show ?thesis
      by (auto simp: c1_def set_next_def first_or_def split: list.split)
  qed
  define c2 where "c2 = (case node_next (heap c1 a) of Some n \<Rightarrow> set_prev n (node_prev (heap c1 a)) c1
      | None \<Rightarrow> if tail c1 = Some a then c1\<lparr>tail := node_prev (heap c1 a)\<rparr> else c1)"
  have c2: "seg (heap c2) None as (first_or bs None) \<and> seg (heap c2) (last_or as None) bs None \<and>
      head c2 = first_or as (first_or bs None) \<and> tail c2 = last_or bs (last_or as None)"
  proof (cases bs)
    case Nil
    with c1 show ?thesis by (simp add: c2_def)
  next
    case (Cons y bs')
    with d have "y \<notin> set bs'" "y \<noteq> a" "y \<notin> set as" by auto
    with Cons c1 seg_set_prev [of "heap c1" "Some a" y bs' None "last_or as None"]
    show ?thesis by (auto simp: c2_def set_prev_def last_or_Cons)
  qed
  have u: "unlink a c = set_next a None (set_prev a None c2)"
    by (simp add: unlink_def c1_def [symmetric] c2_def [symmetric] Let_def)
  show ?thesis
    using c2 d unfolding u by (auto simp: linked_def seg_append set_next_def set_prev_def)
qed

lemma linked_pushFront:
  assumes "linked c as" "a \<notin> set as"
  shows "linked (pushFront a c) (a # as)"
proof (cases as)
  case Nil
  with assms show ?thesis by (simp add: linked_def pushFront_def set_prev_def set_next_def Let_def)
next
  case (Cons b bs)
  with assms have "b \<noteq> a" "b \<notin> set bs" "a \<notin> set bs" by (auto simp: linked_def)
  with assms Cons seg_set_prev [of "heap c" None b bs None "Some a"] show ?thesis
    by (auto simp: linked_def pushFront_def set_prev_def set_next_def Let_def last_or_def)
qed

section \<open>The cache and the list it stands for\<close>

type_synonym answer_id = "string \<times> exact_key"
type_synonym answers = "(answer_id \<times> (cache_entry \<times> instant)) list"

definition node_id :: "exact_node \<Rightarrow> answer_id" where
  "node_id nd = (node_tenant nd, node_key nd)"

definition item :: "exact_node \<Rightarrow> answer_id \<times> (cache_entry \<times> instant)" where
  "item nd = (node_id nd, (node_entry nd, node_expiresAt nd))"

definition key_id :: "cache_key \<Rightarrow> answer_id" where
  "key_id k = (key_Tenant k, body_key k)"

definition indexed :: "exact \<Rightarrow> addr list \<Rightarrow> bool" where
  "indexed c as \<longleftrightarrow> (\<forall>t k a. find_node c t k = Some a \<longleftrightarrow> a \<in> set as \<and> node_id (heap c a) = (t, k))
     \<and> [] \<notin> snd ` set (byTenant c)"

definition exact_ok :: "exact \<Rightarrow> addr list \<Rightarrow> bool" where
  "exact_ok c as \<longleftrightarrow> linked c as \<and> indexed c as \<and> c_size c = int (length as) \<and> (\<forall>a \<in> set as. a < fresh c)"

definition view :: "exact \<Rightarrow> addr list \<Rightarrow> answers" where
  "view c as = map (\<lambda>a. item (heap c a)) as"

definition represents :: "exact \<Rightarrow> answers \<Rightarrow> bool" where
  "represents c xs \<longleftrightarrow> (\<exists>as. exact_ok c as \<and> view c as = xs) \<and> c_size c \<le> maxEntries c \<and> 0 < maxEntries c"

text \<open>The reference cache: an association list, most recently used first.\<close>

definition lru_get :: "instant \<Rightarrow> answer_id \<Rightarrow> answers \<Rightarrow> cache_entry option \<times> answers" where
  "lru_get now i xs = (case map_of xs i of
       None \<Rightarrow> (None, xs)
     | Some (e, expiry) \<Rightarrow>
         (if now < expiry then (Some e, (i, (e, expiry)) # AList.delete i xs) else (None, AList.delete i xs)))"

definition lru_put :: "nat \<Rightarrow> duration \<Rightarrow> instant \<Rightarrow> answer_id \<Rightarrow> cache_entry \<Rightarrow> answers \<Rightarrow> answers" where
  "lru_put limit life now i e xs = take limit ((i, (e, now + life)) # AList.delete i xs)"

lemma same_content_view:
  assumes "same_content c c'"
  shows "view c' as = view c as" "item (heap c' a) = item (heap c a)" "node_id (heap c' a) = node_id (heap c a)"
    "find_node c' t k = find_node c t k" "node_entry (heap c' a) = node_entry (heap c a)"
    "node_key (heap c' a) = node_key (heap c a)" "node_tenant (heap c' a) = node_tenant (heap c a)"
    "byTenant c' = byTenant c" "c_size c' = c_size c" "maxEntries c' = maxEntries c" "ttl c' = ttl c" "fresh c' = fresh c"
proof -
  have "content (heap c' a) = content (heap c a)" for a using assms by (simp add: same_content_def)
  then have i: "item (heap c' a) = item (heap c a)" "node_entry (heap c' a) = node_entry (heap c a)"
    "node_id (heap c' a) = node_id (heap c a)"
    "node_key (heap c' a) = node_key (heap c a)" "node_tenant (heap c' a) = node_tenant (heap c a)" for a
    by (simp_all add: content_def item_def node_id_def)
  then show "view c' as = view c as" "item (heap c' a) = item (heap c a)" "node_entry (heap c' a) = node_entry (heap c a)"
    "node_id (heap c' a) = node_id (heap c a)"
    "node_key (heap c' a) = node_key (heap c a)" "node_tenant (heap c' a) = node_tenant (heap c a)"
    by (simp_all add: view_def)
  show "find_node c' t k = find_node c t k" "byTenant c' = byTenant c" "c_size c' = c_size c"
    "maxEntries c' = maxEntries c" "ttl c' = ttl c" "fresh c' = fresh c"
    using assms by (simp_all add: same_content_def find_node_def)
qed

lemma indexed_same: "same_content c c' \<Longrightarrow> set as' = set as \<Longrightarrow> indexed c as \<Longrightarrow> indexed c' as'"
  by (simp add: indexed_def same_content_view)

lemma view_keys: "map fst (view c as) = map (\<lambda>a. node_id (heap c a)) as"
  by (simp add: view_def item_def)

lemma indexed_inj: "indexed c as \<Longrightarrow> a \<in> set as \<Longrightarrow> b \<in> set as \<Longrightarrow> node_id (heap c a) = node_id (heap c b) \<Longrightarrow> a = b"
  unfolding indexed_def by (metis option.inject surj_pair)

lemma view_distinct:
  assumes "indexed c as" "distinct as"
  shows "distinct (map fst (view c as))"
  using assms indexed_inj [OF assms(1)] by (auto simp: view_keys distinct_map inj_on_def)

lemma delete_absent: "i \<notin> fst ` set xs \<Longrightarrow> AList.delete i xs = xs"
  by (induction xs) auto

lemma delete_append: "AList.delete i (xs @ ys) = AList.delete i xs @ AList.delete i ys"
  by (simp add: AList.delete_eq)

lemma view_append: "view c (as @ bs) = view c as @ view c bs"
  by (simp add: view_def)

lemma view_Cons: "view c (a # bs) = item (heap c a) # view c bs"
  by (simp add: view_def)

lemma view_delete:
  assumes "indexed c (as @ a # bs)" "distinct (as @ a # bs)"
  shows "AList.delete (node_id (heap c a)) (view c (as @ a # bs)) = view c (as @ bs)"
proof -
  have "node_id (heap c a) \<notin> fst ` set (view c as)" "node_id (heap c a) \<notin> fst ` set (view c bs)"
    using view_distinct [OF assms] by (auto simp: view_def item_def)
  then show ?thesis
    using delete_absent [of "node_id (heap c a)" "view c as"] delete_absent [of "node_id (heap c a)" "view c bs"]
    by (simp add: view_append view_Cons delete_append) (simp add: item_def)
qed

lemma find_view:
  assumes "indexed c as" "distinct as"
  shows "map_of (view c as) (t, k) = map_option (\<lambda>a. (node_entry (heap c a), node_expiresAt (heap c a))) (find_node c t k)"
proof (cases "find_node c t k")
  case None
  then have "(t, k) \<notin> fst ` set (view c as)"
    using assms(1) unfolding indexed_def
    by (auto simp: view_def item_def) (metis option.distinct(1))
  with None show ?thesis by (simp add: map_of_eq_None_iff)
next
  case (Some a)
  then have "a \<in> set as" "node_id (heap c a) = (t, k)" using assms(1) by (auto simp: indexed_def)
  then have "((t, k), (node_entry (heap c a), node_expiresAt (heap c a))) \<in> set (view c as)"
    by (force simp: view_def item_def)
  with Some view_distinct [OF assms] show ?thesis by simp
qed

lemma update_values: "snd ` set (AList.update k v al) \<subseteq> insert v (snd ` set al)"
  by (induction al) auto

lemma delete_values: "snd ` set (AList.delete k al) \<subseteq> snd ` set al"
  by (auto simp: AList.delete_eq)

lemma find_node_drop:
  assumes "find_node c (node_tenant (heap c a)) (node_key (heap c a)) = Some a"
  shows "find_node (drop_node a c) t k = (if (t, k) = node_id (heap c a) then None else find_node c t k)"
    and "[] \<notin> snd ` set (byTenant c) \<Longrightarrow> [] \<notin> snd ` set (byTenant (drop_node a c))"
proof -
  let ?c1 = "unlink a c" and ?t = "node_tenant (heap c a)" and ?k = "node_key (heap c a)"
  note keep = same_content_view [OF same_content_unlink [of c a]]
  obtain byKey where m: "map_of (byTenant c) ?t = Some byKey" and f: "map_of byKey ?k = Some a"
    using assms by (auto simp: find_node_def split: option.splits)
  define byKey' where "byKey' = AList.delete ?k byKey"
  have b: "byTenant (drop_node a c) = (if byKey' = [] then AList.delete ?t (byTenant c) else AList.update ?t byKey' (byTenant c))"
    by (simp add: drop_node_def Let_def keep m byKey'_def)
  have k': "map_of byKey' = (map_of byKey)(?k := None)"
    by (simp add: byKey'_def AList.delete_conv')
  show "find_node (drop_node a c) t k = (if (t, k) = node_id (heap c a) then None else find_node c t k)"
  proof (cases "byKey' = []")
    case True
    with k' have "(map_of byKey)(?k := None) = Map.empty" by simp
    then have "k \<noteq> ?k \<Longrightarrow> map_of byKey k = None" by (metis fun_upd_other)
    with True b m show ?thesis by (auto simp: find_node_def AList.delete_conv' node_id_def)
  next
    case False
    with b m k' show ?thesis by (auto simp: find_node_def AList.update_conv' node_id_def)
  qed
  assume "[] \<notin> snd ` set (byTenant c)"
  then show "[] \<notin> snd ` set (byTenant (drop_node a c))"
    using b update_values [of ?t byKey' "byTenant c"] delete_values [of ?t "byTenant c"] by auto
qed

lemma drop_node_content: "content (heap (drop_node a c) b) = content (heap c b)"
  "linked (drop_node a c) as \<longleftrightarrow> linked (unlink a c) as"
  "fresh (drop_node a c) = fresh c" "ttl (drop_node a c) = ttl c"
proof -
  have "heap (drop_node a c) = heap (unlink a c)" "head (drop_node a c) = head (unlink a c)"
    "tail (drop_node a c) = tail (unlink a c)" "fresh (drop_node a c) = fresh (unlink a c)" "ttl (drop_node a c) = ttl (unlink a c)"
    by (simp_all add: drop_node_def Let_def split: option.split)
  then show "content (heap (drop_node a c) b) = content (heap c b)" "linked (drop_node a c) as \<longleftrightarrow> linked (unlink a c) as"
    "fresh (drop_node a c) = fresh c" "ttl (drop_node a c) = ttl c"
    using same_content_unlink [of c a] by (simp_all add: linked_def same_content_def)
qed

lemma content_item: "content nd = content nd' \<Longrightarrow> item nd = item nd' \<and> node_id nd = node_id nd'"
  by (simp add: content_def item_def node_id_def)

lemma exact_ok_drop:
  assumes "exact_ok c (as @ a # bs)"
  shows "exact_ok (drop_node a c) (as @ bs)"
    and "view (drop_node a c) (as @ bs) = AList.delete (node_id (heap c a)) (view c (as @ a # bs))"
proof -
  have l: "linked c (as @ a # bs)" and i: "indexed c (as @ a # bs)" and d: "distinct (as @ a # bs)"
    using assms by (auto simp: exact_ok_def linked_def)
  have items: "item (heap (drop_node a c) b) = item (heap c b)" "node_id (heap (drop_node a c) b) = node_id (heap c b)" for b
    using content_item [OF drop_node_content(1)] by auto
  have found: "find_node c (node_tenant (heap c a)) (node_key (heap c a)) = Some a"
    using i by (auto simp: indexed_def node_id_def)
  have "indexed (drop_node a c) (as @ bs)"
    unfolding indexed_def
  proof (intro conjI allI)
    show "[] \<notin> snd ` set (byTenant (drop_node a c))"
      using i by (intro find_node_drop(2) [OF found]) (simp add: indexed_def)
    fix t k b
    have all: "find_node c t k = Some b \<longleftrightarrow> b \<in> set (as @ a # bs) \<and> node_id (heap c b) = (t, k)"
      using i unfolding indexed_def by blast
    show "find_node (drop_node a c) t k = Some b \<longleftrightarrow> b \<in> set (as @ bs) \<and> node_id (heap (drop_node a c) b) = (t, k)"
    proof (cases "(t, k) = node_id (heap c a)")
      case True
      then have "b \<in> set (as @ bs) \<Longrightarrow> node_id (heap c b) \<noteq> (t, k)"
        using indexed_inj [OF i, of a b] d by fastforce
      with True show ?thesis by (auto simp: find_node_drop(1) [OF found] items)
    next
      case False
      then have "b = a \<Longrightarrow> node_id (heap c b) \<noteq> (t, k)" by auto
      with False all show ?thesis unfolding find_node_drop(1) [OF found] items by auto
    qed
  qed
  moreover have "linked (drop_node a c) (as @ bs)"
    unfolding drop_node_content by (rule linked_unlink [OF l])
  ultimately show "exact_ok (drop_node a c) (as @ bs)"
    using assms by (simp add: exact_ok_def drop_node_content(3) drop_node_size)
  show "view (drop_node a c) (as @ bs) = AList.delete (node_id (heap c a)) (view c (as @ a # bs))"
    unfolding view_delete [OF i d] by (simp add: view_def items)
qed

lemma same_content_touch: "same_content c (pushFront a (unlink a c))"
  using same_content_trans [OF same_content_unlink same_content_pushFront] .

lemma exact_ok_touch:
  assumes "exact_ok c (as @ a # bs)"
  shows "exact_ok (pushFront a (unlink a c)) (a # as @ bs)"
    and "view (pushFront a (unlink a c)) (a # as @ bs)
           = item (heap c a) # AList.delete (node_id (heap c a)) (view c (as @ a # bs))"
proof -
  have l: "linked c (as @ a # bs)" and i: "indexed c (as @ a # bs)" and d: "distinct (as @ a # bs)"
    using assms by (auto simp: exact_ok_def linked_def)
  note same = same_content_touch [of c a] and keep = same_content_view [OF same_content_touch [of c a]]
  have "linked (pushFront a (unlink a c)) (a # as @ bs)"
    using linked_pushFront [OF linked_unlink [OF l]] d by auto
  moreover have "indexed (pushFront a (unlink a c)) (a # as @ bs)"
    by (rule indexed_same [OF same _ i]) auto
  ultimately show "exact_ok (pushFront a (unlink a c)) (a # as @ bs)"
    using assms by (simp add: exact_ok_def keep)
  show "view (pushFront a (unlink a c)) (a # as @ bs)
      = item (heap c a) # AList.delete (node_id (heap c a)) (view c (as @ a # bs))"
    unfolding view_delete [OF i d] keep by (simp add: view_def)
qed

lemma evict_ok:
  assumes "exact_ok c as" "0 < maxEntries c"
  shows "fst (evict c) = length as - nat (maxEntries c)
       \<and> exact_ok (snd (evict c)) (take (nat (maxEntries c)) as)
       \<and> view (snd (evict c)) (take (nat (maxEntries c)) as) = take (nat (maxEntries c)) (view c as)
       \<and> maxEntries (snd (evict c)) = maxEntries c \<and> ttl (snd (evict c)) = ttl c"
  using assms
proof (induction c arbitrary: as rule: evict.induct)
  case (1 c)
  show ?case
  proof (cases "maxEntries c < c_size c \<and> tail c \<noteq> None")
    case True
    then have len: "nat (maxEntries c) < length as" using "1.prems" by (auto simp: exact_ok_def)
    then obtain as' a where as: "as = as' @ [a]" by (cases as rule: rev_cases) auto
    with "1.prems" have t: "tail c = Some a" by (simp add: exact_ok_def linked_def)
    have ok: "exact_ok (drop_node a c) as'"
      and v: "view (drop_node a c) as' = AList.delete (node_id (heap c a)) (view c as)"
      using exact_ok_drop [of c as' a "[]"] "1.prems"(1) as by auto
    have "indexed c (as' @ a # [])" "distinct (as' @ a # [])" using "1.prems"(1) as by (auto simp: exact_ok_def linked_def)
    then have v': "view (drop_node a c) as' = view c as'" using v as view_delete [of c as' a "[]"] by simp
    have e: "evict c = (case evict (drop_node a c) of (n, c') \<Rightarrow> (n + 1, c'))"
      using True t by (subst evict.simps) simp
    have le: "nat (maxEntries c) \<le> length as'" using len as by simp
    have "nat (maxEntries c) \<le> length (view c as')" using le by (simp add: view_def)
    with "1.IH" [OF True, of as'] ok "1.prems"(2) t v' e as le show ?thesis
      by (auto simp: drop_node_size drop_node_content view_append split: prod.split)
  next
    case False
    then have "length as \<le> nat (maxEntries c)"
      using "1.prems" by (cases as rule: rev_cases) (auto simp: exact_ok_def linked_def)
    moreover from this have "length (view c as) \<le> nat (maxEntries c)" by (simp add: view_def)
    moreover have "evict c = (0, c)" using False by (subst evict.simps) auto
    ultimately show ?thesis using "1.prems" by simp
  qed
qed

text \<open>Each public operation is the one on the list.\<close>

definition stamped :: "instant \<Rightarrow> cache_entry \<Rightarrow> cache_entry" where
  "stamped now e = (if ce_StoredAt e = 0 then e\<lparr>ce_StoredAt := now\<rparr> else e)"

lemma exact_ok_D:
  assumes "exact_ok c as"
  shows "linked c as" "indexed c as" "distinct as" "c_size c = int (length as)" "\<And>a. a \<in> set as \<Longrightarrow> a < fresh c"
  using assms by (auto simp: exact_ok_def linked_def)

lemma find_split:
  assumes "exact_ok c as" "find_node c t k = Some a"
  obtains xs ys where "as = xs @ a # ys" "node_id (heap c a) = (t, k)"
proof -
  have "a \<in> set as" "node_id (heap c a) = (t, k)"
    using assms exact_ok_D(2) [OF assms(1)] by (auto simp: indexed_def)
  with that show thesis by (metis split_list)
qed

lemma lookup_represents:
  assumes "represents c xs"
  shows "fst (lookup c now k) = fst (lru_get now (key_id k) xs)"
    and "represents (snd (lookup c now k)) (snd (lru_get now (key_id k) xs))"
    and "maxEntries (snd (lookup c now k)) = maxEntries c" "ttl (snd (lookup c now k)) = ttl c"
proof -
  obtain as where ok: "exact_ok c as" and v: "view c as = xs" and m: "0 < maxEntries c" "c_size c \<le> maxEntries c"
    using assms by (auto simp: represents_def)
  note find = find_view [OF exact_ok_D(2,3) [OF ok], unfolded v]
  have "fst (lookup c now k) = fst (lru_get now (key_id k) xs)
      \<and> represents (snd (lookup c now k)) (snd (lru_get now (key_id k) xs))
      \<and> maxEntries (snd (lookup c now k)) = maxEntries c \<and> ttl (snd (lookup c now k)) = ttl c"
  proof (cases "find_node c (key_Tenant k) (body_key k)")
    case None
    with assms show ?thesis by (simp add: lookup_def lru_get_def key_id_def find)
  next
    case (Some a)
    then obtain ps qs where as: "as = ps @ a # qs" and i: "node_id (heap c a) = key_id k"
      using find_split [OF ok Some] by (auto simp: key_id_def)
    have f: "map_of xs (key_id k) = Some (node_entry (heap c a), node_expiresAt (heap c a))"
      using find [of "key_Tenant k" "body_key k"] Some by (simp add: key_id_def)
    note touch = exact_ok_touch [OF ok [unfolded as]] and dropped = exact_ok_drop [OF ok [unfolded as]]
    note keep = same_content_view [OF same_content_touch [of c a]]
    have le: "int (length ps + length qs) < maxEntries c" using m exact_ok_D(4) [OF ok] as by simp
    show ?thesis
    proof (cases "now < node_expiresAt (heap c a)")
      case True
      have "represents (pushFront a (unlink a c)) (item (heap c a) # AList.delete (key_id k) xs)"
        using touch exact_ok_D(4) [OF touch(1)] m le unfolding represents_def i v [symmetric] as
        by (auto simp: keep)
      with True Some f i show ?thesis by (simp add: lookup_def lru_get_def keep item_def Let_def)
    next
      case False
      have "represents (drop_node a c) (AList.delete (key_id k) xs)"
        using dropped exact_ok_D(4) [OF dropped(1)] m le unfolding represents_def i v [symmetric] as
        by (auto simp: drop_node_size)
      with False Some f show ?thesis by (simp add: lookup_def lru_get_def drop_node_size drop_node_content)
    qed
  qed
  then show "fst (lookup c now k) = fst (lru_get now (key_id k) xs)"
    "represents (snd (lookup c now k)) (snd (lru_get now (key_id k) xs))"
    "maxEntries (snd (lookup c now k)) = maxEntries c" "ttl (snd (lookup c now k)) = ttl c" by blast+
qed

text \<open>Replacing the answer of a node, and a node of its own for a new key.\<close>

definition refill :: "addr \<Rightarrow> cache_entry \<Rightarrow> instant \<Rightarrow> exact \<Rightarrow> exact" where
  "refill a e expiry c = c\<lparr>heap := (heap c)(a := (heap c a)\<lparr>node_entry := e, node_expiresAt := expiry\<rparr>)\<rparr>"

lemma refill_ok:
  assumes "exact_ok c (as @ a # bs)"
  shows "exact_ok (refill a e expiry c) (as @ a # bs)"
    and "view (refill a e expiry c) (as @ a # bs) = view c as @ (node_id (heap c a), (e, expiry)) # view c bs"
    and "item (heap (refill a e expiry c) a) = (node_id (heap c a), (e, expiry))"
proof -
  have ids: "node_id (heap (refill a e expiry c) b) = node_id (heap c b)" for b
    by (simp add: refill_def node_id_def)
  have "seg (heap (refill a e expiry c)) p xs n = seg (heap c) p xs n" for p xs n
    by (rule seg_frame) (simp add: refill_def)
  then have "linked (refill a e expiry c) (as @ a # bs)"
    using exact_ok_D(1) [OF assms] by (simp add: linked_def refill_def)
  moreover have "indexed (refill a e expiry c) (as @ a # bs)"
    using exact_ok_D(2) [OF assms] ids by (simp add: indexed_def find_node_def refill_def)
  ultimately show "exact_ok (refill a e expiry c) (as @ a # bs)"
    using assms by (simp add: exact_ok_def refill_def)
  show "item (heap (refill a e expiry c) a) = (node_id (heap c a), (e, expiry))"
    by (simp add: refill_def item_def node_id_def)
  show "view (refill a e expiry c) (as @ a # bs) = view c as @ (node_id (heap c a), (e, expiry)) # view c bs"
    using exact_ok_D(3) [OF assms] by (auto simp: view_def refill_def item_def node_id_def)
qed

definition with_node :: "string \<Rightarrow> exact_key \<Rightarrow> cache_entry \<Rightarrow> instant \<Rightarrow> exact \<Rightarrow> exact" where
  "with_node t k e expiry c =
     (let byKey = (case map_of (byTenant c) t of Some m \<Rightarrow> m | None \<Rightarrow> []);
          tenants = (case map_of (byTenant c) t of Some m \<Rightarrow> byTenant c | None \<Rightarrow> AList.update t [] (byTenant c))
      in c\<lparr>heap := (heap c)(fresh c := \<lparr>node_tenant = t, node_key = k, node_entry = e, node_expiresAt = expiry,
             node_prev = None, node_next = None\<rparr>),
           fresh := fresh c + 1, byTenant := AList.update t (AList.update k (fresh c) byKey) tenants\<rparr>)"

lemma update_update: "AList.update t v (AList.update t w al) = AList.update t v al"
  by (induction al) auto

lemma update_nonempty [simp]: "AList.update k v al \<noteq> []"
  by (cases al) auto

lemma with_node_tenants:
  "byTenant (with_node t k e expiry c)
     = AList.update t (AList.update k (fresh c) (case map_of (byTenant c) t of Some m \<Rightarrow> m | None \<Rightarrow> [])) (byTenant c)"
  by (simp add: with_node_def update_update Let_def split: option.split)

lemma find_with_node:
  "find_node (with_node t k e expiry c) t' k' = (if (t', k') = (t, k) then Some (fresh c) else find_node c t' k')"
  by (auto simp: find_node_def with_node_tenants AList.update_conv' split: option.split)

lemma with_node_ok:
  fixes e :: cache_entry and expiry :: instant
  assumes "exact_ok c as" "find_node c t k = None"
  defines "c2 \<equiv> pushFront (fresh c) (with_node t k e expiry c)"
  shows "exact_ok (c2\<lparr>c_size := c_size c2 + 1\<rparr>) (fresh c # as)"
    and "view c2 (fresh c # as) = ((t, k), (e, expiry)) # view c as"
    and "maxEntries c2 = maxEntries c" "ttl c2 = ttl c"
proof -
  let ?w = "with_node t k e expiry c" and ?a = "fresh c"
  note keep = same_content_view [OF same_content_pushFront [of ?w ?a]]
  have new: "?a \<notin> set as" using exact_ok_D(5) [OF assms(1)] by blast
  then have "seg (heap ?w) p as n = seg (heap c) p as n" for p n by (simp add: with_node_def Let_def)
  then have "linked ?w as"
    using exact_ok_D(1) [OF assms(1)] by (simp add: linked_def with_node_def Let_def)
  then have l: "linked c2 (?a # as)" unfolding c2_def using new by (rule linked_pushFront)
  have ids: "node_id (heap ?w b) = (if b = ?a then (t, k) else node_id (heap c b))" for b
    by (simp add: with_node_def node_id_def Let_def)
  define m where "m = AList.update k ?a (case map_of (byTenant c) t of Some m \<Rightarrow> m | None \<Rightarrow> [])"
  have "snd ` set (byTenant ?w) \<subseteq> insert m (snd ` set (byTenant c))"
    unfolding with_node_tenants m_def by (rule update_values)
  moreover have "m \<noteq> []" "[] \<notin> snd ` set (byTenant c)"
    using exact_ok_D(2) [OF assms(1)] by (simp_all add: m_def indexed_def)
  ultimately have "[] \<notin> snd ` set (byTenant ?w)" by blast
  moreover have "find_node ?w t' k' = Some b \<longleftrightarrow> b \<in> set (?a # as) \<and> node_id (heap ?w b) = (t', k')" for t' k' b
  proof -
    have "find_node c t' k' = Some b \<longleftrightarrow> b \<in> set as \<and> node_id (heap c b) = (t', k')"
      using exact_ok_D(2) [OF assms(1)] unfolding indexed_def by blast
    with assms(2) new show ?thesis by (cases "(t', k') = (t, k)"; cases "b = ?a") (auto simp: find_with_node ids)
  qed
  ultimately have i: "indexed c2 (?a # as)"
    unfolding c2_def by (intro indexed_same [OF same_content_pushFront refl]) (simp add: indexed_def)
  have f: "fresh c2 = ?a + 1" "c_size c2 = c_size c" "maxEntries c2 = maxEntries c" "ttl c2 = ttl c"
    unfolding c2_def keep by (simp_all add: with_node_def Let_def)
  then show "maxEntries c2 = maxEntries c" "ttl c2 = ttl c" by simp_all
  have b: "b \<in> set as \<Longrightarrow> b < fresh c" for b using exact_ok_D(5) [OF assms(1)] by blast
  show "exact_ok (c2\<lparr>c_size := c_size c2 + 1\<rparr>) (?a # as)"
    using l i exact_ok_D(4) [OF assms(1)] f(1,2) b unfolding exact_ok_def linked_def indexed_def
    by (simp add: find_node_def less_SucI)
  show "view c2 (?a # as) = ((t, k), (e, expiry)) # view c as"
    using new unfolding c2_def keep
    by (auto simp: view_def with_node_def item_def node_id_def Let_def)
qed

lemma insert_entry_cases:
  "insert_entry c now k e0 = (case find_node c (key_Tenant k) (body_key k) of
       Some a \<Rightarrow> (0, pushFront a (unlink a (refill a (stamped now e0) (now + ttl c) c)))
     | None \<Rightarrow> (let c3 = pushFront (fresh c) (with_node (key_Tenant k) (body_key k) (stamped now e0) (now + ttl c) c)
               in evict (c3\<lparr>c_size := c_size c3 + 1\<rparr>)))"
  by (simp add: insert_entry_def find_node_def refill_def with_node_def stamped_def Let_def split: option.split)

lemma view_resize: "view (c\<lparr>c_size := n\<rparr>) as = view c as"
  by (simp add: view_def)

lemma insert_represents:
  assumes "represents c xs"
  shows "represents (snd (insert_entry c now k e)) (lru_put (nat (maxEntries c)) (ttl c) now (key_id k) (stamped now e) xs)"
    and "fst (insert_entry c now k e) = length (AList.delete (key_id k) xs) + 1 - nat (maxEntries c)"
    and "maxEntries (snd (insert_entry c now k e)) = maxEntries c" "ttl (snd (insert_entry c now k e)) = ttl c"
proof -
  obtain as where ok: "exact_ok c as" and v: "view c as = xs" and m: "0 < maxEntries c" "c_size c \<le> maxEntries c"
    using assms by (auto simp: represents_def)
  let ?e = "stamped now e" and ?x = "now + ttl c" and ?n = "nat (maxEntries c)"
  have "represents (snd (insert_entry c now k e)) (lru_put ?n (ttl c) now (key_id k) ?e xs)
      \<and> fst (insert_entry c now k e) = length (AList.delete (key_id k) xs) + 1 - ?n
      \<and> maxEntries (snd (insert_entry c now k e)) = maxEntries c \<and> ttl (snd (insert_entry c now k e)) = ttl c"
  proof (cases "find_node c (key_Tenant k) (body_key k)")
    case None
    then have "key_id k \<notin> fst ` set xs"
      using find_view [OF exact_ok_D(2,3) [OF ok], of "key_Tenant k" "body_key k"] v
      by (simp add: key_id_def map_of_eq_None_iff)
    then have del: "AList.delete (key_id k) xs = xs" by (rule delete_absent)
    define c3 where "c3 = pushFront (fresh c) (with_node (key_Tenant k) (body_key k) ?e ?x c)"
    note new = with_node_ok [OF ok None, of ?e ?x, folded c3_def]
    have v3: "view (c3\<lparr>c_size := c_size c3 + 1\<rparr>) (fresh c # as) = (key_id k, (?e, ?x)) # xs"
      unfolding view_resize new(2) by (simp add: v key_id_def)
    have ev: "insert_entry c now k e = evict (c3\<lparr>c_size := c_size c3 + 1\<rparr>)"
      using None by (simp add: insert_entry_cases c3_def Let_def)
    have len: "length as = length xs" using v by (auto simp: view_def)
    have m3: "maxEntries (c3\<lparr>c_size := c_size c3 + 1\<rparr>) = maxEntries c" "ttl (c3\<lparr>c_size := c_size c3 + 1\<rparr>) = ttl c"
      using new(3,4) by simp_all
    from evict_ok [OF new(1)] m m3 have done':
      "fst (insert_entry c now k e) = length (fresh c # as) - ?n"
      "exact_ok (snd (insert_entry c now k e)) (take ?n (fresh c # as))"
      "view (snd (insert_entry c now k e)) (take ?n (fresh c # as)) = take ?n ((key_id k, (?e, ?x)) # xs)"
      "maxEntries (snd (insert_entry c now k e)) = maxEntries c" "ttl (snd (insert_entry c now k e)) = ttl c"
      unfolding ev v3 by (simp_all only: m3)
    moreover have "c_size (snd (insert_entry c now k e)) \<le> maxEntries c"
      using exact_ok_D(4) [OF done'(2)] m by simp
    ultimately show ?thesis
      using m len unfolding represents_def lru_put_def del by auto
  next
    case (Some a)
    then obtain ps qs where as: "as = ps @ a # qs" and i: "node_id (heap c a) = key_id k"
      using find_split [OF ok Some] by (auto simp: key_id_def)
    define r where "r = refill a ?e ?x c"
    note fill = refill_ok [OF ok [unfolded as], of ?e ?x, folded r_def]
    have idr: "node_id (heap r a) = key_id k" using i by (simp add: r_def refill_def node_id_def)
    note touch = exact_ok_touch [OF fill(1)]
    note keep = same_content_view [OF same_content_touch [of r a]]
    have xs: "xs = view c ps @ (key_id k, (node_entry (heap c a), node_expiresAt (heap c a))) # view c qs"
      using v as i by (auto simp: view_def item_def)
    have "AList.delete (key_id k) (view r (ps @ a # qs)) = AList.delete (key_id k) xs"
      unfolding fill(2) xs i by (simp add: delete_append)
    then have vt: "view (pushFront a (unlink a r)) (a # ps @ qs) = (key_id k, (?e, ?x)) # AList.delete (key_id k) xs"
      using touch(2) fill(3) i idr by simp
    have rm: "maxEntries r = maxEntries c" "ttl r = ttl c" by (simp_all add: r_def refill_def)
    have le: "length ps + length qs < ?n" using m exact_ok_D(4) [OF ok] as by simp
    have "length (view (pushFront a (unlink a r)) (a # ps @ qs)) = length ps + length qs + 1" by (simp add: view_def)
    then have len: "length (AList.delete (key_id k) xs) = length ps + length qs" unfolding vt by simp
    have "represents (pushFront a (unlink a r)) ((key_id k, (?e, ?x)) # AList.delete (key_id k) xs)"
      using touch(1) vt exact_ok_D(4) [OF touch(1)] m le unfolding represents_def keep rm by auto
    moreover have "insert_entry c now k e = (0, pushFront a (unlink a r))"
      using Some by (simp add: insert_entry_cases r_def)
    ultimately show ?thesis using len le by (simp add: lru_put_def keep rm)
  qed
  then show "represents (snd (insert_entry c now k e)) (lru_put ?n (ttl c) now (key_id k) ?e xs)"
    "fst (insert_entry c now k e) = length (AList.delete (key_id k) xs) + 1 - ?n"
    "maxEntries (snd (insert_entry c now k e)) = maxEntries c" "ttl (snd (insert_entry c now k e)) = ttl c" by blast+
qed

section \<open>The interface\<close>

datatype cache_op = CGet instant cache_key | CPut instant cache_key cache_entry

fun op_id :: "cache_op \<Rightarrow> answer_id" where
  "op_id (CGet now k) = key_id k"
| "op_id (CPut now k e) = key_id k"

fun op_time :: "cache_op \<Rightarrow> instant" where
  "op_time (CGet now k) = now"
| "op_time (CPut now k e) = now"

fun is_put :: "cache_op \<Rightarrow> bool" where
  "is_put (CPut _ _ _) = True"
| "is_put (CGet _ _) = False"

definition cache_run ::
  "('c \<Rightarrow> instant \<Rightarrow> cache_key \<Rightarrow> cache_entry option \<times> cache_event list \<times> 'c)
    \<Rightarrow> ('c \<Rightarrow> instant \<Rightarrow> cache_key \<Rightarrow> cache_entry option \<Rightarrow> cache_event list \<times> 'c) \<Rightarrow> 'c \<Rightarrow> cache_op list \<Rightarrow> 'c" where
  "cache_run get put = foldl (\<lambda>c p. case p of
       CGet now k \<Rightarrow> snd (snd (get c now k))
     | CPut now k e \<Rightarrow> snd (put c now k (Some e)))"

definition lru_run :: "nat \<Rightarrow> duration \<Rightarrow> answers \<Rightarrow> cache_op list \<Rightarrow> answers" where
  "lru_run limit life = foldl (\<lambda>xs p. case p of
       CGet now k \<Rightarrow> snd (lru_get now (key_id k) xs)
     | CPut now k e \<Rightarrow> lru_put limit life now (key_id k) (stamped now e) xs)"

lemma run_simps [simp]:
  "cache_run get put c [] = c"
  "cache_run get put c (CGet now k # ops) = cache_run get put (snd (snd (get c now k))) ops"
  "cache_run get put c (CPut now k e # ops) = cache_run get put (snd (put c now k (Some e))) ops"
  "cache_run get put c (ops @ ops') = cache_run get put (cache_run get put c ops) ops'"
  "lru_run limit life xs [] = xs"
  "lru_run limit life xs (CGet now k # ops) = lru_run limit life (snd (lru_get now (key_id k) xs)) ops"
  "lru_run limit life xs (CPut now k e # ops) = lru_run limit life (lru_put limit life now (key_id k) (stamped now e) xs) ops"
  "lru_run limit life xs (ops @ ops') = lru_run limit life (lru_run limit life xs ops) ops'"
  by (simp_all add: cache_run_def lru_run_def)

lemma key_id_inject [simp]: "key_id k = key_id k' \<longleftrightarrow> k = k'"
  by (auto simp: key_id_def body_key_def)

text \<open>Facts about the reference cache.\<close>

lemma set_delete: "x \<in> set (AList.delete i xs) \<longleftrightarrow> x \<in> set xs \<and> fst x \<noteq> i"
  by (auto simp: AList.delete_eq)

lemma lru_get_keeps: "x \<in> set (snd (lru_get now i xs)) \<Longrightarrow> x \<in> set xs"
  by (auto simp: lru_get_def set_delete dest: map_of_SomeD split: option.splits if_splits)

lemma lru_put_keeps: "x \<in> set (lru_put limit life now i e xs) \<Longrightarrow> x = (i, (e, now + life)) \<or> x \<in> set xs \<and> fst x \<noteq> i"
  by (auto simp: lru_put_def set_delete dest!: in_set_takeD)

text \<open>The put an answer goes back to: the last one under its key.\<close>

definition put_by :: "duration \<Rightarrow> cache_op list \<Rightarrow> answer_id \<Rightarrow> cache_entry \<Rightarrow> instant \<Rightarrow> bool" where
  "put_by life ops i e expiry \<longleftrightarrow> (\<exists>pre now k e0 post. ops = pre @ CPut now k e0 # post \<and> key_id k = i
     \<and> e = stamped now e0 \<and> expiry = now + life \<and> (\<forall>p \<in> set post. is_put p \<longrightarrow> op_id p \<noteq> i))"

lemma put_by_snoc:
  assumes "put_by life ops i e x" "is_put p \<Longrightarrow> op_id p \<noteq> i"
  shows "put_by life (ops @ [p]) i e x"
proof -
  obtain pre now k e0 post where "ops = pre @ CPut now k e0 # post" "key_id k = i" "e = stamped now e0"
    "x = now + life" "\<forall>p \<in> set post. is_put p \<longrightarrow> op_id p \<noteq> i"
    using assms(1) unfolding put_by_def by blast
  with assms(2) show ?thesis unfolding put_by_def
    by (intro exI [of _ pre] exI [of _ now] exI [of _ k] exI [of _ e0] exI [of _ "post @ [p]"]) auto
qed

lemma put_by_last: "put_by life (ops @ [CPut now k e]) (key_id k) (stamped now e) (now + life)"
  unfolding put_by_def by (intro exI [of _ ops] exI [of _ now] exI [of _ k] exI [of _ e] exI [of _ "[]"]) simp

lemma lru_run_put_by: "(i, (e, x)) \<in> set (lru_run limit life [] ops) \<Longrightarrow> put_by life ops i e x"
proof (induction ops rule: rev_induct)
  case (snoc p ops)
  show ?case
  proof (cases p)
    case (CGet now k)
    with snoc have "put_by life ops i e x" by (auto dest: lru_get_keeps)
    then show ?thesis by (rule put_by_snoc) (simp add: CGet)
  next
    case (CPut now k e0)
    with snoc.prems consider "i = key_id k" "e = stamped now e0" "x = now + life"
      | "(i, (e, x)) \<in> set (lru_run limit life [] ops)" "i \<noteq> key_id k"
      by (auto dest!: lru_put_keeps)
    then show ?thesis
    proof cases
      case 1
      with CPut put_by_last show ?thesis by simp
    next
      case 2
      with snoc.IH have "put_by life ops i e x" by blast
      then show ?thesis by (rule put_by_snoc) (use CPut 2 in auto)
    qed
  qed
qed simp

text \<open>Where an answer stands: the answers ahead of it are the ones asked for since.\<close>

definition kept :: "nat \<Rightarrow> answer_id set \<Rightarrow> answer_id \<Rightarrow> cache_entry \<times> instant \<Rightarrow> answers \<Rightarrow> bool" where
  "kept limit since i v xs \<longleftrightarrow> (\<exists>ys zs. xs = ys @ (i, v) # zs \<and> fst ` set ys \<subseteq> since)
     \<and> distinct (map fst xs)"

lemma delete_distinct: "distinct (map fst xs) \<Longrightarrow> distinct (map fst (AList.delete i xs))"
  by (rule AList.distinct_delete)

lemma lru_get_distinct: "distinct (map fst xs) \<Longrightarrow> distinct (map fst (snd (lru_get now i xs)))"
  by (auto simp: lru_get_def delete_distinct set_delete split: option.split)

lemma lru_put_distinct: "distinct (map fst xs) \<Longrightarrow> distinct (map fst (lru_put limit life now i e xs))"
  by (auto simp: lru_put_def delete_distinct set_delete simp flip: take_map intro!: distinct_take)

lemma kept_mono: "kept limit S i v xs \<Longrightarrow> S \<subseteq> T \<Longrightarrow> kept limit T i v xs"
  unfolding kept_def by blast

lemma delete_around:
  assumes "j \<noteq> i"
  shows "AList.delete j (ys @ (i, v) # zs) = AList.delete j ys @ (i, v) # AList.delete j zs"
  using assms by (simp add: delete_append)

lemma lru_get_cases:
  obtains "snd (lru_get now j xs) = xs" | "snd (lru_get now j xs) = AList.delete j xs"
    | w where "snd (lru_get now j xs) = (j, w) # AList.delete j xs"
proof -
  have "snd (lru_get now j xs) = xs \<or> snd (lru_get now j xs) = AList.delete j xs
      \<or> (\<exists>w. snd (lru_get now j xs) = (j, w) # AList.delete j xs)"
    by (auto simp: lru_get_def split: option.split)
  with that show thesis by blast
qed

lemma take_through: "length ys < n \<Longrightarrow> take n (ys @ a # zs) = ys @ a # take (n - length ys - 1) zs"
  by (cases "n - length ys") auto

lemma kept_get_other:
  assumes "kept limit S i v xs" "j \<noteq> i"
  shows "kept limit (insert j S) i v (snd (lru_get now j xs))"
proof -
  obtain ys zs where xs: "xs = ys @ (i, v) # zs" and S: "fst ` set ys \<subseteq> S" and d: "distinct (map fst xs)"
    using assms(1) by (auto simp: kept_def)
  have D: "AList.delete j xs = AList.delete j ys @ (i, v) # AList.delete j zs"
    unfolding xs by (rule delete_around [OF assms(2)])
  have sub: "fst ` set (AList.delete j ys) \<subseteq> insert j S" using S by (force simp: set_delete)
  have "\<exists>ys zs. snd (lru_get now j xs) = ys @ (i, v) # zs \<and> fst ` set ys \<subseteq> insert j S"
  proof (cases rule: lru_get_cases [of now j xs])
    case 1
    with xs S show ?thesis by blast
  next
    case 2
    with D sub show ?thesis by metis
  next
    case (3 w)
    with D sub show ?thesis by (intro exI [of _ "(j, w) # AList.delete j ys"] exI [of _ "AList.delete j zs"]) auto
  qed
  with lru_get_distinct [OF d] show ?thesis by (simp add: kept_def)
qed

lemma kept_get_self:
  assumes "kept limit S i (e, x) xs" "now < x"
  shows "kept limit S i (e, x) (snd (lru_get now i xs)) \<and> fst (lru_get now i xs) = Some e"
proof -
  have "map_of xs i = Some (e, x)" "distinct (map fst xs)" using assms(1) by (auto simp: kept_def)
  with assms(2) have "lru_get now i xs = (Some e, [] @ (i, (e, x)) # AList.delete i xs)" by (simp add: lru_get_def)
  with lru_get_distinct [OF \<open>distinct (map fst xs)\<close>, of now i] show ?thesis unfolding kept_def by force
qed

lemma kept_put_other:
  assumes "kept limit S i v xs" "j \<noteq> i" "finite S" "i \<notin> S" "card (insert j S) < limit"
  shows "kept limit (insert j S) i v (lru_put limit life now j e xs)"
proof -
  obtain ys zs where xs: "xs = ys @ (i, v) # zs" and S: "fst ` set ys \<subseteq> S" and d: "distinct (map fst xs)"
    using assms(1) by (auto simp: kept_def)
  let ?ys = "(j, (e, now + life)) # AList.delete j ys"
  have D: "AList.delete j xs = AList.delete j ys @ (i, v) # AList.delete j zs"
    unfolding xs by (rule delete_around [OF assms(2)])
  have sub: "fst ` set ?ys \<subseteq> insert j S" using S by (force simp: set_delete)
  have "distinct (map fst ?ys)" using d xs delete_distinct [of ys j] by (auto simp: set_delete)
  then have "length ?ys = card (fst ` set ?ys)" using distinct_card [of "map fst ?ys"] by simp
  also have "\<dots> \<le> card (insert j S)" using sub assms(3) by (intro card_mono) auto
  finally have "length ?ys < limit" using assms(5) by simp
  then have "lru_put limit life now j e xs = ?ys @ (i, v) # take (limit - length ?ys - 1) (AList.delete j zs)"
    unfolding lru_put_def D using take_through [of ?ys limit] by simp
  with sub lru_put_distinct [OF d, of limit life now j e] show ?thesis unfolding kept_def by blast
qed

lemma kept_run:
  assumes "kept limit {} i (e, x) xs" "\<And>p. p \<in> set ops \<Longrightarrow> op_time p < x"
    and "\<And>p. p \<in> set ops \<Longrightarrow> is_put p \<Longrightarrow> op_id p \<noteq> i" "card (op_id ` set ops - {i}) < limit"
  shows "kept limit (op_id ` set ops - {i}) i (e, x) (lru_run limit life xs ops)"
  using assms(2-4)
proof (induction ops rule: rev_induct)
  case Nil
  with assms(1) show ?case by simp
next
  case (snoc p ops)
  let ?S = "op_id ` set ops - {i}"
  have sub: "?S \<subseteq> op_id ` set (ops @ [p]) - {i}" and fin: "finite (op_id ` set (ops @ [p]) - {i})" by auto
  then have "card ?S < limit" using snoc.prems(3) card_mono [OF fin sub] by linarith
  with snoc have IH: "kept limit ?S i (e, x) (lru_run limit life xs ops)" by simp
  show ?case
  proof (cases "op_id p = i")
    case True
    have "op_time p < x" "\<not> is_put p" using snoc.prems(1) [of p] snoc.prems(2) [of p] True by auto
    with True obtain now k where p: "p = CGet now k" "key_id k = i" "now < x" by (cases p) auto
    with kept_get_self [OF IH, of now] have "kept limit ?S i (e, x) (lru_run limit life xs (ops @ [p]))" by simp
    then show ?thesis by (rule kept_mono) (rule sub)
  next
    case False
    then have S: "op_id ` set (ops @ [p]) - {i} = insert (op_id p) ?S" by auto
    show ?thesis
    proof (cases p)
      case (CGet now k)
      with kept_get_other [OF IH False, of now] show ?thesis unfolding S by simp
    next
      case (CPut now k e')
      with kept_put_other [OF IH False _ _ snoc.prems(3) [unfolded S]] show ?thesis unfolding S by simp
    qed
  qed
qed

lemma kept_put: "0 < limit \<Longrightarrow> distinct (map fst xs) \<Longrightarrow> kept limit {} i (e, now + life) (lru_put limit life now i e xs)"
  using lru_put_distinct [of xs limit life now i e] unfolding kept_def lru_put_def by (cases limit) auto

text \<open>What a cache promises its callers: it behaves as the reference list of a given length and lifetime.\<close>

locale answer_cache =
  fixes get :: "'c \<Rightarrow> instant \<Rightarrow> cache_key \<Rightarrow> cache_entry option \<times> cache_event list \<times> 'c"
    and put :: "'c \<Rightarrow> instant \<Rightarrow> cache_key \<Rightarrow> cache_entry option \<Rightarrow> cache_event list \<times> 'c"
    and rep :: "'c \<Rightarrow> answers \<Rightarrow> bool"
    and limit :: "'c \<Rightarrow> nat" and life :: "'c \<Rightarrow> duration"
  assumes get_rep: "rep c xs \<Longrightarrow> fst (get c now k) = fst (lru_get now (key_id k) xs)
        \<and> rep (snd (snd (get c now k))) (snd (lru_get now (key_id k) xs))"
    and put_rep: "rep c xs \<Longrightarrow>
        rep (snd (put c now k (Some e))) (lru_put (limit c) (life c) now (key_id k) (stamped now e) xs)"
    and bounds: "rep c xs \<Longrightarrow> length xs \<le> limit c \<and> 0 < limit c \<and> distinct (map fst xs)"
    and fixed: "rep c xs \<Longrightarrow> limit (snd (snd (get c now k))) = limit c \<and> life (snd (snd (get c now k))) = life c
        \<and> limit (snd (put c now k (Some e))) = limit c \<and> life (snd (put c now k (Some e))) = life c"
begin

lemma run_rep:
  assumes "rep c xs"
  shows "rep (cache_run get put c ops) (lru_run (limit c) (life c) xs ops)
       \<and> limit (cache_run get put c ops) = limit c \<and> life (cache_run get put c ops) = life c"
  using assms
proof (induction ops arbitrary: c xs)
  case (Cons p ops)
  show ?case
  proof (cases p)
    case (CGet now k)
    with Cons.IH [OF get_rep [OF Cons.prems, THEN conjunct2], of now k] fixed [OF Cons.prems] show ?thesis by simp
  next
    case (CPut now k e)
    with Cons.IH [OF put_rep [OF Cons.prems], of now k e] fixed [OF Cons.prems] show ?thesis by simp
  qed
qed simp

lemma hit_was_put:
  assumes "rep c []" "fst (get (cache_run get put c ops) now k) = Some e"
  shows "\<exists>t e0 pre post. ops = pre @ CPut t k e0 # post \<and> e = stamped t e0 \<and> now < t + life c
       \<and> (\<forall>p \<in> set post. is_put p \<longrightarrow> op_id p \<noteq> key_id k)"
proof -
  let ?xs = "lru_run (limit c) (life c) [] ops"
  have "fst (lru_get now (key_id k) ?xs) = Some e"
    using get_rep run_rep [OF assms(1)] assms(2) by metis
  then obtain x where "map_of ?xs (key_id k) = Some (e, x)" "now < x"
    by (auto simp: lru_get_def split: option.splits if_splits)
  then have "put_by (life c) ops (key_id k) e x" "now < x" by (auto dest: map_of_SomeD lru_run_put_by)
  then show ?thesis unfolding put_by_def key_id_inject by blast
qed

lemma put_is_kept:
  assumes "rep c []" "now < t + life c" "\<And>p. p \<in> set post \<Longrightarrow> op_time p < t + life c"
    and "\<And>p. p \<in> set post \<Longrightarrow> is_put p \<Longrightarrow> op_id p \<noteq> key_id k" "card (op_id ` set post - {key_id k}) < limit c"
  shows "fst (get (cache_run get put c (pre @ CPut t k e # post)) now k) = Some (stamped t e)"
proof -
  let ?xs = "lru_run (limit c) (life c) [] pre" and ?i = "key_id k"
  let ?ys = "lru_put (limit c) (life c) t ?i (stamped t e) ?xs"
  have r: "rep (cache_run get put c pre) ?xs" using run_rep [OF assms(1)] by simp
  have b: "0 < limit c" "distinct (map fst ?xs)"
    using bounds [OF r] bounds [OF assms(1)] by auto
  from kept_run [OF kept_put [OF b], OF assms(3-5)]
  have k: "kept (limit c) (op_id ` set post - {?i}) ?i (stamped t e, t + life c) (lru_run (limit c) (life c) ?ys post)" by simp
  have "rep (cache_run get put c (pre @ CPut t k e # post)) (lru_run (limit c) (life c) ?ys post)"
    using run_rep [OF assms(1), of "pre @ CPut t k e # post"] by simp
  with get_rep kept_get_self [OF k assms(2)] show ?thesis by metis
qed

end

lemma represents_new: "represents (NewExact limit life) []"
  unfolding represents_def
  by (auto simp: NewExact_def exact_ok_def linked_def indexed_def find_node_def view_def DefaultExactMaxEntries_def
      intro!: exI [of _ "[]"])

lemma represents_Len: "represents c xs \<Longrightarrow> Len c = int (length xs)"
  by (auto simp: represents_def view_def exact_ok_def Len_def)

lemma Get_lookup: "fst (Get c now k) = fst (lookup c now k)" "snd (snd (Get c now k)) = snd (lookup c now k)"
  by (simp_all add: Get_def split: prod.split option.split)

lemma Put_insert: "snd (Put c now k (Some e)) = snd (insert_entry c now k e)"
  by (simp add: Put_def split: prod.split)

interpretation exact_tier: answer_cache Get Put represents "\<lambda>c. nat (maxEntries c)" ttl
proof unfold_locales
  fix c xs now k e
  assume r: "represents c xs"
  show "fst (Get c now k) = fst (lru_get now (key_id k) xs)
      \<and> represents (snd (snd (Get c now k))) (snd (lru_get now (key_id k) xs))"
    using lookup_represents [OF r] by (simp add: Get_lookup)
  show "represents (snd (Put c now k (Some e))) (lru_put (nat (maxEntries c)) (ttl c) now (key_id k) (stamped now e) xs)"
    using insert_represents(1) [OF r] by (simp add: Put_insert)
  show "nat (maxEntries (snd (snd (Get c now k)))) = nat (maxEntries c) \<and> ttl (snd (snd (Get c now k))) = ttl c
      \<and> nat (maxEntries (snd (Put c now k (Some e)))) = nat (maxEntries c) \<and> ttl (snd (Put c now k (Some e))) = ttl c"
    using lookup_represents(3,4) [OF r] insert_represents(3,4) [OF r] by (simp add: Get_lookup Put_insert)
  obtain as where ok: "exact_ok c as" and v: "view c as = xs" and m: "0 < maxEntries c" "c_size c \<le> maxEntries c"
    using r by (auto simp: represents_def)
  have "length xs = length as" using v by (auto simp: view_def)
  then show "length xs \<le> nat (maxEntries c) \<and> 0 < nat (maxEntries c) \<and> distinct (map fst xs)"
    using m exact_ok_D(4) [OF ok] view_distinct [OF exact_ok_D(2,3) [OF ok]] v by simp
qed

section \<open>Properties\<close>

abbreviation exact_run :: "exact \<Rightarrow> cache_op list \<Rightarrow> exact" where
  "exact_run \<equiv> cache_run Get Put"

text \<open>(C7) The linked cache refines the reference. Over every sequence of operations the pointer structure
  stands for the list that a plain least recently used cache of the same size and lifetime holds: each query
  answers as on the list, the number of entries is the list's length, and it never exceeds the configured bound.\<close>

theorem exact_cache_is_lru:
  "let start = NewExact limit life; n = nat (maxEntries start); xs = lru_run n (ttl start) [] ops in
     represents (exact_run start ops) xs
     \<and> fst (Get (exact_run start ops) now k) = fst (lru_get now (key_id k) xs)
     \<and> Len (exact_run start ops) = int (length xs) \<and> Len (exact_run start ops) \<le> int n"
proof -
  let ?c = "exact_run (NewExact limit life) ops" and ?n = "nat (maxEntries (NewExact limit life))"
  let ?xs = "lru_run ?n (ttl (NewExact limit life)) [] ops"
  have r: "represents ?c ?xs" and n: "nat (maxEntries ?c) = ?n"
    using exact_tier.run_rep [OF represents_new, of limit life ops] by simp_all
  have "Len ?c = int (length ?xs)"
    by (rule represents_Len [OF r])
  with r n exact_tier.get_rep [OF r] exact_tier.bounds [OF r] show ?thesis by (auto simp: Let_def)
qed

text \<open>No stale and no foreign answer. A hit returns exactly the answer of the last store under the very same
  tenant, model and request hash, made less than one lifetime ago; no other tenant's store, and no earlier store
  under the key, can surface.\<close>

theorem hit_is_the_latest_store:
  assumes "fst (Get (exact_run (NewExact limit life) ops) now k) = Some e"
  shows "\<exists>t e0 pre post. ops = pre @ CPut t k e0 # post \<and> e = stamped t e0
       \<and> now < t + ttl (NewExact limit life) \<and> (\<forall>p \<in> set post. is_put p \<longrightarrow> op_id p \<noteq> key_id k)"
  using exact_tier.hit_was_put [OF represents_new assms] by simp

text \<open>(C32) A stored answer is found again. For its whole lifetime, and as long as fewer other requests than the
  cache holds were looked up or stored since, a lookup under the key returns the stored answer.\<close>

theorem stored_answer_is_found:
  assumes "now < t + ttl (NewExact limit life)" "\<And>p. p \<in> set post \<Longrightarrow> op_time p < t + ttl (NewExact limit life)"
    and "\<And>p. p \<in> set post \<Longrightarrow> is_put p \<Longrightarrow> op_id p \<noteq> key_id k"
    and "int (card (op_id ` set post - {key_id k})) < maxEntries (NewExact limit life)"
  shows "fst (Get (exact_run (NewExact limit life) (pre @ CPut t k e # post)) now k) = Some (stamped t e)"
  using assms(4) by (intro exact_tier.put_is_kept [OF represents_new assms(1-3)]) auto

section \<open>Witnesses\<close>

definition demo_key :: "string \<Rightarrow> cache_key" where
  "demo_key t = \<lparr>key_Tenant = t, key_Model = ''m'', key_Hash = ''h''\<rparr>"

definition demo_answer :: cache_entry where
  "demo_answer = (node_entry no_node)\<lparr>ce_Body := ''hello''\<rparr>"

lemma stored_answer_is_found_witness:
  "fst (Get (exact_run (NewExact 2 10) ([] @ CPut 1 (demo_key ''a'') demo_answer # [CPut 2 (demo_key ''b'') demo_answer]))
     3 (demo_key ''a'')) = Some (stamped 1 demo_answer)"
  by (rule stored_answer_is_found) (auto simp: NewExact_def demo_key_def card_insert_if)

lemma hit_is_the_latest_store_witness:
  "\<exists>t e0 pre post. [CPut 1 (demo_key ''a'') demo_answer] = pre @ CPut t (demo_key ''a'') e0 # post
     \<and> stamped 1 demo_answer = stamped t e0 \<and> 3 < t + ttl (NewExact 2 10)
     \<and> (\<forall>p \<in> set post. is_put p \<longrightarrow> op_id p \<noteq> key_id (demo_key ''a''))"
proof (rule hit_is_the_latest_store)
  show "fst (Get (exact_run (NewExact 2 10) [CPut 1 (demo_key ''a'') demo_answer]) 3 (demo_key ''a''))
      = Some (stamped 1 demo_answer)"
    by code_simp
qed

end
