(* ===== verification/Cache_Lookup.thy ===== *)
theory Cache_Lookup
  imports Cache_Exact JSON_Roundtrip SHA256
begin

text \<open>
  The call the request path makes into caching (\<^verbatim>\<open>src/internal/cache\<close>): which requests may be cached at all
  (\<^verbatim>\<open>policy.go\<close>), the key of a request (\<^verbatim>\<open>key.go\<close>), the text a semantic comparison uses (\<^verbatim>\<open>messages.go\<close>), the
  semantic store (\<^verbatim>\<open>semantic.go\<close>) and the two tiers behind one lookup (\<^verbatim>\<open>lookup.go\<close>). The embedder reaches a
  model and is an argument.
\<close>

section \<open>Policy\<close>

datatype ineligible_reason = ReasonEligible | ReasonTemperature | ReasonToolUse | ReasonSeeded | ReasonStreamOptions
  | ReasonUnparsable

record eligibility =
  Cacheable :: bool
  el_Reason :: ineligible_reason

record request_shape =
  sh_Temperature :: "float64 option"
  sh_TopP :: "float64 option"
  sh_N :: "goint option"
  sh_Seed :: "goint option"
  sh_Tools :: bytes
  sh_ToolChoice :: bytes
  sh_Functions :: bytes
  sh_FunctionCall :: bytes
  sh_Logprobs :: "bool option"

definition decode_shape :: "bytes \<Rightarrow> request_shape option" where
  "decode_shape raw = (case json_parse raw of
       None \<Rightarrow> None
     | Some v \<Rightarrow> (case as_object v of
         None \<Rightarrow> None
       | Some ms \<Rightarrow>
           (case (decode_pointer as_float (field_values ''temperature'' ms), decode_pointer as_float (field_values ''top_p'' ms),
                  decode_pointer as_int (field_values ''n'' ms), decode_pointer as_int (field_values ''seed'' ms),
                  decode_pointer as_bool (field_values ''logprobs'' ms)) of
              (Some temp, Some topP, Some n, Some seed, Some logprobs) \<Rightarrow>
                Some \<lparr>sh_Temperature = temp, sh_TopP = topP, sh_N = n, sh_Seed = seed,
                      sh_Tools = raw_field ''tools'' raw, sh_ToolChoice = raw_field ''tool_choice'' raw,
                      sh_Functions = raw_field ''functions'' raw, sh_FunctionCall = raw_field ''function_call'' raw,
                      sh_Logprobs = logprobs\<rparr>
            | _ \<Rightarrow> None)))"

definition hasContent :: "bytes \<Rightarrow> bool" where
  "hasContent raw = (TrimSpace raw \<notin> {[], ''null'', ''[]'', ''{}''})"

definition Eligible :: "bytes \<Rightarrow> float64 \<Rightarrow> eligibility" where
  "Eligible raw maxTemperature = (case decode_shape raw of
       None \<Rightarrow> \<lparr>Cacheable = False, el_Reason = ReasonUnparsable\<rparr>
     | Some shape \<Rightarrow>
         if hasContent (sh_Tools shape) \<or> hasContent (sh_ToolChoice shape) \<or>
            hasContent (sh_Functions shape) \<or> hasContent (sh_FunctionCall shape)
         then \<lparr>Cacheable = False, el_Reason = ReasonToolUse\<rparr>
         else if sh_Seed shape \<noteq> None then \<lparr>Cacheable = False, el_Reason = ReasonSeeded\<rparr>
         else if sh_Logprobs shape = Some True then \<lparr>Cacheable = False, el_Reason = ReasonStreamOptions\<rparr>
         else if (case sh_N shape of Some n \<Rightarrow> 1 < n | None \<Rightarrow> False)
         then \<lparr>Cacheable = False, el_Reason = ReasonStreamOptions\<rparr>
         else if (case sh_Temperature shape of None \<Rightarrow> True | Some t \<Rightarrow> maxTemperature < t)
         then \<lparr>Cacheable = False, el_Reason = ReasonTemperature\<rparr>
         else \<lparr>Cacheable = True, el_Reason = ReasonEligible\<rparr>)"

section \<open>Keys\<close>

definition hashScheme :: string where "hashScheme = ''penstock/cache/exact/v1''"

definition ErrNotJSONObject :: err where "ErrNotJSONObject = OtherErr ''cache: request body is not a JSON object''"
definition ErrTrailingData :: err where
  "ErrTrailingData = OtherErr ''cache: request body has trailing data after the JSON object''"

definition unhashedFields :: "string list" where
  "unhashedFields = [''stream'', ''stream_options'', ''user'', ''metadata'']"

text \<open>\<^verbatim>\<open>canonicalize\<close> in two halves: the fields that make up the question, and their one byte form.\<close>

definition question :: "bytes \<Rightarrow> err + (string \<times> json) list" where
  "question raw = (case parse_value (length raw + 1) 0 raw of
       None \<Rightarrow> Inl (WrapErr ''cache: decode request body: '' (OtherErr ''json''))
     | Some (v, r) \<Rightarrow>
         if skip_ws r \<noteq> [] then Inl ErrTrailingData
         else (case any_of v of
             JObj ms \<Rightarrow> Inr (fold map_delete unhashedFields ms)
           | _ \<Rightarrow> Inl ErrNotJSONObject))"

definition canonicalize :: "bytes \<Rightarrow> err + bytes" where
  "canonicalize raw = (case question raw of Inl e \<Rightarrow> Inl e | Inr ms \<Rightarrow> Inr (encode (JObj ms)))"

definition key_preimage :: "string \<Rightarrow> bytes \<Rightarrow> bytes" where
  "key_preimage model canonical = hashScheme @ Itoa (int (length model)) @ CHR 0x00 # model @ canonical"

definition BuildKey :: "string \<Rightarrow> string \<Rightarrow> bytes \<Rightarrow> err + cache_key" where
  "BuildKey tenant model raw = (case canonicalize raw of
       Inl e \<Rightarrow> Inl e
     | Inr canonical \<Rightarrow>
         Inr \<lparr>key_Tenant = tenant, key_Model = model, key_Hash = hex_EncodeToString (Sum256 (key_preimage model canonical))\<rparr>)"

section \<open>Conversation text\<close>

record cache_message =
  cm_role :: string
  cm_text :: string

text \<open>\<^verbatim>\<open>contentText\<close> on a content field that is absent or a JSON value.\<close>

definition contentText :: "json option \<Rightarrow> string" where
  "contentText raw = (case raw of
       None \<Rightarrow> []
     | Some (JStr s) \<Rightarrow> s
     | Some (JArr vs) \<Rightarrow>
         (case those (map decode_part vs) of
            None \<Rightarrow> []
          | Some parts \<Rightarrow> foldl (\<lambda>joined (ty, tx). if ty = ''text'' then joined @ tx else joined) [] parts)
     | Some _ \<Rightarrow> [])"

definition decode_turn :: "json \<Rightarrow> (string \<times> json option) option" where
  "decode_turn v = (case as_object v of
       None \<Rightarrow> None
     | Some ms \<Rightarrow>
         map_option (\<lambda>role. (role, case field_values ''content'' ms of [] \<Rightarrow> None | vs \<Rightarrow> Some (last vs)))
           (decode_field as_string [] (field_values ''role'' ms)))"

definition decode_turns :: "json \<Rightarrow> (string \<times> json option) list option" where
  "decode_turns v = (case as_array v of None \<Rightarrow> None | Some vs \<Rightarrow> those (map decode_turn vs))"

definition decodeMessages :: "bytes \<Rightarrow> cache_message list option" where
  "decodeMessages raw = (case json_parse raw of
       None \<Rightarrow> None
     | Some v \<Rightarrow> (case as_object v of
         None \<Rightarrow> None
       | Some ms \<Rightarrow>
           (case decode_field decode_turns [] (field_values ''messages'' ms) of
              None \<Rightarrow> None
            | Some [] \<Rightarrow> None
            | Some turns \<Rightarrow> Some (map (\<lambda>(role, content). \<lparr>cm_role = role, cm_text = contentText content\<rparr>) turns))))"

definition PromptText :: "bytes \<Rightarrow> string" where
  "PromptText raw = (case decodeMessages raw of
       None \<Rightarrow> []
     | Some msgs \<Rightarrow>
         foldl (\<lambda>sb m. (if sb = [] then sb else sb @ [CHR 0x0A]) @ cm_role m @ '':'' @ cm_text m) [] msgs)"

section \<open>The semantic store\<close>

type_synonym vector = "rat list"

definition DefaultSimilarityThreshold :: float64 where "DefaultSimilarityThreshold = rnd64 (95 / 100)"
definition DefaultMaxPerTenant :: nat where "DefaultMaxPerTenant = 1024"

record semantic_record =
  sr_vector :: vector
  sr_entry :: cache_entry
  sr_storedAt :: instant

record semantic_store =
  threshold :: float64
  maxPerTenant :: nat
  sem_ttl :: duration
  dims :: nat
  sem_tenants :: "string \<Rightarrow> semantic_record list"

definition NewSemantic :: "float64 \<Rightarrow> int \<Rightarrow> duration \<Rightarrow> semantic_store" where
  "NewSemantic thr bound life =
     \<lparr>threshold = (if thr \<le> 0 then DefaultSimilarityThreshold else thr),
      maxPerTenant = (if bound \<le> 0 then DefaultMaxPerTenant else nat bound), sem_ttl = life, dims = 0,
      sem_tenants = (\<lambda>_. [])\<rparr>"

definition expired :: "instant \<Rightarrow> duration \<Rightarrow> instant \<Rightarrow> bool" where
  "expired storedAt life now \<longleftrightarrow> 0 < life \<and> life \<le> time_Sub now storedAt"

text \<open>\<^verbatim>\<open>math.Sqrt\<close>, correctly rounded: the integer square root of the scaled argument has more bits than a
  float, and a half stands for what was cut off when it was not exact.\<close>

fun isqrt :: "nat \<Rightarrow> nat" where
  "isqrt n = (if n = 0 then 0 else let r = 2 * isqrt (n div 4) in if (r + 1) * (r + 1) \<le> n then r + 1 else r)"

declare isqrt.simps [simp del]

definition fsqrt :: "float64 \<Rightarrow> float64" where
  "fsqrt x = (if x \<le> 0 then 0
     else let k = 64 - expo2 x div 2; y = x * 2 powi (2 * k); n = nat \<lfloor>y\<rfloor>; r = isqrt n
       in rnd64 ((of_nat r + (if of_nat (r * r) = y then 0 else 1 / 2)) / 2 powi k))"

text \<open>Vectors hold float32 values, whose products are exact in float64. A quotient by zero is an infinity or not a
  number and is answered as the switch at the end does.\<close>

definition dot_product :: "vector \<Rightarrow> vector \<Rightarrow> float64" where
  "dot_product a b = foldl (\<lambda>acc (x, y). fadd acc (fmul x y)) 0 (zip a b)"

definition cosineSimilarity :: "vector \<Rightarrow> vector \<Rightarrow> float64" where
  "cosineSimilarity a b =
     (if length a \<noteq> length b \<or> length a = 0 then 0
      else let dot = dot_product a b; magA = dot_product a a; magB = dot_product b b in
        if magA = 0 \<or> magB = 0 then 0
        else let d = fsqrt (fmul magA magB) in
          if d = 0 then (if 0 < dot then 1 else if dot < 0 then - 1 else 0)
          else let sim = fdiv dot d in if 1 < sim then 1 else if sim < - 1 then - 1 else sim)"

definition scanTenant ::
  "semantic_record list \<Rightarrow> vector \<Rightarrow> float64 \<Rightarrow> duration \<Rightarrow> instant \<Rightarrow> cache_entry option \<times> float64" where
  "scanTenant records query thr life now = foldl (\<lambda>(best, bestScore) r.
       if expired (sr_storedAt r) life now then (best, bestScore)
       else let score = cosineSimilarity query (sr_vector r) in
         if score < thr then (best, bestScore)
         else if best = None \<or> bestScore < score then (Some (sr_entry r), score) else (best, bestScore))
     (None, 0) records"

definition Nearest ::
  "semantic_store \<Rightarrow> instant \<Rightarrow> string \<Rightarrow> vector \<Rightarrow> (cache_entry \<times> float64) option \<times> cache_event list" where
  "Nearest s now tenant embedding =
     (if embedding = [] then (None, [])
      else if length embedding \<noteq> dims s then (None, [])
      else case scanTenant (sem_tenants s tenant) embedding (threshold s) (sem_ttl s) now of
        (None, _) \<Rightarrow> (None, [])
      | (Some e, score) \<Rightarrow> (Some (e, score), [EventSemanticHit]))"

definition dropExpired :: "semantic_store \<Rightarrow> semantic_record list \<Rightarrow> instant \<Rightarrow> semantic_record list \<times> nat" where
  "dropExpired s records now =
     (if sem_ttl s \<le> 0 \<or> records = [] then (records, 0)
      else let cut = length (takeWhile (\<lambda>r. expired (sr_storedAt r) (sem_ttl s) now) records)
        in (drop cut records, cut))"

definition Add :: "semantic_store \<Rightarrow> instant \<Rightarrow> string \<Rightarrow> vector \<Rightarrow> cache_entry option \<Rightarrow> cache_event list \<times> semantic_store" where
  "Add s now tenant embedding e = (case e of
       None \<Rightarrow> ([], s)
     | Some entry \<Rightarrow>
         if embedding = [] then ([], s)
         else let s1 = (if dims s = 0 then s\<lparr>dims := length embedding\<rparr> else s) in
           if length embedding \<noteq> dims s1 then ([], s1)
           else (case dropExpired s1 (sem_tenants s1 tenant) now of (live, removed) \<Rightarrow>
             let records = live @ [\<lparr>sr_vector = embedding, sr_entry = entry, sr_storedAt = now\<rparr>];
                 excess = length records - maxPerTenant s1
             in (replicate (removed + excess) EventEvicted,
                 s1\<lparr>sem_tenants := (sem_tenants s1)(tenant := drop excess records)\<rparr>)))"

section \<open>The lookup\<close>

type_synonym embedder = "string \<Rightarrow> err + vector list"

record lookup_state =
  lk_exact :: "exact option"
  lk_semantic :: "semantic_store option"
  lk_maxTemp :: float64

definition Enabled :: "lookup_state option \<Rightarrow> bool" where
  "Enabled l = (case l of None \<Rightarrow> False | Some s \<Rightarrow> lk_exact s \<noteq> None)"

record lookup_result =
  res_Entry :: "cache_entry option"
  res_Semantic :: bool
  res_Similarity :: float64
  res_Key :: cache_key
  res_Eligible :: bool

definition no_key :: cache_key where "no_key = \<lparr>key_Tenant = [], key_Model = [], key_Hash = []\<rparr>"

definition no_result :: lookup_result where
  "no_result = \<lparr>res_Entry = None, res_Semantic = False, res_Similarity = 0, res_Key = no_key, res_Eligible = False\<rparr>"

definition embed_text :: "embedder \<Rightarrow> string \<Rightarrow> vector option" where
  "embed_text em text = (case em text of Inr (v # _) \<Rightarrow> Some v | _ \<Rightarrow> None)"

definition nearest ::
  "lookup_state \<Rightarrow> embedder option \<Rightarrow> instant \<Rightarrow> string \<Rightarrow> bytes \<Rightarrow> (cache_entry \<times> float64) option \<times> cache_event list" where
  "nearest l emb now tenant raw = (case (lk_semantic l, emb) of
       (Some s, Some em) \<Rightarrow>
         (let text = PromptText raw in
          if text = [] then (None, [])
          else case embed_text em text of
            None \<Rightarrow> (None, [EventEmbedFailed])
          | Some v \<Rightarrow> Nearest s now tenant v)
     | _ \<Rightarrow> (None, []))"

definition lookup_Get ::
  "lookup_state option \<Rightarrow> embedder option \<Rightarrow> instant \<Rightarrow> string \<Rightarrow> string \<Rightarrow> bytes
     \<Rightarrow> lookup_result \<times> cache_event list \<times> lookup_state option" where
  "lookup_Get lo emb now tenant model raw = (case lo of
       None \<Rightarrow> (no_result, [], lo)
     | Some l \<Rightarrow> (case lk_exact l of
         None \<Rightarrow> (no_result, [], lo)
       | Some c \<Rightarrow>
           if \<not> Cacheable (Eligible raw (lk_maxTemp l)) then (no_result, [EventIneligible], lo)
           else case BuildKey tenant model raw of
             Inl e \<Rightarrow> (no_result, [EventIneligible], lo)
           | Inr key \<Rightarrow>
               (let res = no_result\<lparr>res_Key := key, res_Eligible := True\<rparr> in
                case Get c now key of
                  (Some entry, evs, c') \<Rightarrow> (res\<lparr>res_Entry := Some entry\<rparr>, evs, Some (l\<lparr>lk_exact := Some c'\<rparr>))
                | (None, evs, c') \<Rightarrow>
                    (let l' = l\<lparr>lk_exact := Some c'\<rparr> in
                     case nearest l' emb now tenant raw of
                       (Some (entry, sim), evs') \<Rightarrow>
                         (res\<lparr>res_Entry := Some entry, res_Semantic := True, res_Similarity := sim\<rparr>, evs @ evs', Some l')
                     | (None, evs') \<Rightarrow> (res, evs @ evs', Some l')))))"

definition lookup_Put ::
  "lookup_state option \<Rightarrow> embedder option \<Rightarrow> instant \<Rightarrow> lookup_result \<Rightarrow> cache_entry option \<Rightarrow> bytes
     \<Rightarrow> cache_event list \<times> lookup_state option" where
  "lookup_Put lo emb now res entry raw = (case (lo, entry) of
       (Some l, Some e) \<Rightarrow>
         (case lk_exact l of
            None \<Rightarrow> ([], lo)
          | Some c \<Rightarrow>
              if \<not> res_Eligible res then ([], lo)
              else (case Put c now (res_Key res) entry of (evs, c') \<Rightarrow>
                let l' = l\<lparr>lk_exact := Some c'\<rparr> in
                case (lk_semantic l', emb) of
                  (Some s, Some em) \<Rightarrow>
                    (let text = PromptText raw in
                     if text = [] then (evs, Some l')
                     else case embed_text em text of
                       None \<Rightarrow> (evs @ [EventEmbedFailed], Some l')
                     | Some v \<Rightarrow>
                         (case Add s now (key_Tenant (res_Key res)) v entry of
                            (evs', s') \<Rightarrow> (evs @ evs', Some (l'\<lparr>lk_semantic := Some s'\<rparr>))))
                | _ \<Rightarrow> (evs, Some l')))
     | _ \<Rightarrow> ([], lo))"

section \<open>Keys and questions\<close>

lemma FormatUint_no_nul: "CHR 0x00 \<notin> set (FormatUint n)"
proof (induction n rule: FormatUint.induct)
  case (1 n)
  have d: "CHR 0x00 \<noteq> digit_char d" if "d < 10" for d
  proof
    assume "CHR 0x00 = digit_char d"
    then have "of_char (CHR 0x00) = 48 + d" using of_char_digit_char [OF that] by simp
    then show False by simp
  qed
  show ?case
    using d [of n] d [of "n mod 10"] "1.IH" by (subst FormatUint.simps) (auto split: if_splits)
qed

lemma split_at_nul:
  assumes "CHR 0x00 \<notin> set a" "CHR 0x00 \<notin> set b" "a @ CHR 0x00 # x = b @ CHR 0x00 # y"
  shows "a = b \<and> x = y"
proof -
  have "takeWhile (\<lambda>c. c \<noteq> CHR 0x00) (a @ CHR 0x00 # x) = a" "takeWhile (\<lambda>c. c \<noteq> CHR 0x00) (b @ CHR 0x00 # y) = b"
    using assms(1,2) by (auto simp: takeWhile_append2 takeWhile_tail)
  with assms(3) show ?thesis by auto
qed

lemma key_preimage_inject:
  assumes "key_preimage m c = key_preimage m' c'"
  shows "m = m' \<and> c = c'"
proof -
  have "FormatUint (length m) @ CHR 0x00 # m @ c = FormatUint (length m') @ CHR 0x00 # m' @ c'"
    using assms by (simp add: key_preimage_def Itoa_def)
  from split_at_nul [OF FormatUint_no_nul FormatUint_no_nul this] have "length m = length m'" "m @ c = m' @ c'" by simp_all
  then show ?thesis by simp
qed

lemma question_fits:
  assumes "question raw = Inr ms"
  shows "fits max_depth (JObj ms)"
proof -
  obtain v r ms' where p: "parse_value (length raw + 1) 0 raw = Some (v, r)" "any_of v = JObj ms'"
      "ms = fold map_delete unhashedFields ms'"
    using assms by (auto simp: question_def split: option.splits if_splits json.splits)
  have "fits max_depth (any_of v)" using any_fits(1) [OF parse_fits(1) [OF p(1)]] by simp
  with p fits_fold_delete [of "max_depth - 1" ms' unhashedFields] show ?thesis by simp
qed

lemma canonicalize_inject:
  assumes "canonicalize raw = Inr c" "canonicalize raw' = Inr c"
  shows "question raw = question raw'"
proof -
  obtain ms ms' where q: "question raw = Inr ms" "question raw' = Inr ms'" "encode (JObj ms) = c" "encode (JObj ms') = c"
    using assms by (auto simp: canonicalize_def split: sum.splits)
  with encode_inject [OF question_fits question_fits, of raw ms raw' ms'] show ?thesis by simp
qed

text \<open>The one thing asked of the digest: that it tells these two preimages apart.\<close>

definition no_collision :: "string \<Rightarrow> bytes \<Rightarrow> string \<Rightarrow> bytes \<Rightarrow> bool" where
  "no_collision m raw m' raw' = (case (canonicalize raw, canonicalize raw') of
       (Inr c, Inr c') \<Rightarrow> Sum256 (key_preimage m c) = Sum256 (key_preimage m' c') \<longrightarrow> key_preimage m c = key_preimage m' c'
     | _ \<Rightarrow> True)"

lemma BuildKey_same:
  assumes "BuildKey t m raw = Inr k" "BuildKey t' m' raw' = Inr k'" "no_collision m raw m' raw'"
  shows "k = k' \<longleftrightarrow> t = t' \<and> m = m' \<and> question raw = question raw'"
proof -
  obtain c c' where c: "canonicalize raw = Inr c" "canonicalize raw' = Inr c'"
    "k = \<lparr>key_Tenant = t, key_Model = m, key_Hash = hex_EncodeToString (Sum256 (key_preimage m c))\<rparr>"
    "k' = \<lparr>key_Tenant = t', key_Model = m', key_Hash = hex_EncodeToString (Sum256 (key_preimage m' c'))\<rparr>"
    using assms(1,2) by (auto simp: BuildKey_def split: sum.splits)
  show ?thesis
  proof
    assume eq: "k = k'"
    then have "t = t' \<and> m = m' \<and> Sum256 (key_preimage m c) = Sum256 (key_preimage m' c')"
      unfolding c(3,4) by (auto simp: hex_inject)
    then have tm: "t = t'" "m = m'" and "Sum256 (key_preimage m c) = Sum256 (key_preimage m' c')" by blast+
    with c(1,2) assms(3) have "key_preimage m c = key_preimage m' c'" by (simp add: no_collision_def)
    from key_preimage_inject [OF this] have "canonicalize raw' = Inr c" using c(2) by simp
    from canonicalize_inject [OF c(1) this] tm show "t = t' \<and> m = m' \<and> question raw = question raw'" by simp
  next
    assume "t = t' \<and> m = m' \<and> question raw = question raw'"
    moreover from this c have "c = c'" by (simp add: canonicalize_def)
    ultimately show "k = k'" using c by simp
  qed
qed

section \<open>The semantic scan\<close>

definition live :: "semantic_record list \<Rightarrow> duration \<Rightarrow> instant \<Rightarrow> semantic_record set" where
  "live records life now = {r \<in> set records. \<not> expired (sr_storedAt r) life now}"

definition scan_ok :: "semantic_record list \<Rightarrow> vector \<Rightarrow> float64 \<Rightarrow> duration \<Rightarrow> instant \<Rightarrow> cache_entry option \<times> float64 \<Rightarrow> bool" where
  "scan_ok records query thr life now res = (case res of
       (None, _) \<Rightarrow> (\<forall>r \<in> live records life now. cosineSimilarity query (sr_vector r) < thr)
     | (Some e, score) \<Rightarrow> thr \<le> score \<and> (\<exists>r \<in> live records life now. sr_entry r = e \<and> cosineSimilarity query (sr_vector r) = score)
         \<and> (\<forall>r \<in> live records life now. cosineSimilarity query (sr_vector r) \<le> score))"

lemma live_snoc: "live (rs @ [r]) life now = (if expired (sr_storedAt r) life now then live rs life now else insert r (live rs life now))"
  by (auto simp: live_def)

lemma scanTenant_ok: "scan_ok records query thr life now (scanTenant records query thr life now)"
proof (induction records rule: rev_induct)
  case Nil
  then show ?case by (simp add: scanTenant_def scan_ok_def live_def)
next
  case (snoc r rs)
  obtain best score where s: "scanTenant rs query thr life now = (best, score)" by (cases "scanTenant rs query thr life now")
  have step: "scanTenant (rs @ [r]) query thr life now =
      (if expired (sr_storedAt r) life now then (best, score)
       else if cosineSimilarity query (sr_vector r) < thr then (best, score)
       else if best = None \<or> score < cosineSimilarity query (sr_vector r) then (Some (sr_entry r), cosineSimilarity query (sr_vector r))
       else (best, score))"
    using s by (simp add: scanTenant_def Let_def)
  show ?case
    using snoc.IH unfolding step s by (cases best) (fastforce simp: scan_ok_def live_snoc not_less)+
qed

section \<open>Properties\<close>

text \<open>(C20) An exact hit answers the same question. If the lookup serves a stored answer from its exact tier, that
  answer was the last one stored under the key, less than one lifetime ago, and every request the key could
  have been built for came from the same tenant, for the same model, with the same question: equal JSON
  up to key order, white space, repeated keys and the transport fields, at every level of nesting. The one
  hypothesis is that SHA-256 tells the two preimages apart.\<close>

theorem exact_hit_answers_the_same_question:
  assumes "lookup_Get (Some l) emb now tenant model raw = (res, evs, l')" "res_Entry res = Some e" "\<not> res_Semantic res"
    and "lk_exact l = Some (exact_run (NewExact limit life) ops)"
  shows "\<exists>t k e0 pre post. ops = pre @ CPut t k e0 # post \<and> e = stamped t e0 \<and> now < t + ttl (NewExact limit life)
     \<and> (\<forall>p \<in> set post. is_put p \<longrightarrow> op_id p \<noteq> key_id k)
     \<and> (\<forall>tenant' model' raw'. BuildKey tenant' model' raw' = Inr k \<longrightarrow> no_collision model raw model' raw' \<longrightarrow>
          tenant' = tenant \<and> model' = model \<and> question raw' = question raw)"
proof -
  let ?c = "exact_run (NewExact limit life) ops"
  obtain k where k: "BuildKey tenant model raw = Inr k" and hit: "fst (Get ?c now k) = Some e"
  proof -
    have "Cacheable (Eligible raw (lk_maxTemp l))"
      using assms by (auto simp: lookup_Get_def no_result_def split: if_splits)
    moreover obtain k where k: "BuildKey tenant model raw = Inr k"
      using assms(1,2,4) calculation by (cases "BuildKey tenant model raw") (auto simp: lookup_Get_def no_result_def)
    moreover obtain r evs' c' where g: "Get ?c now k = (r, evs', c')" by (metis prod_cases3)
    moreover have "r = Some e"
      using assms calculation by (auto simp: lookup_Get_def no_result_def Let_def split: option.splits prod.splits)
    ultimately show thesis using that by simp
  qed
  from exact_tier.hit_was_put [OF represents_new hit] obtain t e0 pre post where
    "ops = pre @ CPut t k e0 # post" "e = stamped t e0" "now < t + ttl (NewExact limit life)"
    "\<forall>p \<in> set post. is_put p \<longrightarrow> op_id p \<noteq> key_id k" by blast
  moreover have "tenant' = tenant \<and> model' = model \<and> question raw' = question raw"
    if "BuildKey tenant' model' raw' = Inr k" "no_collision model raw model' raw'" for tenant' model' raw'
    using BuildKey_same [OF k that] by auto
  ultimately show ?thesis by blast
qed

text \<open>Two requests share a cache key exactly when they come from one tenant, name one routed model and ask
  the same question; bodies that differ only in key order, white space or transport fields share it, and any
  other difference, nested ones included, keeps them apart.\<close>

theorem same_key_iff_same_question:
  assumes "BuildKey t m raw = Inr k" "BuildKey t' m' raw' = Inr k'" "no_collision m raw m' raw'"
  shows "k = k' \<longleftrightarrow> t = t' \<and> m = m' \<and> question raw = question raw'"
  by (rule BuildKey_same [OF assms])

text \<open>The semantic tier serves the closest answer of the asking tenant. A hit is an unexpired record of that
  tenant whose similarity clears the threshold and is not exceeded by any other unexpired record of the
  tenant; a miss means no unexpired record of the tenant clears the threshold.\<close>

theorem nearest_is_the_best_of_the_tenant:
  assumes "Nearest s now tenant q = (res, evs)" "q \<noteq> []" "length q = dims s"
  shows "case res of
       None \<Rightarrow> evs = [] \<and> (\<forall>r \<in> live (sem_tenants s tenant) (sem_ttl s) now. cosineSimilarity q (sr_vector r) < threshold s)
     | Some (e, score) \<Rightarrow> evs = [EventSemanticHit] \<and> threshold s \<le> score
         \<and> (\<exists>r \<in> live (sem_tenants s tenant) (sem_ttl s) now. sr_entry r = e \<and> cosineSimilarity q (sr_vector r) = score)
         \<and> (\<forall>r \<in> live (sem_tenants s tenant) (sem_ttl s) now. cosineSimilarity q (sr_vector r) \<le> score)"
proof -
  obtain best score where sc: "scanTenant (sem_tenants s tenant) q (threshold s) (sem_ttl s) now = (best, score)"
    by (cases "scanTenant (sem_tenants s tenant) q (threshold s) (sem_ttl s) now")
  from scanTenant_ok [of "sem_tenants s tenant" q "threshold s" "sem_ttl s" now] assms show ?thesis
    unfolding sc by (cases best) (auto simp: scan_ok_def Nearest_def sc)
qed

text \<open>A semantic answer does not depend on the model that was asked for: where the exact tier has nothing for
  either of two models, the same body gets the same stored answer under both, whichever model produced it.\<close>

theorem semantic_answer_ignores_the_model:
  assumes "lookup_Get (Some l) emb now tenant m raw = (res, evs, l1)" "lookup_Get (Some l) emb now tenant m' raw = (res', evs', l2)"
    and "lk_exact l = Some c" "\<And>k. fst (Get c now k) = None"
  shows "res_Entry res = res_Entry res'"
proof -
  have "res_Entry (fst (lookup_Get (Some l) emb now tenant x raw)) =
      (if Cacheable (Eligible raw (lk_maxTemp l)) \<and> (\<exists>f. canonicalize raw = Inr f)
       then map_option fst (fst (nearest l emb now tenant raw)) else None)" for x
  proof -
    have n: "nearest (l\<lparr>lk_exact := Some c'\<rparr>) emb now tenant raw = nearest l emb now tenant raw" for c'
      by (simp add: nearest_def)
    have g: "\<exists>evs c'. Get c now k = (None, evs, c')" for k using assms(4) [of k] by (metis prod.collapse)
    show ?thesis
      using assms(3) g n
      by (cases "canonicalize raw"; cases "nearest l emb now tenant raw")
        (auto simp: lookup_Get_def no_result_def BuildKey_def Let_def split: option.splits prod.splits, (metis prod.inject option.distinct(1))+)
  qed
  from this [of m] this [of m'] assms(1,2) show ?thesis by simp
qed

section \<open>Witnesses\<close>

definition quote_field :: "string \<Rightarrow> string" where
  "quote_field s = CHR 0x22 # s @ [CHR 0x22]"

definition demo_raw :: bytes where
  "demo_raw = ''{'' @ quote_field ''n'' @ '': 1, '' @ quote_field ''temperature'' @ '':0,'' @ quote_field ''stream'' @ '': true}''"

definition demo_raw_other :: bytes where
  "demo_raw_other = ''{'' @ quote_field ''temperature'' @ '':0 ,'' @ quote_field ''n'' @ '':1}''"

lemma demo_question: "question demo_raw = Inr [(''n'', JNum ''1''), (''temperature'', JNum ''0'')]"
  by code_simp

lemma demo_question_other: "question demo_raw_other = question demo_raw"
  unfolding demo_question by code_simp

lemma demo_parse: "json_parse demo_raw = Some (JObj [(''n'', JNum ''1''), (''temperature'', JNum ''0''), (''stream'', JBool True)])"
  by code_simp

lemma demo_raw_fields: "raw_fields demo_raw = [(''n'', ''1''), (''temperature'', ''0''), (''stream'', ''true'')]"
  by code_simp

lemma as_float_0: "as_float (JNum ''0'') = Some 0"
  by (simp add: as_float_def number_value_def dec_nat_def dec_digit_def)

lemma demo_eligible: "Cacheable (Eligible demo_raw 0)"
proof -
  have f: "field_values ''temperature'' [(''n'', JNum ''1''), (''temperature'', JNum ''0''), (''stream'', JBool True)] = [JNum ''0'']"
    "field_values ''n'' [(''n'', JNum ''1''), (''temperature'', JNum ''0''), (''stream'', JBool True)] = [JNum ''1'']"
    "field_values ''top_p'' [(''n'', JNum ''1''), (''temperature'', JNum ''0''), (''stream'', JBool True)] = []"
    "field_values ''seed'' [(''n'', JNum ''1''), (''temperature'', JNum ''0''), (''stream'', JBool True)] = []"
    "field_values ''logprobs'' [(''n'', JNum ''1''), (''temperature'', JNum ''0''), (''stream'', JBool True)] = []"
    by code_simp+
  have r: "raw_field ''tools'' demo_raw = []" "raw_field ''tool_choice'' demo_raw = []" "raw_field ''functions'' demo_raw = []"
    "raw_field ''function_call'' demo_raw = []"
    unfolding raw_field_def demo_raw_fields by code_simp+
  have i: "as_int (JNum ''1'') = Some 1" by code_simp
  have c: "hasContent [] = False" by code_simp
  show ?thesis
    by (simp add: Eligible_def decode_shape_def demo_parse as_object_def f r i c decode_pointer_def as_float_0)
qed

definition demo_hash :: "string \<Rightarrow> string" where
  "demo_hash m = hex_EncodeToString (Sum256 (key_preimage m (encode (JObj [(''n'', JNum ''1''), (''temperature'', JNum ''0'')]))))"

lemma demo_BuildKey: "BuildKey t m demo_raw = Inr \<lparr>key_Tenant = t, key_Model = m, key_Hash = demo_hash m\<rparr>"
    "BuildKey t m demo_raw_other = Inr \<lparr>key_Tenant = t, key_Model = m, key_Hash = demo_hash m\<rparr>"
  by (simp_all add: BuildKey_def canonicalize_def demo_question demo_question_other demo_hash_def)

lemma demo_no_collision: "no_collision m demo_raw m demo_raw_other"
  by (simp add: no_collision_def canonicalize_def demo_question demo_question_other)

theorem same_key_iff_same_question_witness:
  "\<exists>k. BuildKey ''t'' ''m'' demo_raw = Inr k \<and> BuildKey ''t'' ''m'' demo_raw_other = Inr k"
  using same_key_iff_same_question [OF demo_BuildKey(1) [of "''t''" "''m''"] demo_BuildKey(2) [of "''t''" "''m''"] demo_no_collision]
  by (simp add: demo_BuildKey demo_question_other)

definition demo_lookup :: "cache_op list \<Rightarrow> lookup_state" where
  "demo_lookup ops = \<lparr>lk_exact = Some (exact_run (NewExact 2 10) ops), lk_semantic = None, lk_maxTemp = 0\<rparr>"

theorem exact_hit_answers_the_same_question_witness:
  "\<exists>t k e0 pre post. [CPut 1 \<lparr>key_Tenant = ''t'', key_Model = ''m'', key_Hash = demo_hash ''m''\<rparr> demo_answer] = pre @ CPut t k e0 # post
     \<and> stamped 1 demo_answer = stamped t e0 \<and> 3 < t + ttl (NewExact 2 10)
     \<and> (\<forall>p \<in> set post. is_put p \<longrightarrow> op_id p \<noteq> key_id k)
     \<and> (\<forall>tenant' model' raw'. BuildKey tenant' model' raw' = Inr k \<longrightarrow> no_collision ''m'' demo_raw model' raw' \<longrightarrow>
          tenant' = ''t'' \<and> model' = ''m'' \<and> question raw' = question demo_raw)"
proof -
  define k where "k = \<lparr>key_Tenant = ''t'', key_Model = ''m'', key_Hash = demo_hash ''m''\<rparr>"
  let ?l = "demo_lookup [CPut 1 k demo_answer]"
  have hit: "fst (Get (exact_run (NewExact 2 10) ([] @ CPut 1 k demo_answer # [])) 3 k) = Some (stamped 1 demo_answer)"
    by (rule exact_tier.put_is_kept [OF represents_new]) (auto simp: NewExact_def)
  obtain evs c where g: "Get (exact_run (NewExact 2 10) [CPut 1 k demo_answer]) 3 k = (Some (stamped 1 demo_answer), evs, c)"
    using hit by (metis append_Nil prod.collapse)
  obtain res evs' l' where r: "lookup_Get (Some ?l) None 3 ''t'' ''m'' demo_raw = (res, evs', l')" by (metis prod_cases3)
  have b: "BuildKey ''t'' ''m'' demo_raw = Inr k" by (simp add: demo_BuildKey k_def)
  have "res_Entry res = Some (stamped 1 demo_answer)" "\<not> res_Semantic res"
    using r g by (auto simp: lookup_Get_def demo_lookup_def demo_eligible b no_result_def Let_def)
  from exact_hit_answers_the_same_question [OF r this] show ?thesis
    unfolding k_def demo_lookup_def by simp
qed

definition demo_semantic :: semantic_store where
  "demo_semantic = (NewSemantic (1 / 2) 4 0)\<lparr>dims := 1, sem_tenants := (\<lambda>_. [])
     (''t'' := [\<lparr>sr_vector = [1], sr_entry = demo_answer, sr_storedAt = 0\<rparr>])\<rparr>"

lemma isqrt_4_power: "isqrt (4 ^ k) = 2 ^ k"
proof (induction k)
  case 0
  show ?case by code_simp
next
  case (Suc k)
  have "(2 * 2 ^ k + 1) * (2 * 2 ^ k + 1) = 4 * 4 ^ k + 4 * 2 ^ k + (1::nat)"
    by (simp add: algebra_simps flip: power_mult_distrib)
  then have "\<not> (2 * 2 ^ k + 1) * (2 * 2 ^ k + 1) \<le> 4 * (4::nat) ^ k" by simp
  with Suc show ?case by (subst isqrt.simps) (simp add: Let_def)
qed

lemma fsqrt_1: "fsqrt 1 = 1"
proof -
  have "expo2 1 = 0" by code_simp
  moreover have "isqrt 340282366920938463463374607431768211456 = 18446744073709551616" using isqrt_4_power [of 64] by simp
  moreover have "rnd64 1 = 1" by (rule rnd64_dyadic) code_simp
  ultimately show ?thesis by (simp add: fsqrt_def Let_def)
qed

lemma demo_similarity: "cosineSimilarity [1] [1] = 1"
proof -
  have "rnd64 1 = 1" by (rule rnd64_dyadic) code_simp
  then show ?thesis by (simp add: cosineSimilarity_def dot_product_def fadd_def fmul_def fdiv_def fsqrt_1)
qed

lemma demo_nearest: "Nearest demo_semantic 5 ''t'' [1] = (Some (demo_answer, 1), [EventSemanticHit])"
  by (simp add: Nearest_def demo_semantic_def scanTenant_def NewSemantic_def expired_def demo_similarity Let_def)

theorem nearest_is_the_best_of_the_tenant_witness:
  "threshold demo_semantic \<le> 1 \<and> (\<exists>r \<in> live (sem_tenants demo_semantic ''t'') (sem_ttl demo_semantic) 5.
     sr_entry r = demo_answer \<and> cosineSimilarity [1] (sr_vector r) = 1)"
  using nearest_is_the_best_of_the_tenant [OF demo_nearest] by (simp add: demo_semantic_def NewSemantic_def)

theorem semantic_answer_ignores_the_model_witness:
  "res_Entry (fst (lookup_Get (Some ((demo_lookup [])\<lparr>lk_semantic := Some demo_semantic\<rparr>)) (Some (\<lambda>_. Inr [[1]])) 5 ''t'' ''a'' demo_raw))
     = res_Entry (fst (lookup_Get (Some ((demo_lookup [])\<lparr>lk_semantic := Some demo_semantic\<rparr>)) (Some (\<lambda>_. Inr [[1]])) 5 ''t'' ''b'' demo_raw))"
proof -
  let ?l = "(demo_lookup [])\<lparr>lk_semantic := Some demo_semantic\<rparr>"
  have e: "lk_exact ?l = Some (NewExact 2 10)" by (simp add: demo_lookup_def)
  have "fst (Get (NewExact 2 10) 5 k) = None" for k
    by (simp add: Get_lookup lookup_def find_node_def NewExact_def)
  moreover obtain res evs l1 where "lookup_Get (Some ?l) (Some (\<lambda>_. Inr [[1]])) 5 ''t'' ''a'' demo_raw = (res, evs, l1)"
    by (metis prod_cases3)
  moreover obtain res' evs' l1' where "lookup_Get (Some ?l) (Some (\<lambda>_. Inr [[1]])) 5 ''t'' ''b'' demo_raw = (res', evs', l1')"
    by (metis prod_cases3)
  ultimately show ?thesis using semantic_answer_ignores_the_model [OF _ _ e] by fastforce
qed

end
