(* ===== verification/Gateway_Chat.thy ===== *)
theory Gateway_Chat
  imports Gateway_HTTP Provider_Rewrite Cache_Lookup Budget_Guard
begin

text \<open>
  The request path of the gateway (\<^verbatim>\<open>src/internal/ingress\<close>: \<^verbatim>\<open>handlers.go\<close>, \<^verbatim>\<open>cached.go\<close>, \<^verbatim>\<open>metrics.go\<close> and the
  middleware of \<^verbatim>\<open>server.go\<close>). One record holds everything a request touches: the response, the access log's
  notes, the calls into the metrics sink, the accountant's state, the cache and the in flight limiter. A handler
  maps that record to one of three outcomes: served, unwound by a panic, or a stream still waiting for its next
  event. The clock, the upstream call and the scheduler are arguments: the select loop of a stream is driven by
  the list of events it wakes up to.
\<close>

section \<open>State\<close>

record log_info =
  li_start :: "instant option"
  li_model :: string
  li_provider :: string
  li_tenant :: string
  li_stream :: bool
  li_cached :: bool

definition no_info :: log_info where
  "no_info = \<lparr>li_start = None, li_model = [], li_provider = [], li_tenant = [], li_stream = False, li_cached = False\<rparr>"

datatype metric =
    ObserveRequest string string string duration bool
  | ObserveTTFT string duration
  | AddTokens string goint goint
  | AddCost string string string float64
  | AddDenial string deny_reason

text \<open>The \<^verbatim>\<open>Accountant\<close> interface over a state of its own.\<close>

record 'a accountant =
  acc_Begin :: "'a \<Rightarrow> instant \<Rightarrow> tenant_id \<Rightarrow> string \<Rightarrow> bytes \<Rightarrow> ((err + denial) + reservation option) \<times> 'a"
  acc_Settle :: "'a \<Rightarrow> instant \<Rightarrow> reservation \<Rightarrow> usage \<Rightarrow> string \<Rightarrow> string \<Rightarrow> float64 \<times> 'a"
  acc_Abort :: "'a \<Rightarrow> instant \<Rightarrow> reservation \<Rightarrow> 'a"

record log_line =
  ll_info :: log_info
  ll_status :: goint
  ll_elapsed :: duration

record 'a gw =
  gw_writer :: writer
  gw_info :: log_info
  gw_metrics :: "metric list"
  gw_acct :: 'a
  gw_cache :: "lookup_state option"
  gw_cacheEvents :: "cache_event list"
  gw_inflight :: inflight
  gw_log :: "log_line list"

datatype 'g served = Served 'g | Panicked 'g | Waiting

record 'a server =
  sv_UpstreamTimeoutMS :: goint
  sv_StreamIdleTimeoutMS :: goint
  sv_routes :: "(string \<times> provider) list"
  sv_clientKeys :: key_set
  sv_accounting :: "'a accountant option"
  sv_embedder :: "embedder option"

record request =
  rq_method :: string
  rq_path :: string
  rq_authorization :: string
  rq_body :: bytes
  rq_readErr :: bool

text \<open>What a stream's select loop can wake up to.\<close>

datatype stream_event = EvRecv "err + stream_chunk" | EvIdle | EvCtxDone

record schedule =
  at_start :: instant
  at_lookup :: instant
  at_begin :: instant
  at_answer :: instant
  at_end :: instant
  headerTimedOut :: bool
  events :: "(instant \<times> stream_event) list"

definition msToDuration :: "goint \<Rightarrow> duration" where
  "msToDuration ms = wrap64 (ms * Millisecond)"

definition upstream_budget :: "'a server \<Rightarrow> duration option" where
  "upstream_budget sv = (let d = msToDuration (sv_UpstreamTimeoutMS sv) in if 0 < d then Some d else None)"

definition on_writer :: "(writer \<Rightarrow> writer) \<Rightarrow> 'a gw \<Rightarrow> 'a gw" where
  "on_writer f g = g\<lparr>gw_writer := f (gw_writer g)\<rparr>"

definition meter :: "metric \<Rightarrow> 'a gw \<Rightarrow> 'a gw" where
  "meter m g = g\<lparr>gw_metrics := gw_metrics g @ [m]\<rparr>"

section \<open>Who answered and what is billed\<close>

definition answeringProvider :: "string \<Rightarrow> string \<Rightarrow> string" where
  "answeringProvider routeLabel answered = (if answered \<noteq> [] then answered else routeLabel)"

definition billedModel :: "string \<Rightarrow> string \<Rightarrow> string" where
  "billedModel routeModel upstreamModel = (if upstreamModel \<noteq> [] then upstreamModel else routeModel)"

definition providerOfStream :: "reader \<Rightarrow> string" where
  "providerOfStream r = (case AnsweringProvider r of Some p \<Rightarrow> p | None \<Rightarrow> [])"

definition modelOfStream :: "reader \<Rightarrow> string" where
  "modelOfStream r = (case AnsweringModel r of Some m \<Rightarrow> m | None \<Rightarrow> [])"

section \<open>Settling\<close>

definition settleOrAbort ::
  "'a server \<Rightarrow> instant \<Rightarrow> reservation option \<Rightarrow> usage option \<Rightarrow> string \<Rightarrow> string \<Rightarrow> 'a gw \<Rightarrow> 'a gw" where
  "settleOrAbort sv now reservation u model provider g = (case (sv_accounting sv, reservation) of
       (Some acc, Some r) \<Rightarrow>
         (case u of
            None \<Rightarrow> g\<lparr>gw_acct := acc_Abort acc (gw_acct g) now r\<rparr>
          | Some us \<Rightarrow>
              (case acc_Settle acc (gw_acct g) now r us model provider of
                 (usd, a) \<Rightarrow> meter (AddCost (res_Tenant r) provider model usd) (g\<lparr>gw_acct := a\<rparr>)))
     | _ \<Rightarrow> g)"

definition cache_Put :: "'a server \<Rightarrow> instant \<Rightarrow> lookup_result \<Rightarrow> cache_entry \<Rightarrow> bytes \<Rightarrow> 'a gw \<Rightarrow> 'a gw" where
  "cache_Put sv now res e raw g = (case lookup_Put (gw_cache g) (sv_embedder sv) now res (Some e) raw of
     (evs, c) \<Rightarrow> g\<lparr>gw_cache := c, gw_cacheEvents := gw_cacheEvents g @ evs\<rparr>)"

section \<open>One answer\<close>

definition serveChat ::
  "'a server \<Rightarrow> schedule \<Rightarrow> provider \<Rightarrow> chat_request \<Rightarrow> reservation option \<Rightarrow> lookup_result \<Rightarrow> 'a gw \<Rightarrow> 'a gw served" where
  "serveChat sv t prov req reservation cacheRes g = (case prov_Chat prov (upstream_budget sv) req of
       None \<Rightarrow> Panicked g
     | Some (Inl e) \<Rightarrow>
         Served (on_writer (writeUpstreamError e) (settleOrAbort sv (at_answer t) reservation None (ReqModel req) (prov_Name prov) g))
     | Some (Inr resp) \<Rightarrow>
         (let answered = answeringProvider (prov_Name prov) (RespProvider resp);
              g1 = g\<lparr>gw_info := (gw_info g)\<lparr>li_provider := answered\<rparr>\<rparr>;
              g2 = meter (AddTokens answered (PromptTokens (RespUsage resp)) (CompletionTokens (RespUsage resp))) g1;
              g3 = settleOrAbort sv (at_answer t) reservation (Some (RespUsage resp)) (billedModel (ReqModel req) (RespModel resp)) answered g2;
              g4 = cache_Put sv (at_answer t) cacheRes \<lparr>ce_Body = RespBody resp, ce_Frames = [], ce_Usage = RespUsage resp, ce_USD = 0,
                     ce_Provider = answered, ce_Model = ReqModel req, ce_StoredAt = at_answer t\<rparr> (ReqRaw req) g3
          in Served (on_writer (\<lambda>w. snd (Write (RespBody resp) (WriteHeader 200
               (header_set ''X-Content-Type-Options'' ''nosniff'' (header_set ''Content-Type'' ContentTypeJSON w))))) g4)))"

section \<open>Recording a stream\<close>

definition maxCachedStreamBytes :: nat where "maxCachedStreamBytes = 1048576"

record stream_recorder =
  rec_frames :: "bytes list"
  rec_bytes :: nat
  rec_dropped :: bool

definition rec_add :: "bytes \<Rightarrow> stream_recorder \<Rightarrow> stream_recorder" where
  "rec_add frame rec =
     (if rec_dropped rec then rec
      else if maxCachedStreamBytes < rec_bytes rec + length frame then rec\<lparr>rec_dropped := True, rec_frames := []\<rparr>
      else rec\<lparr>rec_frames := rec_frames rec @ [frame], rec_bytes := rec_bytes rec + length frame\<rparr>)"

definition rec_entry :: "stream_recorder \<Rightarrow> instant \<Rightarrow> string \<Rightarrow> string \<Rightarrow> usage \<Rightarrow> cache_entry option" where
  "rec_entry rec now provider model u =
     (if rec_dropped rec \<or> rec_frames rec = [] then None
      else Some \<lparr>ce_Body = [], ce_Frames = rec_frames rec, ce_Usage = u, ce_USD = 0, ce_Provider = provider, ce_Model = model,
                 ce_StoredAt = now\<rparr>)"

record stream_tally =
  tl_answered :: string
  tl_billed :: string
  tl_lastUsage :: "usage option"
  tl_recorder :: stream_recorder
  tl_completed :: bool

section \<open>One stream\<close>

text \<open>\<^verbatim>\<open>pumpStream\<close>: what reaches the select loop of the results a reader gives, a panic (\<open>None\<close>) turned into an
  error and nothing after the first error.\<close>

fun pumpStream :: "(err + stream_chunk) option list \<Rightarrow> (err + stream_chunk) list" where
  "pumpStream [] = []"
| "pumpStream (None # rs) = [Inl (OtherErr ''stream reader panicked'')]"
| "pumpStream (Some (Inl e) # rs) = [Inl e]"
| "pumpStream (Some (Inr c) # rs) = Inr c # pumpStream rs"

definition openStream :: "provider \<Rightarrow> duration option \<Rightarrow> chat_request \<Rightarrow> bool \<Rightarrow> (err + reader) option" where
  "openStream prov budget req timedOut = (case prov_ChatStream prov budget req of
       None \<Rightarrow> None
     | Some (Inr reader) \<Rightarrow> Some (Inr reader)
     | Some (Inl e) \<Rightarrow>
         Some (Inl (if timedOut then ProviderError (prov_Name prov) ErrClassTimeout 0
           ''upstream did not send response headers in time'' (Some e) else e)))"

definition writeSSEHeaders :: "writer \<Rightarrow> writer" where
  "writeSSEHeaders w = Flush (WriteHeader 200 (header_set ''X-Content-Type-Options'' ''nosniff''
     (header_set ''Connection'' ''keep-alive'' (header_set ''Cache-Control'' ''no-cache''
       (header_set ''Content-Type'' ''text/event-stream'' w)))))"

definition truncated_frame :: bytes where
  "truncated_frame = encode (Envelope ''upstream stream ended before completion'' TypeAPI ''stream_truncated'')"

definition finishStream :: "err \<Rightarrow> writer \<Rightarrow> writer" where
  "finishStream cause w =
     (if errors_Is cause IoEOF then Flush (snd (Write sseDoneFrame w))
      else Flush (snd (writeSSEFrame_to truncated_frame w)))"

fun streamLoop ::
  "duration \<Rightarrow> (instant \<times> stream_event) list \<Rightarrow> bool \<Rightarrow> stream_tally \<Rightarrow> 'a gw \<Rightarrow> (stream_tally \<times> 'a gw) option" where
  "streamLoop idle [] firstData tally g = None"
| "streamLoop idle ((now, EvRecv (Inl e)) # evs) firstData tally g =
     Some (tally\<lparr>tl_completed := errors_Is e IoEOF\<rparr>, on_writer (finishStream e) g)"
| "streamLoop idle ((now, EvRecv (Inr chunk)) # evs) firstData tally g =
     (let tally1 = (case ChunkUsage chunk of None \<Rightarrow> tally | Some u \<Rightarrow> tally\<lparr>tl_lastUsage := Some u\<rparr>) in
      if Keepalive chunk then
        (case Write sseKeepaliveFrame (gw_writer g) of
           (Some _, w) \<Rightarrow> Some (tally1, g\<lparr>gw_writer := w\<rparr>)
         | (None, w) \<Rightarrow> streamLoop idle evs firstData tally1 (g\<lparr>gw_writer := Flush w\<rparr>))
      else
        (let g1 = (case li_start (gw_info g) of
               Some start \<Rightarrow> if firstData then meter (ObserveTTFT (tl_answered tally) (time_Sub now start)) g else g
             | None \<Rightarrow> g) in
         case writeSSEFrame_to (ChunkData chunk) (gw_writer g1) of
           (Some _, w) \<Rightarrow> Some (tally1, g1\<lparr>gw_writer := w\<rparr>)
         | (None, w) \<Rightarrow> streamLoop idle evs False (tally1\<lparr>tl_recorder := rec_add (ChunkData chunk) (tl_recorder tally1)\<rparr>)
                          (g1\<lparr>gw_writer := Flush w\<rparr>)))"
| "streamLoop idle ((now, EvIdle) # evs) firstData tally g =
     (if idle \<le> 0 then streamLoop idle evs firstData tally g
      else Some (tally, on_writer (finishStream ErrStreamTruncated) g))"
| "streamLoop idle ((now, EvCtxDone) # evs) firstData tally g = Some (tally, g)"

definition settleStream ::
  "'a server \<Rightarrow> instant \<Rightarrow> reservation option \<Rightarrow> lookup_result \<Rightarrow> chat_request \<Rightarrow> stream_tally \<Rightarrow> 'a gw \<Rightarrow> 'a gw" where
  "settleStream sv now reservation cacheRes req tally g =
     (let g1 = (case tl_lastUsage tally of
            None \<Rightarrow> g
          | Some u \<Rightarrow> meter (AddTokens (tl_answered tally) (PromptTokens u) (CompletionTokens u)) g);
          g2 = (if tl_completed tally then
              (case rec_entry (tl_recorder tally) now (tl_answered tally) (ReqModel req)
                  (case tl_lastUsage tally of None \<Rightarrow> zero_usage | Some u \<Rightarrow> u) of
                 None \<Rightarrow> g1
               | Some e \<Rightarrow> cache_Put sv now cacheRes e (ReqRaw req) g1)
            else g1)
      in settleOrAbort sv now reservation (tl_lastUsage tally) (tl_billed tally) (tl_answered tally) g2)"

definition new_tally :: "provider \<Rightarrow> chat_request \<Rightarrow> reader \<Rightarrow> stream_tally" where
  "new_tally prov req reader =
     \<lparr>tl_answered = answeringProvider (prov_Name prov) (providerOfStream reader),
      tl_billed = billedModel (ReqModel req) (modelOfStream reader), tl_lastUsage = None,
      tl_recorder = \<lparr>rec_frames = [], rec_bytes = 0, rec_dropped = False\<rparr>, tl_completed = False\<rparr>"

definition serveStream ::
  "'a server \<Rightarrow> schedule \<Rightarrow> provider \<Rightarrow> chat_request \<Rightarrow> reservation option \<Rightarrow> lookup_result \<Rightarrow> 'a gw \<Rightarrow> 'a gw served" where
  "serveStream sv t prov req reservation cacheRes g =
     (if \<not> flusherFor (gw_writer g) then
        Served (on_writer (WriteError 500 ''streaming is not supported by this server'' TypeAPI ''streaming_unsupported'')
          (settleOrAbort sv (at_begin t) reservation None (ReqModel req) (prov_Name prov) g))
      else case openStream prov (upstream_budget sv) req (headerTimedOut t) of
        None \<Rightarrow> Panicked g
      | Some (Inl e) \<Rightarrow>
          Served (on_writer (writeUpstreamError e) (settleOrAbort sv (at_answer t) reservation None (ReqModel req) (prov_Name prov) g))
      | Some (Inr reader) \<Rightarrow>
          (let tally = new_tally prov req reader;
               g1 = on_writer writeSSEHeaders g;
               g2 = g1\<lparr>gw_info := (gw_info g1)\<lparr>li_provider := tl_answered tally\<rparr>\<rparr>
           in case streamLoop (msToDuration (sv_StreamIdleTimeoutMS sv)) (events t) True tally g2 of
                None \<Rightarrow> Waiting
              | Some (tally', g') \<Rightarrow> Served (settleStream sv (at_end t) reservation cacheRes req tally' g')))"

section \<open>Answers from the cache\<close>

definition headerCacheStatus :: string where "headerCacheStatus = ''X-Penstock-Cache''"

definition cacheStatusOf :: "lookup_result \<Rightarrow> string" where
  "cacheStatusOf res = (if res_Semantic res then ''hit-semantic'' else ''hit-exact'')"

fun replayFrames :: "bytes list \<Rightarrow> writer \<Rightarrow> writer" where
  "replayFrames [] w = Flush (snd (Write sseDoneFrame w))"
| "replayFrames (frame # frames) w = (case writeSSEFrame_to frame w of
       (Some _, w1) \<Rightarrow> w1
     | (None, w1) \<Rightarrow> replayFrames frames (Flush w1))"

definition replayStream :: "lookup_result \<Rightarrow> cache_entry \<Rightarrow> writer \<Rightarrow> bool \<times> writer" where
  "replayStream res entry w =
     (if \<not> flusherFor w then (False, w)
      else if \<not> Streamed entry then (False, w)
      else (True, replayFrames (ce_Frames entry)
        (Flush (WriteHeader 200 (header_set headerCacheStatus (cacheStatusOf res)
          (header_set ''X-Content-Type-Options'' ''nosniff'' (header_set ''Connection'' ''keep-alive''
            (header_set ''Cache-Control'' ''no-cache'' (header_set ''Content-Type'' ''text/event-stream'' w)))))))))"

definition serveCached :: "lookup_result \<Rightarrow> 'a gw \<Rightarrow> bool \<times> 'a gw" where
  "serveCached res g = (case res_Entry res of
       None \<Rightarrow> (False, g)
     | Some entry \<Rightarrow>
         (let g1 = meter (AddTokens (ce_Provider entry) (PromptTokens (ce_Usage entry)) (CompletionTokens (ce_Usage entry)))
                (g\<lparr>gw_info := (gw_info g)\<lparr>li_provider := ce_Provider entry, li_cached := True\<rparr>\<rparr>) in
          if li_stream (gw_info g1) then
            (case replayStream res entry (gw_writer g1) of (ok, w) \<Rightarrow> (ok, g1\<lparr>gw_writer := w\<rparr>))
          else (True, on_writer (\<lambda>w. snd (Write (ce_Body entry) (WriteHeader 200 (header_set headerCacheStatus (cacheStatusOf res)
            (header_set ''X-Content-Type-Options'' ''nosniff'' (header_set ''Content-Type'' ContentTypeJSON w)))))) g1)))"

section \<open>The chat endpoint\<close>

definition maxBodyBytes :: nat where "maxBodyBytes = 1048576"

text \<open>The routing envelope: model and stream of the body, \<open>None\<close> when it does not decode.\<close>

definition decode_envelope :: "bytes \<Rightarrow> (string \<times> bool) option" where
  "decode_envelope body = (case json_parse body of
       None \<Rightarrow> None
     | Some v \<Rightarrow> (case as_object v of
         None \<Rightarrow> None
       | Some ms \<Rightarrow>
           (case (decode_field as_string [] (field_values ''model'' ms), decode_field as_bool False (field_values ''stream'' ms)) of
              (Some m, Some s) \<Rightarrow> Some (m, s)
            | _ \<Rightarrow> None)))"

definition refuse :: "goint \<Rightarrow> string \<Rightarrow> string \<Rightarrow> 'a gw \<Rightarrow> 'a gw served" where
  "refuse status message code g = Served (on_writer (WriteError status message TypeInvalidRequest code) g)"

text \<open>The second half of the handler: the claim on the budget, then the upstream call.\<close>

definition reserveAndServe ::
  "'a server \<Rightarrow> schedule \<Rightarrow> provider \<Rightarrow> chat_request \<Rightarrow> lookup_result \<Rightarrow> 'a gw \<Rightarrow> 'a gw served" where
  "reserveAndServe sv t prov req cacheRes g =
     (let serve = (\<lambda>reservation g. if ReqStream req then serveStream sv t prov req reservation cacheRes g
            else serveChat sv t prov req reservation cacheRes g);
          tenant = li_tenant (gw_info g)
      in case sv_accounting sv of
           None \<Rightarrow> serve None g
         | Some acc \<Rightarrow>
             (case acc_Begin acc (gw_acct g) (at_begin t) tenant (ReqModel req) (ReqRaw req) of
                (Inl e, a) \<Rightarrow>
                  (case writeDenial e (gw_writer g) of (counted, w) \<Rightarrow>
                     let g1 = g\<lparr>gw_acct := a, gw_writer := w\<rparr> in
                     Served (case counted of None \<Rightarrow> g1 | Some reason \<Rightarrow> meter (AddDenial tenant reason) g1))
              | (Inr reservation, a) \<Rightarrow> serve reservation (g\<lparr>gw_acct := a\<rparr>)))"

definition handleChatCompletions :: "'a server \<Rightarrow> schedule \<Rightarrow> request \<Rightarrow> 'a gw \<Rightarrow> 'a gw served" where
  "handleChatCompletions sv t r g =
     (if maxBodyBytes < length (rq_body r) then refuse 413 ''request body exceeds the 1 MiB limit'' ''request_too_large'' g
      else if rq_readErr r then refuse 400 ''failed to read request body'' ''invalid_body'' g
      else case decode_envelope (rq_body r) of
        None \<Rightarrow> refuse 400 ''request body is not valid JSON'' ''invalid_json'' g
      | Some (model, stream) \<Rightarrow>
          (let g1 = g\<lparr>gw_info := (gw_info g)\<lparr>li_model := model, li_stream := stream\<rparr>\<rparr> in
           if model = [] then refuse 400 ''model is required'' ''missing_model'' g1
           else case map_of (sv_routes sv) model of
             None \<Rightarrow> refuse 404 (''model '' @ Quote model @ '' is not served by this gateway'') codeModelNotFound g1
           | Some prov \<Rightarrow>
               (let g2 = g1\<lparr>gw_info := (gw_info g1)\<lparr>li_provider := prov_Name prov\<rparr>\<rparr> in
                case lookup_Get (gw_cache g2) (sv_embedder sv) (at_lookup t) (li_tenant (gw_info g2)) model (rq_body r) of
                  (cacheRes, evs, c) \<Rightarrow>
                    (case serveCached cacheRes (g2\<lparr>gw_cache := c, gw_cacheEvents := gw_cacheEvents g2 @ evs\<rparr>) of
                       (True, g3) \<Rightarrow> Served g3
                     | (False, g3) \<Rightarrow>
                         reserveAndServe sv t prov \<lparr>ReqModel = model, ReqStream = stream, ReqRaw = rq_body r\<rparr> cacheRes g3))))"

section \<open>The other endpoints\<close>

definition handleModels :: "'a server \<Rightarrow> 'a gw \<Rightarrow> 'a gw served" where
  "handleModels sv g = Served (on_writer (WriteJSON 200 (JObj [(''object'', JStr ''list''),
     (''data'', JArr (map (\<lambda>(model, prov). JObj [(''id'', JStr model), (''object'', JStr ''model''), (''owned_by'', JStr (prov_Name prov))])
        (sort_key fst (sv_routes sv))))])) g)"

definition handleHealthz :: "'a gw \<Rightarrow> 'a gw served" where
  "handleHealthz g = Served (on_writer (WriteJSON 200 (JObj [(''status'', JStr ''ok'')])) g)"

text \<open>\<^verbatim>\<open>http.ServeMux\<close> on the three registered patterns; a GET pattern also serves HEAD.\<close>

definition plain_error :: "goint \<Rightarrow> string \<Rightarrow> writer \<Rightarrow> writer" where
  "plain_error status message w = snd (Write (message @ [newline]) (WriteHeader status
     (header_set ''X-Content-Type-Options'' ''nosniff'' (header_set ''Content-Type'' ''text/plain; charset=utf-8'' w))))"

definition mux :: "'a server \<Rightarrow> schedule \<Rightarrow> request \<Rightarrow> 'a gw \<Rightarrow> 'a gw served" where
  "mux sv t r g =
     (if rq_path r = chatPath \<and> rq_method r = ''POST'' then handleChatCompletions sv t r g
      else if rq_path r = modelsPath \<and> rq_method r \<in> {''GET'', ''HEAD''} then handleModels sv g
      else if rq_path r = healthPath \<and> rq_method r \<in> {''GET'', ''HEAD''} then handleHealthz g
      else if rq_path r = chatPath then
        Served (on_writer (plain_error 405 ''Method Not Allowed'' \<circ> header_set ''Allow'' ''POST'') g)
      else if rq_path r \<in> {modelsPath, healthPath} then
        Served (on_writer (plain_error 405 ''Method Not Allowed'' \<circ> header_set ''Allow'' ''GET, HEAD'') g)
      else Served (on_writer (plain_error 404 ''404 page not found'') g))"

section \<open>Middleware\<close>

type_synonym 'a handler = "'a gw \<Rightarrow> 'a gw served"

text \<open>What runs as the stack unwinds, whether the handler returned or panicked.\<close>

fun deferred :: "('g \<Rightarrow> 'g) \<Rightarrow> 'g served \<Rightarrow> 'g served" where
  "deferred f (Served g) = Served (f g)"
| "deferred f (Panicked g) = Panicked (f g)"
| "deferred f Waiting = Waiting"

definition withLimit :: "'a handler \<Rightarrow> 'a handler" where
  "withLimit next g =
     (if slots (gw_inflight g) = None then next g
      else case limit_enter (gw_inflight g) of
        Some f \<Rightarrow> deferred (\<lambda>g. g\<lparr>gw_inflight := limit_leave (gw_inflight g)\<rparr>) (next (g\<lparr>gw_inflight := f\<rparr>))
      | None \<Rightarrow> Served (on_writer writeSaturated g))"

definition withAuth :: "'a server \<Rightarrow> request \<Rightarrow> 'a handler \<Rightarrow> 'a handler" where
  "withAuth sv r next g = (case authenticate (sv_clientKeys sv) (rq_path r) (rq_authorization r) of
       None \<Rightarrow> Served (on_writer rejectUnauthorized g)
     | Some tenant \<Rightarrow>
         next (if tenant \<noteq> AnonymousTenant then g\<lparr>gw_info := (gw_info g)\<lparr>li_tenant := tenant\<rparr>\<rparr> else g))"

definition access_log :: "schedule \<Rightarrow> request \<Rightarrow> 'a gw \<Rightarrow> 'a gw" where
  "access_log t r g = (let elapsed = time_Sub (at_end t) (at_start t); status = Status (gw_writer g) in
     (meter (ObserveRequest (NormalizePath (rq_path r)) (li_provider (gw_info g)) (Itoa status) elapsed (li_stream (gw_info g))) g)
       \<lparr>gw_log := gw_log g @ [\<lparr>ll_info = gw_info g, ll_status = status, ll_elapsed = elapsed\<rparr>],
        gw_writer := (gw_writer g)\<lparr>w_status := None\<rparr>\<rparr>)"

definition withAccessLog :: "schedule \<Rightarrow> request \<Rightarrow> 'a handler \<Rightarrow> 'a handler" where
  "withAccessLog t r next g =
     deferred (access_log t r) (next (g\<lparr>gw_info := no_info\<lparr>li_start := Some (at_start t)\<rparr>, gw_writer := newStatusWriter (gw_writer g)\<rparr>))"

definition withRecovery :: "'a handler \<Rightarrow> 'a handler" where
  "withRecovery next g = (case next g of
       Panicked g' \<Rightarrow> Served (on_writer (WriteError 500 ''internal error'' TypeAPI ''internal'') g')
     | res \<Rightarrow> res)"

definition Handler :: "'a server \<Rightarrow> schedule \<Rightarrow> request \<Rightarrow> 'a handler" where
  "Handler sv t r = withRecovery (withAccessLog t r (withAuth sv r (withLimit (mux sv t r))))"

end
