(* ===== verification/Gateway_Requests.thy ===== *)
theory Gateway_Requests
  imports Gateway_Chat
begin

text \<open>
  What the request path guarantees: every claim on a budget is closed exactly once, the books of the guard behind
  the gateway reconcile, streams are relayed whole and only whole streams are remembered, answers from the cache
  move no money. The last section shows where the code falls short of what its comments say.
\<close>

section \<open>What the helpers leave alone\<close>

lemma on_writer_simps [simp]:
  "gw_acct (on_writer f g) = gw_acct g" "gw_cache (on_writer f g) = gw_cache g" "gw_info (on_writer f g) = gw_info g"
  "gw_writer (on_writer f g) = f (gw_writer g)" "gw_inflight (on_writer f g) = gw_inflight g" "gw_metrics (on_writer f g) = gw_metrics g"
  "gw_log (on_writer f g) = gw_log g"
  by (simp_all add: on_writer_def)

lemma meter_simps [simp]:
  "gw_acct (meter m g) = gw_acct g" "gw_cache (meter m g) = gw_cache g" "gw_info (meter m g) = gw_info g"
  "gw_writer (meter m g) = gw_writer g" "gw_inflight (meter m g) = gw_inflight g" "gw_metrics (meter m g) = gw_metrics g @ [m]"
  "gw_log (meter m g) = gw_log g"
  by (simp_all add: meter_def)

lemma settleOrAbort_simps [simp]:
  "gw_cache (settleOrAbort sv now r u m p g) = gw_cache g" "gw_info (settleOrAbort sv now r u m p g) = gw_info g"
  "gw_writer (settleOrAbort sv now r u m p g) = gw_writer g" "gw_inflight (settleOrAbort sv now r u m p g) = gw_inflight g"
  "gw_log (settleOrAbort sv now r u m p g) = gw_log g"
  by (auto simp: settleOrAbort_def split: option.splits prod.splits)

lemma cache_Put_simps [simp]:
  "gw_acct (cache_Put sv now res e raw g) = gw_acct g" "gw_info (cache_Put sv now res e raw g) = gw_info g"
  "gw_writer (cache_Put sv now res e raw g) = gw_writer g" "gw_inflight (cache_Put sv now res e raw g) = gw_inflight g"
  "gw_metrics (cache_Put sv now res e raw g) = gw_metrics g" "gw_log (cache_Put sv now res e raw g) = gw_log g"
  by (auto simp: cache_Put_def split: prod.splits)

lemma streamLoop_keeps:
  "streamLoop idle evs fd tally g = Some (tally', g') \<Longrightarrow>
     gw_acct g' = gw_acct g \<and> gw_cache g' = gw_cache g \<and> gw_info g' = gw_info g \<and> gw_inflight g' = gw_inflight g \<and> gw_log g' = gw_log g
     \<and> tl_answered tally' = tl_answered tally \<and> tl_billed tally' = tl_billed tally"
  by (induction idle evs fd tally g rule: streamLoop.induct)
    (auto simp: Let_def split: if_splits option.splits prod.splits)

lemma serveCached_keeps:
  "serveCached res g = (ok, g') \<Longrightarrow> gw_acct g' = gw_acct g \<and> gw_cache g' = gw_cache g \<and> gw_inflight g' = gw_inflight g \<and> gw_log g' = gw_log g
     \<and> li_tenant (gw_info g') = li_tenant (gw_info g)"
  by (auto simp: serveCached_def Let_def split: option.splits if_splits prod.splits)

section \<open>Claims are closed once\<close>

text \<open>How a claim ends: given back, or settled at some usage.\<close>

definition closed_by :: "'a accountant \<Rightarrow> instant set \<Rightarrow> 'a \<Rightarrow> reservation option \<Rightarrow> 'a \<Rightarrow> bool" where
  "closed_by acc T a r a' = (case r of
       None \<Rightarrow> a' = a
     | Some x \<Rightarrow> \<exists>now \<in> T. a' = acc_Abort acc a now x \<or> (\<exists>u m p. a' = snd (acc_Settle acc a now x u m p)))"

definition request_times :: "schedule \<Rightarrow> instant set" where
  "request_times t = {at_begin t, at_answer t, at_end t}"

lemma settleOrAbort_closes:
  assumes "sv_accounting sv = Some acc" "now \<in> T"
  shows "closed_by acc T (gw_acct g) r (gw_acct (settleOrAbort sv now r u m p g))"
  using assms by (auto simp: settleOrAbort_def closed_by_def split: option.splits prod.splits) (metis snd_conv)

lemma serveChat_closes:
  assumes "serveChat sv t prov req r res g = Served g'" "sv_accounting sv = Some acc"
  shows "closed_by acc (request_times t) (gw_acct g) r (gw_acct g')"
proof -
  note s = settleOrAbort_closes [OF assms(2), of "at_answer t" "request_times t"]
  show ?thesis
    using assms(1) s [of g r None] s [of "meter _ (g\<lparr>gw_info := _\<rparr>)" r "Some _"]
    by (auto simp: serveChat_def Let_def request_times_def split: option.splits sum.splits)
qed

lemma settleStream_closes:
  assumes "sv_accounting sv = Some acc" "now \<in> T"
  shows "closed_by acc T (gw_acct g) r (gw_acct (settleStream sv now r res req tally g))"
proof -
  define g2 where "g2 = (let g1 = (case tl_lastUsage tally of None \<Rightarrow> g
        | Some u \<Rightarrow> meter (AddTokens (tl_answered tally) (PromptTokens u) (CompletionTokens u)) g) in
      if tl_completed tally then
        (case rec_entry (tl_recorder tally) now (tl_answered tally) (ReqModel req) (case tl_lastUsage tally of None \<Rightarrow> zero_usage | Some u \<Rightarrow> u) of
           None \<Rightarrow> g1 | Some e \<Rightarrow> cache_Put sv now res e (ReqRaw req) g1)
      else g1)"
  have "gw_acct g2 = gw_acct g" by (simp add: g2_def Let_def split: option.split)
  then show ?thesis
    using settleOrAbort_closes [OF assms, of g2 r "tl_lastUsage tally" "tl_billed tally" "tl_answered tally"]
    by (simp add: settleStream_def g2_def Let_def)
qed

lemma serveStream_closes:
  assumes "serveStream sv t prov req r res g = Served g'" "sv_accounting sv = Some acc"
  shows "closed_by acc (request_times t) (gw_acct g) r (gw_acct g')"
proof -
  note s = settleOrAbort_closes [OF assms(2), of _ "request_times t"]
  consider (refused) now m p f where "now \<in> request_times t" "g' = on_writer f (settleOrAbort sv now r None m p g)"
    | (streamed) reader tally' g2 where "g' = settleStream sv (at_end t) r res req tally' g2"
        "streamLoop (msToDuration (sv_StreamIdleTimeoutMS sv)) (events t) True (new_tally prov req reader)
           ((on_writer writeSSEHeaders g)\<lparr>gw_info := (gw_info g)\<lparr>li_provider := tl_answered (new_tally prov req reader)\<rparr>\<rparr>) = Some (tally', g2)"
    using assms(1) by (auto simp: serveStream_def Let_def request_times_def split: if_splits option.splits sum.splits prod.splits)
  then show ?thesis
  proof cases
    case refused
    with s show ?thesis by simp
  next
    case streamed
    then have "gw_acct g2 = gw_acct g" using streamLoop_keeps [OF streamed(2)] by simp
    with settleStream_closes [OF assms(2), of "at_end t" "request_times t" g2] streamed(1) show ?thesis
      by (simp add: request_times_def)
  qed
qed

text \<open>What a request to the chat endpoint did to the accountant.\<close>

definition settled_up :: "'a accountant \<Rightarrow> instant set \<Rightarrow> 'a \<Rightarrow> 'a \<Rightarrow> bool" where
  "settled_up acc T a a' \<longleftrightarrow> a' = a \<or> (\<exists>now \<in> T. \<exists>tenant model raw res a1. acc_Begin acc a now tenant model raw = (res, a1) \<and>
     (case res of Inl e \<Rightarrow> a' = a1 | Inr r \<Rightarrow> closed_by acc T a1 r a'))"

lemma reserveAndServe_settles_up:
  assumes "reserveAndServe sv t prov req res g = Served g'" "sv_accounting sv = Some acc"
  shows "settled_up acc (request_times t) (gw_acct g) (gw_acct g')"
proof -
  obtain b a where b: "acc_Begin acc (gw_acct g) (at_begin t) (li_tenant (gw_info g)) (ReqModel req) (ReqRaw req) = (b, a)"
    by fastforce
  have "case b of Inl e \<Rightarrow> gw_acct g' = a | Inr r \<Rightarrow> closed_by acc (request_times t) a r (gw_acct g')"
  proof (cases b)
    case (Inl e)
    then show ?thesis
      using assms b by (auto simp: reserveAndServe_def Let_def split: prod.splits option.splits)
  next
    case (Inr r)
    then have "(if ReqStream req then serveStream sv t prov req r res (g\<lparr>gw_acct := a\<rparr>)
        else serveChat sv t prov req r res (g\<lparr>gw_acct := a\<rparr>)) = Served g'"
      using assms b by (simp add: reserveAndServe_def Let_def)
    then show ?thesis
      using serveStream_closes [OF _ assms(2)] serveChat_closes [OF _ assms(2)] Inr by (fastforce split: if_splits)
  qed
  with b show ?thesis unfolding settled_up_def request_times_def by blast
qed

lemma chat_cases:
  assumes "handleChatCompletions sv t r g = out"
  obtains (refused) f i where "out = Served (on_writer f (g\<lparr>gw_info := i\<rparr>))" "li_tenant i = li_tenant (gw_info g)"
  | (looked_up) model stream prov cacheRes evs c ok g3 where
      "decode_envelope (rq_body r) = Some (model, stream)" "model \<noteq> []" "map_of (sv_routes sv) model = Some prov"
      "lookup_Get (gw_cache g) (sv_embedder sv) (at_lookup t) (li_tenant (gw_info g)) model (rq_body r) = (cacheRes, evs, c)"
      "serveCached cacheRes (g\<lparr>gw_info := (gw_info g)\<lparr>li_model := model, li_stream := stream, li_provider := prov_Name prov\<rparr>,
         gw_cache := c, gw_cacheEvents := gw_cacheEvents g @ evs\<rparr>) = (ok, g3)"
      "out = (if ok then Served g3
         else reserveAndServe sv t prov \<lparr>ReqModel = model, ReqStream = stream, ReqRaw = rq_body r\<rparr> cacheRes g3)"
proof -
  have self: "g = g\<lparr>gw_info := gw_info g\<rparr>" by simp
  show ?thesis
  proof (cases "maxBodyBytes < length (rq_body r) \<or> rq_readErr r \<or> decode_envelope (rq_body r) = None")
    case True
    then show ?thesis using assms refused [of _ "gw_info g"] by (auto simp: handleChatCompletions_def refuse_def split: if_splits)
  next
    case False
    then obtain model stream where d: "decode_envelope (rq_body r) = Some (model, stream)" by auto
    let ?g1 = "g\<lparr>gw_info := (gw_info g)\<lparr>li_model := model, li_stream := stream\<rparr>\<rparr>"
    show ?thesis
    proof (cases "model = [] \<or> map_of (sv_routes sv) model = None")
      case True
      then show ?thesis
        using assms False d refused [of _ "(gw_info g)\<lparr>li_model := model, li_stream := stream\<rparr>"]
        by (auto simp: handleChatCompletions_def refuse_def Let_def split: if_splits)
    next
      case routed: False
      then obtain prov where p: "map_of (sv_routes sv) model = Some prov" by auto
      obtain cacheRes evs c where l:
        "lookup_Get (gw_cache g) (sv_embedder sv) (at_lookup t) (li_tenant (gw_info g)) model (rq_body r) = (cacheRes, evs, c)"
        by (metis prod_cases3)
      obtain ok g3 where s: "serveCached cacheRes (g\<lparr>gw_info := (gw_info g)\<lparr>li_model := model, li_stream := stream, li_provider := prov_Name prov\<rparr>,
         gw_cache := c, gw_cacheEvents := gw_cacheEvents g @ evs\<rparr>) = (ok, g3)" by fastforce
      show ?thesis
        by (rule looked_up [OF d _ p l s])
          (use assms False d routed p l s in \<open>auto simp: handleChatCompletions_def Let_def split: bool.splits\<close>)
    qed
  qed
qed

lemma chat_settles_up:
  assumes "handleChatCompletions sv t r g = Served g'" "sv_accounting sv = Some acc"
  shows "settled_up acc (request_times t) (gw_acct g) (gw_acct g')"
  using assms(1)
proof (cases rule: chat_cases)
  case refused
  then show ?thesis by (auto simp: settled_up_def)
next
  case (looked_up model stream prov cacheRes evs c ok g3)
  have "gw_acct g3 = gw_acct g" using serveCached_keeps [OF looked_up(5)] by simp
  then show ?thesis
    using looked_up(6) reserveAndServe_settles_up [OF _ assms(2), of t prov _ cacheRes g3 g']
    by (cases ok) (auto simp: settled_up_def dest: sym)
qed

section \<open>Through the middleware\<close>

definition never_panics :: "provider \<Rightarrow> bool" where
  "never_panics p \<longleftrightarrow> (\<forall>b req. prov_Chat p b req \<noteq> None \<and> prov_ChatStream p b req \<noteq> None)"

text \<open>A handler that neither panics nor leaves a claim behind.\<close>

definition settles :: "'a accountant \<Rightarrow> instant set \<Rightarrow> 'a handler \<Rightarrow> bool" where
  "settles acc T h \<longleftrightarrow> (\<forall>g. case h g of Served g' \<Rightarrow> settled_up acc T (gw_acct g) (gw_acct g') | Panicked _ \<Rightarrow> False | Waiting \<Rightarrow> True)"

lemma settlesD: "settles acc T h \<Longrightarrow> h g = Served g' \<Longrightarrow> settled_up acc T (gw_acct g) (gw_acct g')"
  unfolding settles_def by (drule spec [of _ g]) simp

lemma settled_up_refl [simp]: "settled_up acc T a a"
  by (simp add: settled_up_def)

lemma chat_never_panics:
  assumes "\<forall>(m, p) \<in> set (sv_routes sv). never_panics p"
  shows "handleChatCompletions sv t r g \<noteq> Panicked g'"
proof
  assume "handleChatCompletions sv t r g = Panicked g'"
  then show False
  proof (cases rule: chat_cases)
    case (looked_up model stream prov cacheRes evs c ok g3)
    then have "never_panics prov" using assms by (force dest: map_of_SomeD)
    then have np: "prov_Chat prov b req \<noteq> None" "prov_ChatStream prov b req \<noteq> None" for b req unfolding never_panics_def by blast+
    show False
      using looked_up(6) by (cases "sv_accounting sv")
        (auto simp: reserveAndServe_def serveChat_def serveStream_def openStream_def np Let_def
          split: if_splits prod.splits sum.splits option.splits)
  qed simp
qed

lemma settles_mux:
  assumes "\<forall>(m, p) \<in> set (sv_routes sv). never_panics p" "sv_accounting sv = Some acc"
  shows "settles acc (request_times t) (mux sv t r)"
  using chat_settles_up [OF _ assms(2)] chat_never_panics [OF assms(1)]
  by (auto simp: settles_def mux_def handleModels_def handleHealthz_def split: served.splits)

lemma settles_deferred:
  assumes "settles acc T h" "\<And>g. gw_acct (f g) = gw_acct g" "\<And>g. gw_acct (k g) = gw_acct g"
  shows "settles acc T (\<lambda>g. deferred f (h (k g)))"
proof (unfold settles_def, intro allI)
  fix g show "case deferred f (h (k g)) of Served g' \<Rightarrow> settled_up acc T (gw_acct g) (gw_acct g') | Panicked _ \<Rightarrow> False | Waiting \<Rightarrow> True"
    using assms(1) [unfolded settles_def, rule_format, of "k g"] assms(2,3) by (cases "h (k g)") auto
qed

lemma settles_withLimit: assumes "settles acc T h" shows "settles acc T (withLimit h)"
proof (unfold settles_def, intro allI)
  fix g
  have "case deferred (\<lambda>g. g\<lparr>gw_inflight := limit_leave (gw_inflight g)\<rparr>) (h (g\<lparr>gw_inflight := f\<rparr>)) of
      Served g' \<Rightarrow> settled_up acc T (gw_acct g) (gw_acct g') | Panicked _ \<Rightarrow> False | Waiting \<Rightarrow> True" for f
    using settles_deferred [OF assms, of "\<lambda>g. g\<lparr>gw_inflight := limit_leave (gw_inflight g)\<rparr>" "\<lambda>g. g\<lparr>gw_inflight := f\<rparr>"]
    by (simp add: settles_def)
  with assms show "case withLimit h g of Served g' \<Rightarrow> settled_up acc T (gw_acct g) (gw_acct g') | Panicked _ \<Rightarrow> False | Waiting \<Rightarrow> True"
    by (auto simp: withLimit_def settles_def split: option.split)
qed

lemma settles_withAuth: assumes "settles acc T h" shows "settles acc T (withAuth sv r h)"
proof (unfold settles_def, intro allI)
  fix g
  have "case h (g\<lparr>gw_info := i\<rparr>) of Served g' \<Rightarrow> settled_up acc T (gw_acct g) (gw_acct g') | Panicked _ \<Rightarrow> False | Waiting \<Rightarrow> True" for i
    using assms [unfolded settles_def, rule_format, of "g\<lparr>gw_info := i\<rparr>"] by (cases "h (g\<lparr>gw_info := i\<rparr>)") auto
  with assms show "case withAuth sv r h g of Served g' \<Rightarrow> settled_up acc T (gw_acct g) (gw_acct g') | Panicked _ \<Rightarrow> False | Waiting \<Rightarrow> True"
    by (auto simp: withAuth_def settles_def split: option.split)
qed

lemma settles_withAccessLog: "settles acc T h \<Longrightarrow> settles acc T (withAccessLog t r h)"
  unfolding withAccessLog_def by (rule settles_deferred) (simp_all add: access_log_def Let_def)

lemma settles_Handler:
  assumes "\<forall>(m, p) \<in> set (sv_routes sv). never_panics p" "sv_accounting sv = Some acc"
  shows "settles acc (request_times t) (Handler sv t r)"
proof -
  have "settles acc (request_times t) (withAccessLog t r (withAuth sv r (withLimit (mux sv t r))))"
    by (intro settles_withAccessLog settles_withAuth settles_withLimit settles_mux assms)
  then show ?thesis unfolding settles_def Handler_def withRecovery_def by (auto split: served.splits)
qed

text \<open>Requests served one after another, each on a connection of its own.\<close>

fun serve_all :: "'a server \<Rightarrow> (schedule \<times> request \<times> writer) list \<Rightarrow> 'a gw \<Rightarrow> 'a gw option" where
  "serve_all sv [] g = Some g"
| "serve_all sv ((t, r, w) # rs) g = (case Handler sv t r (g\<lparr>gw_writer := w\<rparr>) of Served g' \<Rightarrow> serve_all sv rs g' | _ \<Rightarrow> None)"

section \<open>The accountant's contract\<close>

text \<open>What the gateway needs of an accountant: its operations are steps of a relation that tracks the claims held,
  an admission adds its claim, settlement and abort take it away, a refusal changes no claim.\<close>

locale claim_ledger =
  fixes acc :: "'a accountant"
    and acc_step :: "'a \<times> reservation list \<Rightarrow> 'a \<times> reservation list \<Rightarrow> bool"
    and in_window :: "instant \<Rightarrow> bool"
  assumes begin_denied: "in_window now \<Longrightarrow> acc_Begin acc a now t m raw = (Inl e, a') \<Longrightarrow> acc_step (a, rs) (a', rs)"
    and begin_free: "acc_Begin acc a now t m raw = (Inr None, a') \<Longrightarrow> a' = a"
    and begin_admitted: "in_window now \<Longrightarrow> acc_Begin acc a now t m raw = (Inr (Some r), a') \<Longrightarrow> acc_step (a, rs) (a', r # rs)"
    and settle_closes: "in_window now \<Longrightarrow> r \<in> set rs \<Longrightarrow>
      acc_step (a, rs) (snd (acc_Settle acc a now r u m p), filter (\<lambda>x. res_ID x \<noteq> res_ID r) rs)"
    and abort_closes: "in_window now \<Longrightarrow> r \<in> set rs \<Longrightarrow>
      acc_step (a, rs) (acc_Abort acc a now r, filter (\<lambda>x. res_ID x \<noteq> res_ID r) rs)"
begin

lemma settled_up_steps:
  assumes "settled_up acc T a a'" "\<forall>now \<in> T. in_window now"
  shows "\<exists>n \<le> 2. (acc_step ^^ n) (a, []) (a', [])"
proof -
  consider (same) "a' = a" | (denied) now t m raw e where "now \<in> T" "acc_Begin acc a now t m raw = (Inl e, a')"
    | (free) now t m raw where "acc_Begin acc a now t m raw = (Inr None, a')"
    | (claimed) now t m raw r a1 where "now \<in> T" "acc_Begin acc a now t m raw = (Inr (Some r), a1)" "closed_by acc T a1 (Some r) a'"
  proof (cases "a' = a")
    case False
    then obtain now t m raw res a1 where b: "now \<in> T" "acc_Begin acc a now t m raw = (res, a1)"
        "case res of Inl e \<Rightarrow> a' = a1 | Inr r \<Rightarrow> closed_by acc T a1 r a'"
      using assms(1) by (auto simp: settled_up_def)
    then show ?thesis using denied free claimed
      by (cases res; cases "projr res") (auto simp: closed_by_def)
  qed (rule same)
  then show ?thesis
  proof cases
    case same
    then show ?thesis by (intro exI [of _ 0]) simp
  next
    case denied
    with assms(2) begin_denied [of now a t m raw e a' "[]"] show ?thesis by (intro exI [of _ 1]) auto
  next
    case free
    from begin_free [OF this] show ?thesis by (intro exI [of _ 0]) simp
  next
    case claimed
    have "acc_step (a, []) (a1, [r])" using begin_admitted claimed(1,2) assms(2) by blast
    moreover have "acc_step (a1, [r]) (a', [])"
      using claimed(3) assms(2) settle_closes [of _ r "[r]" a1] abort_closes [of _ r "[r]" a1] by (auto simp: closed_by_def)
    ultimately show ?thesis by (intro exI [of _ 2]) (auto simp: numeral_2_eq_2)
  qed
qed

lemma requests_steps:
  assumes "serve_all sv rs g = Some g'" "sv_accounting sv = Some acc" "\<forall>(m, p) \<in> set (sv_routes sv). never_panics p"
    and "\<forall>(t, r, w) \<in> set rs. \<forall>now \<in> request_times t. in_window now"
  shows "\<exists>n \<le> 2 * length rs. (acc_step ^^ n) (gw_acct g, []) (gw_acct g', [])"
  using assms(1,4)
proof (induction rs arbitrary: g)
  case Nil
  then show ?case by (intro exI [of _ 0]) simp
next
  case (Cons q rs)
  obtain t r w where q: "q = (t, r, w)" by (cases q)
  obtain g1 where h: "Handler sv t r (g\<lparr>gw_writer := w\<rparr>) = Served g1" "serve_all sv rs g1 = Some g'"
    using Cons.prems(1) by (auto simp: q split: served.splits)
  have "settled_up acc (request_times t) (gw_acct g) (gw_acct g1)"
    using settlesD [OF settles_Handler [OF assms(3,2)] h(1)] by simp
  then obtain k where k: "k \<le> 2" "(acc_step ^^ k) (gw_acct g, []) (gw_acct g1, [])"
    using settled_up_steps [of "request_times t" "gw_acct g" "gw_acct g1"] Cons.prems(2) q by auto
  obtain n where n: "n \<le> 2 * length rs" "(acc_step ^^ n) (gw_acct g1, []) (gw_acct g', [])"
    using Cons.IH [OF h(2)] Cons.prems(2) by auto
  have "(acc_step ^^ (k + n)) (gw_acct g, []) (gw_acct g', [])"
    unfolding relpowp_add using k(2) n(2) by blast
  then show ?case using k(1) n(1) by (intro exI [of _ "k + n"]) simp
qed

end

section \<open>The guard as accountant\<close>

text \<open>\<^verbatim>\<open>budget.Guard\<close> behind the gateway's \<^verbatim>\<open>Accountant\<close> interface; every error of \<^verbatim>\<open>Begin\<close> is a denial.\<close>

definition guard_accountant :: "('s \<Rightarrow> spend_row \<Rightarrow> err option \<times> 's) \<Rightarrow> guard \<Rightarrow> 's accounts accountant" where
  "guard_accountant save g =
     \<lparr>acc_Begin = (\<lambda>a now t m raw. case Begin (Some g) a now t m raw of (Inl d, a') \<Rightarrow> (Inl (Inr d), a') | (Inr r, a') \<Rightarrow> (Inr r, a')),
      acc_Settle = (\<lambda>a now r u m p. case guard_Settle save (Some g) a now None (Some r) u m p of (usd, _, a') \<Rightarrow> (usd, a')),
      acc_Abort = (\<lambda>a now r. snd (Abort (Some g) a now (Some r)))\<rparr>"

interpretation guarded: claim_ledger "guard_accountant save g" "guard_step save g start" "\<lambda>now. start \<le> now \<and> now < start + monthlyWindow"
  for save g start
proof (unfold_locales, goal_cases)
  case (1 now a t m raw e a' rs)
  then show ?case by (auto simp: guard_accountant_def split: prod.splits sum.splits intro: guard_step.refused)
next
  case (2 a now t m raw a')
  then show ?case by (auto simp: guard_accountant_def Begin_def split: prod.splits sum.splits option.splits if_splits)
next
  case (3 now a t m raw r a' rs)
  then show ?case by (auto simp: guard_accountant_def split: prod.splits sum.splits intro: guard_step.admitted)
next
  case (4 now r rs a u m p)
  obtain usd errs a' where "guard_Settle save (Some g) a now None (Some r) u m p = (usd, errs, a')" by (metis prod_cases3)
  with 4 show ?case by (auto simp: guard_accountant_def intro: guard_step.settled)
next
  case (5 now r rs a)
  obtain errs a' where "Abort (Some g) a now (Some r) = (errs, a')" by fastforce
  with 5 show ?case by (auto simp: guard_accountant_def intro: guard_step.aborted)
qed


section \<open>Streams\<close>

text \<open>What the events of a stream make of the response when every write is accepted.\<close>

definition chunk_frame :: "stream_chunk \<Rightarrow> bytes" where
  "chunk_frame c = (if Keepalive c then sseKeepaliveFrame else writeSSEFrame (ChunkData c))"

definition data_of :: "stream_chunk list \<Rightarrow> bytes list" where
  "data_of cs = map ChunkData (filter (\<lambda>c. \<not> Keepalive c) cs)"

lemma Write_accepted:
  assumes "\<And>n. w_accepts w n"
  shows "fst (Write b w) = None" "w_body (snd (Write b w)) = w_body w @ b" "w_accepts (snd (Write b w)) = w_accepts w"
  using assms by (simp_all add: Write_def Let_def)

lemma Flush_simps [simp]: "w_body (Flush w) = w_body w" "w_accepts (Flush w) = w_accepts w"
  by (simp_all add: Flush_def)

lemma writeSSEFrame_accepted:
  assumes "\<And>n. w_accepts w n"
  shows "\<exists>w'. writeSSEFrame_to d w = (None, w') \<and> w_body w' = w_body w @ writeSSEFrame d \<and> w_accepts w' = w_accepts w"
proof -
  obtain w1 where 1: "Write ssePrefix w = (None, w1)" "w_body w1 = w_body w @ ssePrefix" "w_accepts w1 = w_accepts w"
    using Write_accepted [OF assms, of ssePrefix] by (cases "Write ssePrefix w") auto
  obtain w2 where 2: "Write d w1 = (None, w2)" "w_body w2 = w_body w1 @ d" "w_accepts w2 = w_accepts w"
    using Write_accepted [of w1 d] 1(3) assms by (cases "Write d w1") auto
  obtain w3 where 3: "Write sseTerminator w2 = (None, w3)" "w_body w3 = w_body w2 @ sseTerminator" "w_accepts w3 = w_accepts w"
    using Write_accepted [of w2 sseTerminator] 2(3) assms by (cases "Write sseTerminator w2") auto
  from 1 2 3 show ?thesis by (simp add: writeSSEFrame_to_def writeSSEFrame_def)
qed

lemma finishStream_accepted:
  assumes "\<And>n. w_accepts w n"
  shows "w_body (finishStream e w) = w_body w @ (if errors_Is e IoEOF then sseDoneFrame else writeSSEFrame truncated_frame)"
proof -
  obtain w' where "writeSSEFrame_to truncated_frame w = (None, w')" "w_body w' = w_body w @ writeSSEFrame truncated_frame"
    using writeSSEFrame_accepted [OF assms] by blast
  then show ?thesis using Write_accepted(2) [OF assms, of sseDoneFrame] by (simp add: finishStream_def)
qed

definition chunk_item :: "stream_chunk \<Rightarrow> wire_item" where
  "chunk_item c = (if Keepalive c then KeepAlive else Frame (ChunkData c))"

lemma streamLoop_relays:
  assumes "\<And>n. w_accepts (gw_writer g) n"
  shows "\<exists>tally' g'. streamLoop idle (map (\<lambda>(now, c). (now, EvRecv (Inr c))) cs @ (end, EvRecv (Inl e)) # rest) fd tally g = Some (tally', g')
    \<and> w_body (gw_writer g') = w_body (gw_writer g) @ wire (map (chunk_item \<circ> snd) cs)
        @ (if errors_Is e IoEOF then sseDoneFrame else writeSSEFrame truncated_frame)"
  using assms
proof (induction cs arbitrary: fd tally g)
  case Nil
  then show ?case by (simp add: wire_def finishStream_accepted)
next
  case (Cons p cs)
  obtain now c where p: "p = (now, c)" by (cases p)
  define tally1 where "tally1 = (case ChunkUsage c of None \<Rightarrow> tally | Some u \<Rightarrow> tally\<lparr>tl_lastUsage := Some u\<rparr>)"
  show ?case
  proof (cases "Keepalive c")
    case True
    obtain w where w: "Write sseKeepaliveFrame (gw_writer g) = (None, w)" "w_body w = w_body (gw_writer g) @ sseKeepaliveFrame"
        "w_accepts w = w_accepts (gw_writer g)"
      using Write_accepted [of "gw_writer g" sseKeepaliveFrame] Cons.prems by (cases "Write sseKeepaliveFrame (gw_writer g)") auto
    then show ?thesis using Cons.IH [of "g\<lparr>gw_writer := Flush w\<rparr>" fd tally1] Cons.prems True
      by (simp add: p tally1_def wire_def chunk_item_def Let_def)
  next
    case False
    define g1 where "g1 = (case li_start (gw_info g) of
        Some start \<Rightarrow> if fd then meter (ObserveTTFT (tl_answered tally) (time_Sub now start)) g else g | None \<Rightarrow> g)"
    have g1: "gw_writer g1 = gw_writer g" by (simp add: g1_def split: option.split)
    obtain w where w: "writeSSEFrame_to (ChunkData c) (gw_writer g) = (None, w)" "w_body w = w_body (gw_writer g) @ writeSSEFrame (ChunkData c)"
        "w_accepts w = w_accepts (gw_writer g)"
      using writeSSEFrame_accepted [of "gw_writer g"] Cons.prems by blast
    then show ?thesis
      using Cons.IH [of "g1\<lparr>gw_writer := Flush w\<rparr>" False "tally1\<lparr>tl_recorder := rec_add (ChunkData c) (tl_recorder tally1)\<rparr>"] Cons.prems False g1
      by (simp add: p tally1_def [symmetric] g1_def [symmetric] wire_def chunk_item_def Let_def)
  qed
qed

lemma frameable_truncated: "frameable truncated_frame"
  by code_simp

lemma settleStream_writer [simp]: "gw_writer (settleStream sv now r res req tally g) = gw_writer g"
  by (simp add: settleStream_def Let_def split: option.split)


section \<open>What is remembered\<close>

text \<open>The chunks among a list of events.\<close>

definition received :: "(instant \<times> stream_event) list \<Rightarrow> stream_chunk list" where
  "received evs = concat (map (\<lambda>(_, ev). case ev of EvRecv (Inr c) \<Rightarrow> [c] | _ \<Rightarrow> []) evs)"

lemma data_of_Cons: "data_of (c # cs) = (if Keepalive c then data_of cs else ChunkData c # data_of cs)"
  by (simp add: data_of_def)

lemma received_simps [simp]:
  "received [] = []" "received ((now, EvRecv (Inr c)) # evs) = c # received evs" "received ((now, EvIdle) # evs) = received evs"
  by (simp_all add: received_def)

lemma streamLoop_chunk:
  assumes "streamLoop idle ((now, EvRecv (Inr c)) # evs) fd tally g = Some (tally', g')"
  shows "tl_completed tally' = tl_completed tally \<or>
    (\<exists>fd' tally2 g2. streamLoop idle evs fd' tally2 g2 = Some (tally', g') \<and> tl_completed tally2 = tl_completed tally
       \<and> tl_recorder tally2 = fold rec_add (data_of [c]) (tl_recorder tally))"
proof -
  define tally1 where "tally1 = (case ChunkUsage c of None \<Rightarrow> tally | Some u \<Rightarrow> tally\<lparr>tl_lastUsage := Some u\<rparr>)"
  have t1: "tl_recorder tally1 = tl_recorder tally" "tl_completed tally1 = tl_completed tally"
    by (auto simp: tally1_def split: option.split)
  show ?thesis
  proof (cases "Keepalive c")
    case True
    with assms t1 show ?thesis
      by (auto simp: Let_def tally1_def [symmetric] data_of_def split: prod.splits option.splits)
  next
    case False
    define g1 where "g1 = (case li_start (gw_info g) of
        Some start \<Rightarrow> if fd then meter (ObserveTTFT (tl_answered tally) (time_Sub now start)) g else g | None \<Rightarrow> g)"
    obtain we w where w: "writeSSEFrame_to (ChunkData c) (gw_writer g1) = (we, w)" by fastforce
    with assms False have "(case we of Some _ \<Rightarrow> Some (tally1, g1\<lparr>gw_writer := w\<rparr>)
        | None \<Rightarrow> streamLoop idle evs False (tally1\<lparr>tl_recorder := rec_add (ChunkData c) (tl_recorder tally1)\<rparr>) (g1\<lparr>gw_writer := Flush w\<rparr>)) = Some (tally', g')"
      by (simp add: Let_def tally1_def g1_def cong: option.case_cong)
    with t1 False show ?thesis
      by (cases we) (auto simp: data_of_def intro!: exI [of _ False] exI [of _ "g1\<lparr>gw_writer := Flush w\<rparr>"])
  qed
qed

lemma streamLoop_completed:
  assumes "streamLoop idle evs fd tally g = Some (tally', g')" "tl_completed tally'" "\<not> tl_completed tally"
  shows "\<exists>pre end e rest. evs = pre @ (end, EvRecv (Inl e)) # rest \<and> errors_Is e IoEOF
    \<and> tl_recorder tally' = fold rec_add (data_of (received pre)) (tl_recorder tally)"
  using assms
proof (induction evs arbitrary: fd tally g)
  case (Cons p evs)
  obtain now ev where p: "p = (now, ev)" by (cases p)
  have step: ?case if "streamLoop idle evs fd' tally2 g2 = Some (tally', g')" "\<not> tl_completed tally2"
    "tl_recorder tally2 = fold rec_add (data_of (received [p])) (tl_recorder tally)" for fd' tally2 g2
  proof -
    note hyp = that
    obtain pre end' e rest where r: "evs = pre @ (end', EvRecv (Inl e)) # rest" "errors_Is e IoEOF"
      "tl_recorder tally' = fold rec_add (data_of (received pre)) (tl_recorder tally2)"
      using Cons.IH [OF hyp(1) Cons.prems(2) hyp(2)] by blast
    have "data_of (received (p # pre)) = data_of (received [p]) @ data_of (received pre)" by (simp add: received_def data_of_def)
    with r hyp(3) show ?thesis
      by (intro exI [of _ "p # pre"] exI [of _ end'] exI [of _ e] exI [of _ rest]) simp
  qed
  consider (err) e where "ev = EvRecv (Inl e)" | (chunk) c where "ev = EvRecv (Inr c)" | (idle) "ev = EvIdle" | (gone) "ev = EvCtxDone"
    by (metis stream_event.exhaust sum.exhaust)
  then show ?case
  proof cases
    case err
    with Cons.prems p show ?thesis by (intro exI [of _ "[]"]) (auto simp: data_of_def)
  next
    case chunk
    with streamLoop_chunk [of idle now c evs fd tally g tally' g'] Cons.prems p obtain fd' tally2 g2 where
      "streamLoop idle evs fd' tally2 g2 = Some (tally', g')" "\<not> tl_completed tally2"
      "tl_recorder tally2 = fold rec_add (data_of [c]) (tl_recorder tally)" by auto
    with step chunk p show ?thesis by simp
  next
    case idle
    with Cons.prems p have "0 < idle \<or> streamLoop idle evs fd tally g = Some (tally', g')" by (auto split: if_splits)
    with step [of fd tally g] Cons.prems p idle show ?thesis by (auto simp: data_of_def split: if_splits)
  qed (use Cons.prems p in auto)
qed simp

lemma recorded:
  "let rec = fold rec_add ds \<lparr>rec_frames = [], rec_bytes = 0, rec_dropped = False\<rparr> in
     \<not> rec_dropped rec \<longrightarrow> rec_frames rec = ds \<and> rec_bytes rec = length (concat ds) \<and> rec_bytes rec \<le> maxCachedStreamBytes"
  by (induction ds rule: rev_induct) (auto simp: rec_add_def Let_def)

text \<open>(C12) Only a finished stream is remembered, and remembered whole. If serving a stream changed the cache, the
  upstream had signalled a clean end, and what was stored are exactly the payloads received before it, in order,
  at most the recorder's ceiling in all, under the key the lookup had built.\<close>

theorem only_whole_streams_are_cached:
  assumes "serveStream sv t prov req r res g = Served g'" "gw_cache g' \<noteq> gw_cache g"
  shows "\<exists>pre end e rest entry. events t = pre @ (end, EvRecv (Inl e)) # rest \<and> errors_Is e IoEOF
    \<and> ce_Frames entry = data_of (received pre) \<and> ce_Frames entry \<noteq> [] \<and> length (concat (ce_Frames entry)) \<le> maxCachedStreamBytes
    \<and> gw_cache g' = snd (lookup_Put (gw_cache g) (sv_embedder sv) (at_end t) res (Some entry) (ReqRaw req))"
proof -
  obtain reader tally' g2 where g': "g' = settleStream sv (at_end t) r res req tally' g2"
    and l: "streamLoop (msToDuration (sv_StreamIdleTimeoutMS sv)) (events t) True (new_tally prov req reader)
       ((on_writer writeSSEHeaders g)\<lparr>gw_info := (gw_info g)\<lparr>li_provider := tl_answered (new_tally prov req reader)\<rparr>\<rparr>) = Some (tally', g2)"
    using assms by (auto simp: serveStream_def Let_def split: if_splits option.splits sum.splits prod.splits)
  have c: "gw_cache g2 = gw_cache g" using streamLoop_keeps [OF l] by simp
  obtain entry where comp: "tl_completed tally'" and e: "rec_entry (tl_recorder tally') (at_end t) (tl_answered tally') (ReqModel req)
        (case tl_lastUsage tally' of None \<Rightarrow> zero_usage | Some u \<Rightarrow> u) = Some entry"
    and p: "gw_cache g' = snd (lookup_Put (gw_cache g) (sv_embedder sv) (at_end t) res (Some entry) (ReqRaw req))"
    using assms(2) c by (auto simp: g' settleStream_def cache_Put_def Let_def split: option.splits if_splits prod.splits)
  from streamLoop_completed [OF l comp] obtain pre end' er rest where ev: "events t = pre @ (end', EvRecv (Inl er)) # rest" "errors_Is er IoEOF"
    "tl_recorder tally' = fold rec_add (data_of (received pre)) \<lparr>rec_frames = [], rec_bytes = 0, rec_dropped = False\<rparr>"
    by (auto simp: new_tally_def)
  have "ce_Frames entry = rec_frames (tl_recorder tally')" "ce_Frames entry \<noteq> []" "\<not> rec_dropped (tl_recorder tally')"
    using e by (auto simp: rec_entry_def split: if_splits)
  moreover from this recorded [of "data_of (received pre)"] ev(3)
  have "ce_Frames entry = data_of (received pre)" "length (concat (ce_Frames entry)) \<le> maxCachedStreamBytes" by (auto simp: Let_def)
  ultimately show ?thesis using ev(1,2) p by blast
qed

section \<open>Answers from the cache\<close>

lemma replayFrames_accepted:
  "(\<And>n. w_accepts w n) \<Longrightarrow> w_body (replayFrames fs w) = w_body w @ wire (map Frame fs) @ sseDoneFrame"
proof (induction fs arbitrary: w)
  case Nil
  then show ?case using Write_accepted(2) by (simp add: wire_def)
next
  case (Cons f fs)
  obtain w1 where "writeSSEFrame_to f w = (None, w1)" "w_body w1 = w_body w @ writeSSEFrame f" "w_accepts w1 = w_accepts w"
    using writeSSEFrame_accepted [of w] Cons.prems by blast
  with Cons.IH [of "Flush w1"] Cons.prems show ?case by (simp add: wire_def)
qed

text \<open>A chat request that gets as far as the cache.\<close>

definition routed :: "'a server \<Rightarrow> request \<Rightarrow> string \<Rightarrow> bool \<Rightarrow> provider \<Rightarrow> bool" where
  "routed sv r model stream prov \<longleftrightarrow> length (rq_body r) \<le> maxBodyBytes \<and> \<not> rq_readErr r \<and> decode_envelope (rq_body r) = Some (model, stream)
     \<and> model \<noteq> [] \<and> map_of (sv_routes sv) model = Some prov"

lemma routed_chat:
  assumes "routed sv r model stream prov"
    and "lookup_Get (gw_cache g) (sv_embedder sv) (at_lookup t) (li_tenant (gw_info g)) model (rq_body r) = (res, evs, c)"
    and "serveCached res (g\<lparr>gw_info := (gw_info g)\<lparr>li_model := model, li_stream := stream, li_provider := prov_Name prov\<rparr>,
         gw_cache := c, gw_cacheEvents := gw_cacheEvents g @ evs\<rparr>) = (ok, g3)"
  shows "handleChatCompletions sv t r g = (if ok then Served g3
    else reserveAndServe sv t prov \<lparr>ReqModel = model, ReqStream = stream, ReqRaw = rq_body r\<rparr> res g3)"
  using assms by (auto simp: routed_def handleChatCompletions_def Let_def split: bool.split)

text \<open>An answer from the cache costs nothing and is the answer that was stored. When the lookup finds an entry
  that fits the request, the request is served from it without consulting the accountant or the provider, however
  the tenant's budget stands, and the body is the stored body, or the stored frames and the end marker.\<close>

theorem cached_answer_moves_no_money:
  assumes "routed sv r model stream prov"
    and "lookup_Get (gw_cache g) (sv_embedder sv) (at_lookup t) (li_tenant (gw_info g)) model (rq_body r) = (res, evs, c)"
    and "res_Entry res = Some e" "stream \<longrightarrow> Streamed e \<and> flusherFor (gw_writer g)"
    and "\<And>n. w_accepts (gw_writer g) n" "w_body (gw_writer g) = []"
  shows "\<exists>g'. handleChatCompletions sv t r g = Served g' \<and> gw_acct g' = gw_acct g \<and> gw_cache g' = c
    \<and> w_body (gw_writer g') = (if stream then wire (map Frame (ce_Frames e)) @ sseDoneFrame else ce_Body e)"
proof -
  let ?g = "g\<lparr>gw_info := (gw_info g)\<lparr>li_model := model, li_stream := stream, li_provider := prov_Name prov\<rparr>,
         gw_cache := c, gw_cacheEvents := gw_cacheEvents g @ evs\<rparr>"
  obtain ok g3 where s: "serveCached res ?g = (ok, g3)" by fastforce
  have "ok" "gw_acct g3 = gw_acct g" "gw_cache g3 = c"
    using s assms(3,4) serveCached_keeps [OF s]
    by (auto simp: serveCached_def replayStream_def flusherFor_def Let_def split: if_splits)
  moreover have "w_body (gw_writer g3) = (if stream then wire (map Frame (ce_Frames e)) @ sseDoneFrame else ce_Body e)"
  proof (cases stream)
    case True
    with s assms(3,4) have "gw_writer g3 = replayFrames (ce_Frames e)
        (Flush (WriteHeader 200 (header_set headerCacheStatus (cacheStatusOf res)
          (header_set ''X-Content-Type-Options'' ''nosniff'' (header_set ''Connection'' ''keep-alive''
            (header_set ''Cache-Control'' ''no-cache'' (header_set ''Content-Type'' ''text/event-stream'' (gw_writer g))))))))"
      by (auto simp: serveCached_def replayStream_def flusherFor_def Let_def)
    with True assms(5,6) show ?thesis
      by (simp add: replayFrames_accepted WriteHeader_def header_set_def)
  next
    case False
    with s assms(3) have "gw_writer g3 = snd (Write (ce_Body e) (WriteHeader 200 (header_set headerCacheStatus (cacheStatusOf res)
            (header_set ''X-Content-Type-Options'' ''nosniff'' (header_set ''Content-Type'' ContentTypeJSON (gw_writer g))))))"
      by (auto simp: serveCached_def Let_def)
    with False assms(5,6) show ?thesis by (simp add: Write_def WriteHeader_def header_set_def Let_def)
  qed
  ultimately show ?thesis using routed_chat [OF assms(1,2) s] by simp
qed

section \<open>Where the code falls short\<close>

text \<open>(C35) A recorded stream answers a plain request with nothing. The recorder keeps frames and no body, and the
  cache key does not tell a stream from a plain request, so once a stream was recorded the same question without
  streaming is answered 200 with an empty body.\<close>

theorem recorded_stream_answers_with_nothing:
  assumes "routed sv r model False prov"
    and "lookup_Get (gw_cache g) (sv_embedder sv) (at_lookup t) (li_tenant (gw_info g)) model (rq_body r) = (res, evs, c)"
    and "rec_entry rec now p m u = Some e0" "res_Entry res = Some (stamped now e0)"
    and "w_sent (gw_writer g) = None" "w_body (gw_writer g) = []"
  shows "\<exists>g' h. handleChatCompletions sv t r g = Served g' \<and> w_sent (gw_writer g') = Some (200, h) \<and> w_body (gw_writer g') = []"
proof -
  obtain ok g3 where s: "serveCached res (g\<lparr>gw_info := (gw_info g)\<lparr>li_model := model, li_stream := False, li_provider := prov_Name prov\<rparr>,
         gw_cache := c, gw_cacheEvents := gw_cacheEvents g @ evs\<rparr>) = (ok, g3)" by fastforce
  have "ce_Body (stamped now e0) = []" using assms(3) by (auto simp: rec_entry_def stamped_def split: if_splits)
  then have "ok" "w_body (gw_writer g3) = []" "\<exists>h. w_sent (gw_writer g3) = Some (200, h)"
    using s assms(4-6) by (auto simp: serveCached_def Write_def WriteHeader_def header_set_def Let_def)
  with routed_chat [OF assms(1,2) s] show ?thesis by auto
qed

text \<open>A live call can be logged as cached. When a stream is asked for and the entry found was never one, the
  handler goes on to claim budget and call the provider, but the access log's note already says cached and the
  entry's tokens are already counted.\<close>

theorem refused_replay_is_logged_as_cached:
  assumes "routed sv r model True prov"
    and "lookup_Get (gw_cache g) (sv_embedder sv) (at_lookup t) (li_tenant (gw_info g)) model (rq_body r) = (res, evs, c)"
    and "res_Entry res = Some e" "\<not> Streamed e"
  shows "\<exists>g3. handleChatCompletions sv t r g = reserveAndServe sv t prov \<lparr>ReqModel = model, ReqStream = True, ReqRaw = rq_body r\<rparr> res g3
    \<and> li_cached (gw_info g3) \<and> gw_metrics g3 = gw_metrics g @ [AddTokens (ce_Provider e) (PromptTokens (ce_Usage e)) (CompletionTokens (ce_Usage e))]"
proof -
  obtain ok g3 where s: "serveCached res (g\<lparr>gw_info := (gw_info g)\<lparr>li_model := model, li_stream := True, li_provider := prov_Name prov\<rparr>,
         gw_cache := c, gw_cacheEvents := gw_cacheEvents g @ evs\<rparr>) = (ok, g3)" by fastforce
  have "\<not> ok" "li_cached (gw_info g3)"
      "gw_metrics g3 = gw_metrics g @ [AddTokens (ce_Provider e) (PromptTokens (ce_Usage e)) (CompletionTokens (ce_Usage e))]"
    using s assms(3,4) by (auto simp: serveCached_def replayStream_def Let_def split: if_splits)
  with routed_chat [OF assms(1,2) s] show ?thesis by auto
qed


text \<open>A request that panics is logged as a success. The access log is written while the panic unwinds, before the
  recovery above it answers 500, and a status nobody wrote reads as 200; a claim taken before the panic stays open.\<close>

theorem panic_is_logged_as_success:
  assumes "withAuth sv r (withLimit (mux sv t r))
      (g\<lparr>gw_info := no_info\<lparr>li_start := Some (at_start t)\<rparr>, gw_writer := newStatusWriter (gw_writer g)\<rparr>) = Panicked g1"
    and "w_status (gw_writer g1) = Some 0" "w_sent (gw_writer g1) = None"
  shows "\<exists>g' h. Handler sv t r g = Served g' \<and> ll_status (last (gw_log g')) = 200 \<and> w_sent (gw_writer g') = Some (500, h)
    \<and> gw_acct g' = gw_acct g1"
  using assms by (simp add: Handler_def withRecovery_def withAccessLog_def access_log_def Let_def Status_def
      WriteError_def WriteJSON_def Write_def WriteHeader_def header_set_def)

section \<open>Witnesses\<close>

definition demo_save :: "nat \<Rightarrow> spend_row \<Rightarrow> err option \<times> nat" where "demo_save s row = (None, s)"

definition demo_provider :: provider where
  "demo_provider = \<lparr>prov_Name = ''p'',
     prov_Chat = (\<lambda>_ req. Some (Inr \<lparr>RespModel = ReqModel req, RespProvider = ''p'', RespBody = ''{}'',
       RespUsage = \<lparr>PromptTokens = 1, CompletionTokens = 1, TotalTokens = 2\<rparr>\<rparr>)),
     prov_ChatStream = (\<lambda>_ _. Some (Inr AdapterReader))\<rparr>"

definition demo_server :: "'a accountant option \<Rightarrow> 'a server" where
  "demo_server acc = \<lparr>sv_UpstreamTimeoutMS = 0, sv_StreamIdleTimeoutMS = 0, sv_routes = [(''m'', demo_provider)],
     sv_clientKeys = no_keys, sv_accounting = acc, sv_embedder = None\<rparr>"

definition demo_request :: "bytes \<Rightarrow> request" where
  "demo_request body = \<lparr>rq_method = ''POST'', rq_path = chatPath, rq_authorization = [], rq_body = body, rq_readErr = False\<rparr>"

definition demo_plain :: bytes where
  "demo_plain = ''{'' @ quote_field ''model'' @ '':'' @ quote_field ''m'' @ ''}''"

definition demo_streaming :: bytes where
  "demo_streaming = ''{'' @ quote_field ''model'' @ '':'' @ quote_field ''m'' @ '','' @ quote_field ''stream'' @ '':true}''"

definition demo_schedule :: "(instant \<times> stream_event) list \<Rightarrow> schedule" where
  "demo_schedule evs = \<lparr>at_start = 0, at_lookup = 0, at_begin = 0, at_answer = 1, at_end = 2, headerTimedOut = False, events = evs\<rparr>"

definition demo_gw :: "'a \<Rightarrow> lookup_state option \<Rightarrow> 'a gw" where
  "demo_gw a c = \<lparr>gw_writer = fresh_writer, gw_info = no_info, gw_metrics = [], gw_acct = a, gw_cache = c, gw_cacheEvents = [],
     gw_inflight = newInflight 1, gw_log = []\<rparr>"

lemma demo_envelopes: "decode_envelope demo_plain = Some (''m'', False)" "decode_envelope demo_streaming = Some (''m'', True)"
  by code_simp+

lemma demo_routed: "routed (demo_server acc) (demo_request demo_plain) ''m'' False demo_provider"
    "routed (demo_server acc) (demo_request demo_streaming) ''m'' True demo_provider"
  by (simp_all add: routed_def demo_server_def demo_request_def demo_envelopes maxBodyBytes_def, simp_all add: demo_plain_def demo_streaming_def quote_field_def)

lemma demo_never_panics: "\<forall>(m, p) \<in> set (sv_routes (demo_server acc)). never_panics p"
  by (simp add: demo_server_def never_panics_def demo_provider_def)

lemma plain_chat_is_served:
  assumes "routed sv r model False prov" "never_panics prov"
  shows "\<exists>g'. handleChatCompletions sv t r g = Served g'"
proof -
  obtain res evs c where l: "lookup_Get (gw_cache g) (sv_embedder sv) (at_lookup t) (li_tenant (gw_info g)) model (rq_body r) = (res, evs, c)"
    by (metis prod_cases3)
  obtain ok g3 where s: "serveCached res (g\<lparr>gw_info := (gw_info g)\<lparr>li_model := model, li_stream := False, li_provider := prov_Name prov\<rparr>,
         gw_cache := c, gw_cacheEvents := gw_cacheEvents g @ evs\<rparr>) = (ok, g3)" by fastforce
  have np: "prov_Chat prov b req \<noteq> None" for b req using assms(2) unfolding never_panics_def by blast
  show ?thesis unfolding routed_chat [OF assms(1) l s]
    by (auto simp: reserveAndServe_def serveChat_def np Let_def split: option.splits sum.splits prod.splits)
qed

lemma served_through:
  assumes "\<And>g. \<exists>g'. mux sv t r g = Served g'" "gw_inflight g = newInflight 1" "sv_clientKeys sv = no_keys"
  shows "\<exists>g'. Handler sv t r g = Served g'"
proof -
  obtain g1 where g1: "mux sv t r (g\<lparr>gw_info := no_info\<lparr>li_start := Some (at_start t)\<rparr>, gw_writer := newStatusWriter (gw_writer g),
      gw_inflight := (newInflight 1)\<lparr>slots_used := 1\<rparr>\<rparr>) = Served g1" using assms(1) by blast
  have "slots (newInflight 1) = Some 1" "limit_enter (newInflight 1) = Some ((newInflight 1)\<lparr>slots_used := 1\<rparr>)"
    by (simp_all add: newInflight_def limit_enter_def)
  with g1 assms(2,3) show ?thesis
    by (simp add: Handler_def withRecovery_def withAccessLog_def withAuth_def authenticate_def key_empty_def no_keys_def withLimit_def)
qed

lemma demo_is_served:
  "\<exists>g'. serve_all (demo_server (Some (guard_accountant demo_save demo_guard))) [(demo_schedule [], demo_request demo_plain, fresh_writer)]
      (demo_gw \<lparr>a_enf = NewEnforcer demo_store_limits, a_db = 0, a_ledger = FileLedger []\<rparr> None) = Some g'"
proof -
  let ?sv = "demo_server (Some (guard_accountant demo_save demo_guard))"
  let ?g = "demo_gw \<lparr>a_enf = NewEnforcer demo_store_limits, a_db = 0, a_ledger = FileLedger []\<rparr> None"
  have m: "\<exists>g'. mux ?sv (demo_schedule []) (demo_request demo_plain) g = Served g'" for g
    using plain_chat_is_served [OF demo_routed(1)] demo_never_panics [of "Some (guard_accountant demo_save demo_guard)"]
    by (simp add: mux_def demo_request_def demo_server_def)
  have "\<exists>g'. Handler ?sv (demo_schedule []) (demo_request demo_plain) (?g\<lparr>gw_writer := fresh_writer\<rparr>) = Served g'"
    by (rule served_through) (use m in \<open>auto simp: demo_gw_def demo_server_def\<close>)
  then show ?thesis by auto
qed



text \<open>A cacheable question, asked plainly and as a stream.\<close>

definition ask_plain :: bytes where
  "ask_plain = ''{'' @ quote_field ''model'' @ '':'' @ quote_field ''m'' @ '','' @ quote_field ''temperature'' @ '':0}''"

definition ask_stream :: bytes where
  "ask_stream = ''{'' @ quote_field ''model'' @ '':'' @ quote_field ''m'' @ '','' @ quote_field ''temperature'' @ '':0,'' @ quote_field ''stream'' @ '':true}''"

lemma ask_envelopes: "decode_envelope ask_plain = Some (''m'', False)" "decode_envelope ask_stream = Some (''m'', True)"
  by code_simp+

lemma ask_routed: "routed (demo_server acc) (demo_request ask_plain) ''m'' False demo_provider"
    "routed (demo_server acc) (demo_request ask_stream) ''m'' True demo_provider"
  by (simp_all add: routed_def demo_server_def demo_request_def ask_envelopes maxBodyBytes_def, simp_all add: ask_plain_def ask_stream_def quote_field_def)

lemma ask_question: "question ask_plain = Inr [(''model'', JStr ''m''), (''temperature'', JNum ''0'')]"
    "question ask_stream = Inr [(''model'', JStr ''m''), (''temperature'', JNum ''0'')]"
  by code_simp+

lemma ask_parse: "json_parse ask_plain = Some (JObj [(''model'', JStr ''m''), (''temperature'', JNum ''0'')])"
    "json_parse ask_stream = Some (JObj [(''model'', JStr ''m''), (''temperature'', JNum ''0''), (''stream'', JBool True)])"
  by code_simp+

lemma plain_question_is_eligible:
  assumes "json_parse raw = Some (JObj ms)" "field_values ''temperature'' ms = [JNum ''0'']"
    and "field_values ''n'' ms = []" "field_values ''top_p'' ms = []" "field_values ''seed'' ms = []" "field_values ''logprobs'' ms = []"
    and "raw_field ''tools'' raw = []" "raw_field ''tool_choice'' raw = []" "raw_field ''functions'' raw = []" "raw_field ''function_call'' raw = []"
  shows "Cacheable (Eligible raw 0)"
proof -
  have "hasContent [] = False" by code_simp
  with assms show ?thesis
    by (simp add: Eligible_def decode_shape_def as_object_def decode_pointer_def as_float_0)
qed

lemma ask_raw_fields: "raw_fields ask_plain = [(''model'', quote_field ''m''), (''temperature'', ''0'')]"
    "raw_fields ask_stream = [(''model'', quote_field ''m''), (''temperature'', ''0''), (''stream'', ''true'')]"
  by code_simp+

lemma folded_names:
  "foldName ''tools'' = ''TOOLS''" "foldName ''tool_choice'' = ''TOOL_CHOICE''" "foldName ''functions'' = ''FUNCTIONS''"
  "foldName ''function_call'' = ''FUNCTION_CALL''" "foldName ''model'' = ''MODEL''" "foldName ''temperature'' = ''TEMPERATURE''"
  "foldName ''stream'' = ''STREAM''" "foldName ''n'' = ''N''" "foldName ''top_p'' = ''TOP_P''" "foldName ''seed'' = ''SEED''"
  "foldName ''logprobs'' = ''LOGPROBS''"
  by code_simp+

lemma ask_eligible: "Cacheable (Eligible ask_plain 0)" "Cacheable (Eligible ask_stream 0)"
  by (rule plain_question_is_eligible [OF ask_parse(1)]; simp add: raw_field_def ask_raw_fields field_values_def folded_names del: foldName.simps)
    (rule plain_question_is_eligible [OF ask_parse(2)]; simp add: raw_field_def ask_raw_fields field_values_def folded_names del: foldName.simps)

definition ask_key :: cache_key where
  "ask_key = \<lparr>key_Tenant = [], key_Model = ''m'', key_Hash = hex_EncodeToString (Sum256 (key_preimage ''m''
     (encode (JObj [(''model'', JStr ''m''), (''temperature'', JNum ''0'')]))))\<rparr>"

lemma ask_BuildKey: "BuildKey [] ''m'' ask_plain = Inr ask_key" "BuildKey [] ''m'' ask_stream = Inr ask_key"
  by (simp_all add: BuildKey_def canonicalize_def ask_question ask_key_def)

lemma ask_hit:
  assumes "raw = ask_plain \<or> raw = ask_stream"
  shows "\<exists>res evs c. lookup_Get (Some (demo_lookup [CPut 0 ask_key e])) None 0 [] ''m'' raw = (res, evs, c) \<and> res_Entry res = Some (stamped 0 e)"
proof -
  have hit: "fst (Get (exact_run (NewExact 2 10) ([] @ CPut 0 ask_key e # [])) 0 ask_key) = Some (stamped 0 e)"
    by (rule exact_tier.put_is_kept [OF represents_new]) (auto simp: NewExact_def)
  obtain evs c where g: "Get (exact_run (NewExact 2 10) [CPut 0 ask_key e]) 0 ask_key = (Some (stamped 0 e), evs, c)"
    using hit by (metis append_Nil prod.collapse)
  show ?thesis
    using assms g ask_eligible ask_BuildKey by (auto simp: lookup_Get_def demo_lookup_def no_result_def Let_def)
qed

lemma demo_gw_simps [simp]:
  "gw_cache (demo_gw a c) = c" "gw_info (demo_gw a c) = no_info" "gw_acct (demo_gw a c) = a" "gw_writer (demo_gw a c) = fresh_writer"
  "gw_metrics (demo_gw a c) = []" "li_tenant no_info = []" "sv_embedder (demo_server acc) = None" "rq_body (demo_request b) = b"
  "at_lookup (demo_schedule evs) = 0" "w_accepts fresh_writer n" "w_body fresh_writer = []" "w_sent fresh_writer = None" "flusherFor fresh_writer"
  by (simp_all add: demo_gw_def no_info_def demo_server_def demo_request_def demo_schedule_def fresh_writer_def flusherFor_def)

theorem cached_answer_moves_no_money_witness:
  "\<exists>g'. handleChatCompletions (demo_server None) (demo_schedule []) (demo_request ask_plain) (demo_gw (7 :: nat) (Some (demo_lookup [CPut 0 ask_key demo_answer]))) = Served g'
    \<and> gw_acct g' = 7 \<and> w_body (gw_writer g') = ce_Body demo_answer"
proof -
  obtain res evs c where l: "lookup_Get (Some (demo_lookup [CPut 0 ask_key demo_answer])) None 0 [] ''m'' ask_plain = (res, evs, c)"
    "res_Entry res = Some (stamped 0 demo_answer)" using ask_hit by blast
  from cached_answer_moves_no_money [OF ask_routed(1), of "demo_gw (7 :: nat) (Some (demo_lookup [CPut 0 ask_key demo_answer]))" None "demo_schedule []" res evs c]
  show ?thesis using l by (auto simp: stamped_def split: if_splits)
qed

theorem recorded_stream_answers_with_nothing_witness:
  "\<exists>e g' h. rec_entry \<lparr>rec_frames = [''x''], rec_bytes = 1, rec_dropped = False\<rparr> 0 ''p'' ''m'' zero_usage = Some e
    \<and> handleChatCompletions (demo_server None) (demo_schedule []) (demo_request ask_plain) (demo_gw () (Some (demo_lookup [CPut 0 ask_key e]))) = Served g'
    \<and> w_sent (gw_writer g') = Some (200, h) \<and> w_body (gw_writer g') = []"
proof -
  obtain e where e: "rec_entry \<lparr>rec_frames = [''x''], rec_bytes = 1, rec_dropped = False\<rparr> 0 ''p'' ''m'' zero_usage = Some e"
    by (simp add: rec_entry_def)
  obtain res evs c where l: "lookup_Get (Some (demo_lookup [CPut 0 ask_key e])) None 0 [] ''m'' ask_plain = (res, evs, c)"
    "res_Entry res = Some (stamped 0 e)" using ask_hit by blast
  from recorded_stream_answers_with_nothing [OF ask_routed(1) _ e, of "demo_gw () (Some (demo_lookup [CPut 0 ask_key e]))" None "demo_schedule []" res evs c]
  show ?thesis using l e by (auto simp: demo_gw_def [symmetric])
qed

theorem refused_replay_is_logged_as_cached_witness:
  "\<exists>res g3. handleChatCompletions (demo_server None) (demo_schedule []) (demo_request ask_stream) (demo_gw () (Some (demo_lookup [CPut 0 ask_key demo_answer])))
      = reserveAndServe (demo_server None) (demo_schedule []) demo_provider \<lparr>ReqModel = ''m'', ReqStream = True, ReqRaw = ask_stream\<rparr> res g3
    \<and> li_cached (gw_info g3)"
proof -
  obtain res evs c where l: "lookup_Get (Some (demo_lookup [CPut 0 ask_key demo_answer])) None 0 [] ''m'' ask_stream = (res, evs, c)"
    "res_Entry res = Some (stamped 0 demo_answer)" using ask_hit by blast
  have "\<not> Streamed (stamped 0 demo_answer)" by (simp add: Streamed_def stamped_def demo_answer_def no_node_def)
  with refused_replay_is_logged_as_cached [OF ask_routed(2), of "demo_gw () (Some (demo_lookup [CPut 0 ask_key demo_answer]))" None "demo_schedule []" res evs c]
  show ?thesis using l by auto
qed


definition crashing_server :: "'a server" where
  "crashing_server = (demo_server None)\<lparr>sv_routes := [(''m'', demo_provider\<lparr>prov_Chat := (\<lambda>_ _. None)\<rparr>)]\<rparr>"

theorem panic_is_logged_as_success_witness:
  "\<exists>g' h. Handler crashing_server (demo_schedule []) (demo_request demo_plain) (demo_gw () None) = Served g'
    \<and> ll_status (last (gw_log g')) = 200 \<and> w_sent (gw_writer g') = Some (500, h)"
proof -
  let ?p = "demo_provider\<lparr>prov_Chat := (\<lambda>_ _. None)\<rparr>"
  let ?g = "(demo_gw () None)\<lparr>gw_info := no_info\<lparr>li_start := Some 0\<rparr>, gw_writer := newStatusWriter fresh_writer\<rparr>"
  have r: "routed crashing_server (demo_request demo_plain) ''m'' False ?p"
    using demo_routed(1) [of None] by (auto simp: routed_def crashing_server_def)
  have "\<exists>g1. handleChatCompletions crashing_server (demo_schedule []) (demo_request demo_plain) (?g\<lparr>gw_inflight := f\<rparr>) = Panicked g1
      \<and> gw_writer g1 = newStatusWriter fresh_writer" for f
    using routed_chat [OF r, of "?g\<lparr>gw_inflight := f\<rparr>" "demo_schedule []" no_result "[]" None False]
    by (simp add: lookup_Get_def serveCached_def no_result_def reserveAndServe_def serveChat_def crashing_server_def demo_server_def Let_def)
  then obtain g1 where "handleChatCompletions crashing_server (demo_schedule []) (demo_request demo_plain)
      (?g\<lparr>gw_inflight := (newInflight 1)\<lparr>slots_used := 1\<rparr>\<rparr>) = Panicked g1" "gw_writer g1 = newStatusWriter fresh_writer" by blast
  moreover have "limit_enter (newInflight 1) = Some ((newInflight 1)\<lparr>slots_used := 1\<rparr>)" "slots (newInflight 1) = Some 1"
    by (simp_all add: newInflight_def limit_enter_def)
  ultimately have "withAuth crashing_server (demo_request demo_plain) (withLimit (mux crashing_server (demo_schedule []) (demo_request demo_plain))) ?g
      = Panicked (g1\<lparr>gw_inflight := limit_leave (gw_inflight g1)\<rparr>)"
    by (simp add: withAuth_def authenticate_def key_empty_def crashing_server_def demo_server_def no_keys_def AnonymousTenant_def withLimit_def
        demo_gw_def mux_def demo_request_def)
  from panic_is_logged_as_success [of crashing_server "demo_request demo_plain" "demo_schedule []" "demo_gw () None", OF _ ] this
  show ?thesis using \<open>gw_writer g1 = newStatusWriter fresh_writer\<close> by (auto simp: newStatusWriter_def demo_schedule_def)
qed

theorem only_whole_streams_are_cached_witness:
  "\<exists>g' pre end e rest. serveStream (demo_server None)
      (demo_schedule [(1, EvRecv (Inr \<lparr>ChunkData = ''x'', ChunkUsage = None, Keepalive = False\<rparr>)), (2, EvRecv (Inl IoEOF))])
      demo_provider \<lparr>ReqModel = ''m'', ReqStream = True, ReqRaw = ask_stream\<rparr> None (no_result\<lparr>res_Key := ask_key, res_Eligible := True\<rparr>)
      (demo_gw () (Some (demo_lookup []))) = Served g'
    \<and> [(1, EvRecv (Inr \<lparr>ChunkData = ''x'', ChunkUsage = None, Keepalive = False\<rparr>)), (2 :: int, EvRecv (Inl IoEOF))] = pre @ (end, EvRecv (Inl e)) # rest
    \<and> errors_Is e IoEOF"
proof -
  let ?evs = "[(1, EvRecv (Inr \<lparr>ChunkData = ''x'', ChunkUsage = None, Keepalive = False\<rparr>)), (2 :: int, EvRecv (Inl IoEOF))]"
  let ?res = "no_result\<lparr>res_Key := ask_key, res_Eligible := True\<rparr>"
  let ?req = "\<lparr>ReqModel = ''m'', ReqStream = True, ReqRaw = ask_stream\<rparr>"
  let ?g = "demo_gw () (Some (demo_lookup []))"
  have "\<exists>g' e. serveStream (demo_server None) (demo_schedule ?evs) demo_provider ?req None ?res ?g = Served g'
      \<and> gw_cache g' = snd (lookup_Put (Some (demo_lookup [])) None 2 ?res (Some e) ask_stream)"
    by (simp add: serveStream_def openStream_def new_tally_def settleStream_def rec_entry_def rec_add_def settleOrAbort_def cache_Put_def
        demo_server_def demo_provider_def demo_schedule_def maxCachedStreamBytes_def on_writer_def writeSSEHeaders_def writeSSEFrame_to_def
        Write_def WriteHeader_def header_set_def Flush_def fresh_writer_def demo_gw_def flusherFor_def no_info_def Let_def)
      (rule exI [of _ "\<lparr>ce_Body = [], ce_Frames = [''x''], ce_Usage = zero_usage, ce_USD = 0,
        ce_Provider = answeringProvider ''p'' (providerOfStream AdapterReader), ce_Model = ''m'', ce_StoredAt = 2\<rparr>"], simp split: prod.split)
  then obtain g' e where g': "serveStream (demo_server None) (demo_schedule ?evs) demo_provider ?req None ?res ?g = Served g'"
    and c: "gw_cache g' = snd (lookup_Put (Some (demo_lookup [])) None 2 ?res (Some e) ask_stream)" by blast
  have kept: "fst (Get (exact_run (NewExact 2 10) ([] @ CPut 2 ask_key e # [])) 2 ask_key) = Some (stamped 2 e)"
    by (rule exact_tier.put_is_kept [OF represents_new]) (auto simp: NewExact_def)
  have new: "fst (Get (NewExact 2 10) 2 ask_key) = None" by (simp add: Get_lookup lookup_def find_node_def NewExact_def)
  have "exact_run (NewExact 2 10) [CPut 2 ask_key e] \<noteq> NewExact 2 10" using kept new by auto
  then have "gw_cache g' \<noteq> gw_cache ?g"
    unfolding c by (auto simp: lookup_Put_def demo_lookup_def split: prod.splits)
  from only_whole_streams_are_cached [OF g' this] show ?thesis using g' by (simp add: demo_schedule_def) blast
qed

end
