(* ===== verification/Observability.thy ===== *)
theory Observability
  imports Gateway_Requests
begin

text \<open>
  What the gateway measures (\<^verbatim>\<open>src/internal/obs/sink.go\<close>, \<^verbatim>\<open>metrics.go\<close>). The metrics library is not part
  of the repository: an instrument is its name, and a measurement is the call made on one of its series, with the label
  values in the order the instrument declares. The main result is that the money the metrics show is the money the ledger
  has.
\<close>

section \<open>Series\<close>

datatype series_call = CounterAdd string "string list" float64 | HistogramObserve string "string list" float64

definition RequestsTotal :: string where "RequestsTotal = ''penstock_requests_total''"
definition RequestDurationSeconds :: string where "RequestDurationSeconds = ''penstock_request_duration_seconds''"
definition TTFTSeconds :: string where "TTFTSeconds = ''penstock_ttft_seconds''"
definition TokensTotal :: string where "TokensTotal = ''penstock_tokens_total''"
definition CostUSDTotal :: string where "CostUSDTotal = ''penstock_cost_usd_total''"
definition DenialsTotal :: string where "DenialsTotal = ''penstock_denials_total''"
definition CacheEventsTotal :: string where "CacheEventsTotal = ''penstock_cache_events_total''"

text \<open>The labels of each instrument.\<close>

definition NewMetrics :: "(string \<times> string list) list" where
  "NewMetrics = [(RequestsTotal, [''path'', ''provider'', ''code'']), (RequestDurationSeconds, [''path'', ''provider'', ''stream'']),
     (TTFTSeconds, [''provider'']), (TokensTotal, [''provider'', ''direction'']), (CostUSDTotal, [''tenant'', ''provider'', ''model'']),
     (DenialsTotal, [''tenant'', ''reason'']), (CacheEventsTotal, [''event''])]"

section \<open>The sink\<close>

text \<open>\<^verbatim>\<open>time.Duration.Seconds\<close>, with Go's division towards zero.\<close>

definition duration_Seconds :: "duration \<Rightarrow> float64" where
  "duration_Seconds d = (let s = (if d < 0 then - (- d div Second) else d div Second)
     in fadd (float_of_int s) (fdiv (float_of_int (d - s * Second)) (10 ^ 9)))"

definition FormatBool :: "bool \<Rightarrow> string" where
  "FormatBool b = (if b then ''true'' else ''false'')"

definition obs_ObserveRequest :: "string \<Rightarrow> string \<Rightarrow> string \<Rightarrow> float64 \<Rightarrow> bool \<Rightarrow> series_call list" where
  "obs_ObserveRequest path provider code secs stream =
     [CounterAdd RequestsTotal [path, provider, code] 1, HistogramObserve RequestDurationSeconds [path, provider, FormatBool stream] secs]"

definition obs_ObserveTTFT :: "string \<Rightarrow> float64 \<Rightarrow> series_call list" where
  "obs_ObserveTTFT provider secs = [HistogramObserve TTFTSeconds [provider] secs]"

definition labelOrNone :: "string \<Rightarrow> string" where
  "labelOrNone tenant = (if tenant = [] then ''anonymous'' else tenant)"

definition obs_AddCost :: "string \<Rightarrow> string \<Rightarrow> string \<Rightarrow> float64 \<Rightarrow> series_call list" where
  "obs_AddCost tenant provider model usd = (if usd < 0 then [] else [CounterAdd CostUSDTotal [labelOrNone tenant, provider, model] usd])"

definition obs_AddDenial :: "string \<Rightarrow> string \<Rightarrow> series_call list" where
  "obs_AddDenial tenant reason = [CounterAdd DenialsTotal [labelOrNone tenant, reason] 1]"

definition obs_AddCacheEvent :: "string \<Rightarrow> series_call list" where
  "obs_AddCacheEvent event = [CounterAdd CacheEventsTotal [event] 1]"

definition obs_AddTokens :: "string \<Rightarrow> goint \<Rightarrow> goint \<Rightarrow> series_call list" where
  "obs_AddTokens provider prompt completion =
     (if 0 < prompt then [CounterAdd TokensTotal [provider, ''prompt''] (float_of_int prompt)] else [])
     @ (if 0 < completion then [CounterAdd TokensTotal [provider, ''completion''] (float_of_int completion)] else [])"

text \<open>The text of a reason and of a cache event.\<close>

fun reason_text :: "deny_reason \<Rightarrow> string" where
  "reason_text DenyRequestRate = ''request_rate''"
| "reason_text DenyTokenRate = ''token_rate''"
| "reason_text DenyDailyBudget = ''daily_budget''"
| "reason_text DenyMonthlyBudget = ''monthly_budget''"
| "reason_text DenyStoreDegraded = ''accounting_unavailable''"
| "reason_text DenyUnknownTenant = ''unknown_tenant''"

fun event_text_of :: "cache_event \<Rightarrow> string" where
  "event_text_of EventExactHit = ''exact_hit''"
| "event_text_of EventSemanticHit = ''semantic_hit''"
| "event_text_of EventMiss = ''miss''"
| "event_text_of EventIneligible = ''ineligible''"
| "event_text_of EventStored = ''stored''"
| "event_text_of EventEvicted = ''evicted''"
| "event_text_of EventEmbedFailed = ''embed_failed''"

fun series_of :: "metric \<Rightarrow> series_call list" where
  "series_of (ObserveRequest path provider code d stream) = obs_ObserveRequest path provider code (duration_Seconds d) stream"
| "series_of (ObserveTTFT provider d) = obs_ObserveTTFT provider (duration_Seconds d)"
| "series_of (AddTokens provider prompt completion) = obs_AddTokens provider prompt completion"
| "series_of (AddCost tenant provider model usd) = obs_AddCost tenant provider model usd"
| "series_of (AddDenial tenant reason) = obs_AddDenial tenant (reason_text reason)"

definition measured :: "'a gw \<Rightarrow> series_call list" where
  "measured g = concat (map series_of (gw_metrics g)) @ concat (map (obs_AddCacheEvent \<circ> event_text_of) (gw_cacheEvents g))"

section \<open>The metrics and the ledger\<close>

text \<open>The settled requests as the metrics count them and as the ledger lists them: tenant, provider, model and cost.\<close>

definition costs :: "metric list \<Rightarrow> (string \<times> string \<times> string \<times> float64) list" where
  "costs ms = concat (map (\<lambda>m. case m of AddCost t p md usd \<Rightarrow> [(t, p, md, usd)] | _ \<Rightarrow> []) ms)"

definition rows :: "ledger \<Rightarrow> (string \<times> string \<times> string \<times> float64) list" where
  "rows l = (case l of NopLedger \<Rightarrow> [] | FileLedger es \<Rightarrow> map (\<lambda>e. (ent_Tenant e, ProviderKind e, ent_Model e, ent_USD e)) es)"

definition books :: "'s accounts gw \<Rightarrow> bool" where
  "books g \<longleftrightarrow> (\<exists>es. a_ledger (gw_acct g) = FileLedger es) \<and> costs (gw_metrics g) = rows (a_ledger (gw_acct g))"

lemma costs_simps [simp]:
  "costs [] = []" "costs (ms @ ms') = costs ms @ costs ms'" "costs [AddCost t p md usd] = [(t, p, md, usd)]"
  "costs [AddTokens p x y] = []" "costs [ObserveTTFT p d] = []" "costs [ObserveRequest path p c d b] = []" "costs [AddDenial t r] = []"
  by (simp_all add: costs_def)

text \<open>A state with the same ledger and the same costs.\<close>

definition same_books :: "'s accounts gw \<Rightarrow> 's accounts gw \<Rightarrow> bool" where
  "same_books g g' \<longleftrightarrow> a_ledger (gw_acct g') = a_ledger (gw_acct g) \<and> costs (gw_metrics g') = costs (gw_metrics g)"

lemma same_books_trans: "same_books g g' \<Longrightarrow> books g \<Longrightarrow> books g'"
  by (simp add: same_books_def books_def)

lemma settleOrAbort_books:
  assumes "sv_accounting sv = Some (guard_accountant save gd)" "g_enforcer gd" "g_ledger gd" "books g"
  shows "books (settleOrAbort sv now r u m p g)"
proof (cases r)
  case (Some res)
  show ?thesis
  proof (cases u)
    case None
    then show ?thesis using assms Some
      by (auto simp: settleOrAbort_def guard_accountant_def Abort_def books_def split: prod.splits)
  next
    case (Some us)
    obtain es where es: "a_ledger (gw_acct g) = FileLedger es" using assms(4) by (auto simp: books_def)
    show ?thesis using assms Some \<open>r = Some res\<close> es
      by (auto simp: settleOrAbort_def guard_accountant_def guard_Settle_def record_row_def ledger_entry_def books_def rows_def Let_def
          split: prod.splits)
  qed
qed (use assms in \<open>simp add: settleOrAbort_def split: option.splits\<close>)

lemma streamLoop_books: "streamLoop idle evs fd tally g = Some (tally', g') \<Longrightarrow> same_books g g'"
  by (induction idle evs fd tally g rule: streamLoop.induct)
    (auto simp: same_books_def Let_def split: if_splits option.splits prod.splits)

lemma serveCached_books: "serveCached res g = (ok, g') \<Longrightarrow> same_books g g'"
  by (auto simp: serveCached_def same_books_def Let_def split: option.splits if_splits prod.splits)

lemma books_simps [simp]:
  "books (on_writer f g) = books g" "books (g\<lparr>gw_info := i\<rparr>) = books g" "books (cache_Put sv now res e raw g) = books g"
  "books (meter (AddTokens p x y) g) = books g" "books (g\<lparr>gw_inflight := fl\<rparr>) = books g" "books (g\<lparr>gw_writer := w\<rparr>) = books g"
  "books (access_log t rq g) = books g"
  by (simp_all add: books_def access_log_def Let_def)

definition keeps_books :: "'s accounts handler \<Rightarrow> bool" where
  "keeps_books h \<longleftrightarrow> (\<forall>g. books g \<longrightarrow> (case h g of Served g' \<Rightarrow> books g' | Panicked g' \<Rightarrow> books g' | Waiting \<Rightarrow> True))"

lemma keeps_booksI:
  assumes "\<And>g g'. books g \<Longrightarrow> h g = Served g' \<Longrightarrow> books g'" "\<And>g g'. books g \<Longrightarrow> h g = Panicked g' \<Longrightarrow> books g'"
  shows "keeps_books h"
proof (unfold keeps_books_def, intro allI impI)
  fix g :: "'a accounts gw" assume b: "books g"
  show "case h g of Served g' \<Rightarrow> books g' | Panicked g' \<Rightarrow> books g' | Waiting \<Rightarrow> True"
  proof (cases "h g")
    case (Served g1)
    with assms(1) [OF b Served] show ?thesis by simp
  next
    case (Panicked g1)
    with assms(2) [OF b Panicked] show ?thesis by simp
  qed simp
qed

lemma keeps_booksD:
  assumes "keeps_books h" "books g" "h g = Served g' \<or> h g = Panicked g'"
  shows "books g'"
  using assms(1) [unfolded keeps_books_def, rule_format, OF assms(2)] assms(3) by auto

text \<open>A server whose accountant is the guard, with its enforcer and its ledger.\<close>

definition guarded_by :: "('s \<Rightarrow> spend_row \<Rightarrow> err option \<times> 's) \<Rightarrow> guard \<Rightarrow> 's accounts server \<Rightarrow> bool" where
  "guarded_by save gd sv \<longleftrightarrow> sv_accounting sv = Some (guard_accountant save gd) \<and> g_enforcer gd \<and> g_ledger gd"

lemma settled_books: "guarded_by save gd sv \<Longrightarrow> books g \<Longrightarrow> books (settleOrAbort sv now r u m p g)"
  using settleOrAbort_books unfolding guarded_by_def by blast

lemma serveChat_books:
  assumes "guarded_by save gd sv"
  shows "keeps_books (serveChat sv t prov req r res)"
proof (rule keeps_booksI)
  fix g g' assume b: "books g" and s: "serveChat sv t prov req r res g = Served g'"
  then consider (failed) f m p where "g' = on_writer f (settleOrAbort sv (at_answer t) r None m p g)"
    | (answered) f e raw u m p x y i where
        "g' = on_writer f (cache_Put sv (at_answer t) res e raw (settleOrAbort sv (at_answer t) r u m p (meter (AddTokens p x y) (g\<lparr>gw_info := i\<rparr>))))"
    by (auto simp: serveChat_def Let_def split: option.splits sum.splits)
  then show "books g'"
  proof cases
    case failed
    then show ?thesis using settled_books [OF assms b] by simp
  next
    case (answered f e raw u m p x y i)
    then show ?thesis using settled_books [OF assms, of "meter (AddTokens p x y) (g\<lparr>gw_info := i\<rparr>)"] b by simp
  qed
qed (auto simp: serveChat_def Let_def split: option.splits sum.splits)

lemma settleStream_books:
  assumes "guarded_by save gd sv" "books g"
  shows "books (settleStream sv now r res req tally g)"
proof -
  define g1 where "g1 = (case tl_lastUsage tally of None \<Rightarrow> g | Some u \<Rightarrow> meter (AddTokens (tl_answered tally) (PromptTokens u) (CompletionTokens u)) g)"
  define g2 where "g2 = (if tl_completed tally then
        (case rec_entry (tl_recorder tally) now (tl_answered tally) (ReqModel req) (case tl_lastUsage tally of None \<Rightarrow> zero_usage | Some u \<Rightarrow> u) of
           None \<Rightarrow> g1 | Some e \<Rightarrow> cache_Put sv now res e (ReqRaw req) g1) else g1)"
  have "books g2" using assms(2) by (simp add: g1_def g2_def split: option.split)
  from settled_books [OF assms(1) this, of now r "tl_lastUsage tally" "tl_billed tally" "tl_answered tally"] show ?thesis
    unfolding settleStream_def Let_def g2_def g1_def .
qed

lemma serveStream_books:
  assumes "guarded_by save gd sv"
  shows "keeps_books (serveStream sv t prov req r res)"
proof (rule keeps_booksI)
  fix g g' assume b: "books g" and s: "serveStream sv t prov req r res g = Served g'"
  then consider (refused) f now m p where "g' = on_writer f (settleOrAbort sv now r None m p g)"
    | (streamed) reader tally' g2 where "g' = settleStream sv (at_end t) r res req tally' g2"
        "streamLoop (msToDuration (sv_StreamIdleTimeoutMS sv)) (events t) True (new_tally prov req reader)
           ((on_writer writeSSEHeaders g)\<lparr>gw_info := (gw_info g)\<lparr>li_provider := tl_answered (new_tally prov req reader)\<rparr>\<rparr>) = Some (tally', g2)"
    by (auto simp: serveStream_def Let_def split: if_splits option.splits sum.splits prod.splits)
  then show "books g'"
  proof cases
    case refused
    then show ?thesis using settled_books [OF assms b] by simp
  next
    case streamed
    have "books g2" using same_books_trans [OF streamLoop_books [OF streamed(2)]] b by simp
    then show ?thesis unfolding streamed(1) by (rule settleStream_books [OF assms])
  qed
qed (auto simp: serveStream_def Let_def split: if_splits option.splits sum.splits prod.splits)

lemma Begin_ledger: "Begin g a now t m raw = (res, a') \<Longrightarrow> a_ledger a' = a_ledger a"
  by (auto simp: Begin_def split: option.splits if_splits prod.splits sum.splits)

lemma reserveAndServe_books:
  assumes "guarded_by save gd sv"
  shows "keeps_books (reserveAndServe sv t prov req res)"
proof (unfold keeps_books_def, intro allI impI)
  fix g :: "'a accounts gw" assume b: "books g"
  let ?acc = "guard_accountant save gd"
  have acc: "sv_accounting sv = Some ?acc" using assms by (simp add: guarded_by_def)
  obtain bg a where bg: "acc_Begin ?acc (gw_acct g) (at_begin t) (li_tenant (gw_info g)) (ReqModel req) (ReqRaw req) = (bg, a)" by fastforce
  then have "a_ledger a = a_ledger (gw_acct g)"
    using Begin_ledger by (fastforce simp: guard_accountant_def split: prod.splits sum.splits)
  then have b1: "books (g\<lparr>gw_acct := a\<rparr>)" using b by (simp add: books_def)
  show "case reserveAndServe sv t prov req res g of Served g' \<Rightarrow> books g' | Panicked g' \<Rightarrow> books g' | Waiting \<Rightarrow> True"
  proof (cases bg)
    case (Inl e)
    then show ?thesis using acc bg b1 by (auto simp: reserveAndServe_def Let_def books_def split: prod.splits option.splits)
  next
    case (Inr r)
    then have "reserveAndServe sv t prov req res g = (if ReqStream req then serveStream sv t prov req r res (g\<lparr>gw_acct := a\<rparr>)
        else serveChat sv t prov req r res (g\<lparr>gw_acct := a\<rparr>))"
      using acc bg by (simp add: reserveAndServe_def Let_def)
    then show ?thesis
      using serveStream_books [OF assms, unfolded keeps_books_def] serveChat_books [OF assms, unfolded keeps_books_def] b1 by simp
  qed
qed

lemma chat_books:
  assumes "guarded_by save gd sv"
  shows "keeps_books (handleChatCompletions sv t r)"
proof (unfold keeps_books_def, intro allI impI)
  fix g :: "'a accounts gw" assume b: "books g"
  show "case handleChatCompletions sv t r g of Served g' \<Rightarrow> books g' | Panicked g' \<Rightarrow> books g' | Waiting \<Rightarrow> True"
  proof (cases rule: chat_cases [OF refl, of sv t r g])
    case (1 f i)
    then show ?thesis using b by (simp add: books_def)
  next
    case (2 model stream prov cacheRes evs c ok g3)
    have "books g3" using serveCached_books [OF 2(5)] b by (simp add: books_def same_books_def)
    with 2(6) reserveAndServe_books [OF assms, unfolded keeps_books_def] show ?thesis by simp
  qed
qed

lemma mux_books:
  assumes "guarded_by save gd sv"
  shows "keeps_books (mux sv t r)"
proof (unfold keeps_books_def, intro allI impI)
  fix g :: "'a accounts gw" assume "books g"
  then show "case mux sv t r g of Served g' \<Rightarrow> books g' | Panicked g' \<Rightarrow> books g' | Waiting \<Rightarrow> True"
    using chat_books [OF assms, unfolded keeps_books_def] by (simp add: mux_def handleModels_def handleHealthz_def)
qed

lemma keeps_books_deferred:
  assumes "keeps_books h" "\<And>g. books (f g) = books g" "\<And>g. books (k g) = books g"
  shows "keeps_books (\<lambda>g. deferred f (h (k g)))"
proof (unfold keeps_books_def, intro allI impI)
  fix g :: "'a accounts gw" assume "books g"
  then show "case deferred f (h (k g)) of Served g' \<Rightarrow> books g' | Panicked g' \<Rightarrow> books g' | Waiting \<Rightarrow> True"
    using assms(1) [unfolded keeps_books_def, rule_format, of "k g"] assms(2,3) by (cases "h (k g)") simp_all
qed

lemma keeps_books_withLimit: assumes "keeps_books h" shows "keeps_books (withLimit h)"
proof (unfold keeps_books_def, intro allI impI)
  fix g :: "'a accounts gw" assume b: "books g"
  have "keeps_books (\<lambda>g. deferred (\<lambda>g. g\<lparr>gw_inflight := limit_leave (gw_inflight g)\<rparr>) (h (g\<lparr>gw_inflight := f\<rparr>)))" for f
    by (rule keeps_books_deferred [OF assms]) simp_all
  with b assms show "case withLimit h g of Served g' \<Rightarrow> books g' | Panicked g' \<Rightarrow> books g' | Waiting \<Rightarrow> True"
    unfolding keeps_books_def by (simp add: withLimit_def split: option.split)
qed

lemma keeps_books_withAuth: assumes "keeps_books h" shows "keeps_books (withAuth sv r h)"
proof (unfold keeps_books_def, intro allI impI)
  fix g :: "'a accounts gw" assume b: "books g"
  then show "case withAuth sv r h g of Served g' \<Rightarrow> books g' | Panicked g' \<Rightarrow> books g' | Waiting \<Rightarrow> True"
    using assms [unfolded keeps_books_def, rule_format] by (simp add: withAuth_def split: option.split)
qed

lemma keeps_books_withAccessLog: "keeps_books h \<Longrightarrow> keeps_books (withAccessLog t r h)"
  unfolding withAccessLog_def by (rule keeps_books_deferred) simp_all

lemma keeps_books_Handler:
  assumes "guarded_by save gd sv" "books g" "Handler sv t r g = Served g'"
  shows "books g'"
proof -
  have "keeps_books (withAccessLog t r (withAuth sv r (withLimit (mux sv t r))))"
    by (intro keeps_books_withAccessLog keeps_books_withAuth keeps_books_withLimit mux_books [OF assms(1)])
  from this [unfolded keeps_books_def, rule_format, OF assms(2)] assms(3) show ?thesis
    by (auto simp: Handler_def withRecovery_def split: served.splits)
qed

lemma serve_all_books: "guarded_by save gd sv \<Longrightarrow> books g \<Longrightarrow> serve_all sv rs g = Some g' \<Longrightarrow> books g'"
proof (induction rs arbitrary: g)
  case (Cons q rs)
  obtain t r w where q: "q = (t, r, w)" by (cases q)
  then obtain g1 where h: "Handler sv t r (g\<lparr>gw_writer := w\<rparr>) = Served g1" "serve_all sv rs g1 = Some g'"
    using Cons.prems(3) by (auto split: served.splits)
  from keeps_books_Handler [OF Cons.prems(1) _ h(1)] Cons.prems(2) Cons.IH [OF Cons.prems(1) _ h(2)] show ?case by simp
qed simp

section \<open>What the registry sees\<close>

definition cost_calls :: "series_call list \<Rightarrow> (string list \<times> float64) list" where
  "cost_calls cs = concat (map (\<lambda>c. case c of CounterAdd n ls v \<Rightarrow> if n = CostUSDTotal then [(ls, v)] else [] | _ \<Rightarrow> []) cs)"

lemma cost_calls_append [simp]: "cost_calls (xs @ ys) = cost_calls xs @ cost_calls ys"
  by (simp add: cost_calls_def)

lemma cost_calls_series:
  "cost_calls (concat (map series_of ms)) = map (\<lambda>(t, p, m, usd). ([labelOrNone t, p, m], usd)) (filter (\<lambda>(t, p, m, usd). 0 \<le> usd) (costs ms))"
proof (induction ms)
  case (Cons m ms)
  have "costs (m # ms) = costs [m] @ costs ms" by (simp add: costs_def)
  with Cons show ?case
    by (cases m) (auto simp: cost_calls_def obs_ObserveRequest_def obs_ObserveTTFT_def obs_AddTokens_def obs_AddCost_def obs_AddDenial_def
        CostUSDTotal_def RequestsTotal_def TokensTotal_def DenialsTotal_def)
qed (simp add: cost_calls_def costs_def)

lemma counters_grow: "CounterAdd n ls v \<in> set (measured g) \<Longrightarrow> 0 \<le> v"
proof -
  have "0 \<le> v" if "CounterAdd n ls v \<in> set (series_of m)" for m
    using that rnd64_nonneg [of "of_int _"] by (cases m)
      (auto simp: obs_ObserveRequest_def obs_ObserveTTFT_def obs_AddTokens_def obs_AddCost_def obs_AddDenial_def float_of_int_def split: if_splits)
  then show "CounterAdd n ls v \<in> set (measured g) \<Longrightarrow> 0 \<le> v" by (auto simp: measured_def obs_AddCacheEvent_def)
qed

lemma labels_fit:
  assumes "c \<in> set (measured g)"
  shows "case c of CounterAdd n ls v \<Rightarrow> \<exists>names. map_of NewMetrics n = Some names \<and> length ls = length names
    | HistogramObserve n ls v \<Rightarrow> \<exists>names. map_of NewMetrics n = Some names \<and> length ls = length names"
proof -
  have "?thesis" if "c \<in> set (series_of m)" for m
    using that by (cases m) (auto simp: obs_ObserveRequest_def obs_ObserveTTFT_def obs_AddTokens_def obs_AddCost_def obs_AddDenial_def
        NewMetrics_def RequestsTotal_def RequestDurationSeconds_def TTFTSeconds_def TokensTotal_def CostUSDTotal_def DenialsTotal_def split: if_splits)
  moreover have "?thesis" if "c \<in> set (obs_AddCacheEvent e)" for e
    using that by (auto simp: obs_AddCacheEvent_def NewMetrics_def RequestsTotal_def RequestDurationSeconds_def TTFTSeconds_def TokensTotal_def
        CostUSDTotal_def DenialsTotal_def CacheEventsTotal_def)
  ultimately show ?thesis using assms by (auto simp: measured_def)
qed



end
