(* ===== verification/Go_Net.thy ===== *)
theory Go_Net
  imports JSON
begin

text \<open>
  What the configuration uses of Go's \<^verbatim>\<open>net\<close> package: splitting a listen address into host and port, reading an IP
  address in its dotted and its colon form, and telling whether it is a loopback address.
\<close>

section \<open>Host and port\<close>

definition before_last :: "char \<Rightarrow> string \<Rightarrow> string option" where
  "before_last c s = (if c \<in> set s then Some (rev (drop 1 (dropWhile (\<lambda>x. x \<noteq> c) (rev s)))) else None)"

text \<open>In a bracketed address the first closing bracket stands right before the last colon. No other bracket may follow.\<close>

definition SplitHostPort :: "string \<Rightarrow> (string \<times> string) option" where
  "SplitHostPort hostport = (case before_last CHR 0x3A hostport of
       None \<Rightarrow> None
     | Some b \<Rightarrow>
         let port = drop (length b + 1) hostport in
         if HasPrefix hostport ''['' then
           (if CHR 0x5D \<notin> set hostport then None
            else let host = takeWhile (\<lambda>c. c \<noteq> CHR 0x5D) (drop 1 hostport) in
              if length b \<noteq> length host + 2 \<or> CHR 0x5B \<in> set (drop 1 hostport) \<or> CHR 0x5D \<in> set (drop (length host + 2) hostport)
              then None else Some (host, port))
         else if CHR 0x3A \<in> set b \<or> CHR 0x5B \<in> set hostport \<or> CHR 0x5D \<in> set hostport then None
         else Some (b, port))"

section \<open>Addresses\<close>

text \<open>A field of the dotted form is a number up to 255 with no leading zero.\<close>

definition octet :: "string \<Rightarrow> nat option" where
  "octet s = (if s = [] \<or> \<not> list_all dec_digit s \<or> (1 < length s \<and> hd s = CHR 0x30) \<or> 3 < length s \<or> 255 < dec_value s
     then None else Some (dec_value s))"

fun fields_on :: "char \<Rightarrow> string \<Rightarrow> string list" where
  "fields_on sep [] = [[]]"
| "fields_on sep (c # s) = (if c = sep then [] # fields_on sep s else (case fields_on sep s of f # fs \<Rightarrow> (c # f) # fs | [] \<Rightarrow> [[c]]))"

definition parseIPv4 :: "string \<Rightarrow> nat list option" where
  "parseIPv4 s = (case map octet (fields_on CHR 0x2E s) of
     [Some a, Some b, Some c, Some d] \<Rightarrow> Some [a, b, c, d] | _ \<Rightarrow> None)"

definition hex_run :: "string \<Rightarrow> string" where
  "hex_run s = takeWhile (\<lambda>c. hex_value c \<noteq> None) s"

definition hex_number :: "string \<Rightarrow> nat" where
  "hex_number s = foldl (\<lambda>n c. n * 16 + the (hex_value c)) 0 s"

text \<open>The loop over the groups of the colon form: the bytes read so far, where the ellipsis stood, and what is left.
  It ends with the bytes and the ellipsis, or with nothing where the text is no address.\<close>

function ipv6_groups :: "nat list \<Rightarrow> nat option \<Rightarrow> string \<Rightarrow> (nat list \<times> nat option) option" where
  "ipv6_groups acc ell s = (if 16 \<le> length acc then (if s = [] then Some (acc, ell) else None)
     else let d = hex_run s; r = drop (length d) s; acc' = acc @ [hex_number d div 256, hex_number d mod 256] in
       if d = [] \<or> 4 < length d then None
       else if HasPrefix r ''.'' then
         (if (ell = None \<and> length acc \<noteq> 12) \<or> 16 < length acc + 4 then None
          else map_option (\<lambda>v. (acc @ v, ell)) (parseIPv4 s))
       else if r = [] then Some (acc', ell)
       else if hd r \<noteq> CHR 0x3A \<or> length r = 1 then None
       else if HasPrefix (drop 1 r) '':'' then
         (if ell \<noteq> None then None
          else if drop 2 r = [] then Some (acc', Some (length acc'))
          else ipv6_groups acc' (Some (length acc')) (drop 2 r))
       else ipv6_groups acc' ell (drop 1 r))"
  by pat_completeness auto
termination
  by (relation "measure (\<lambda>(acc, ell, s). 16 - length acc)") (auto simp: Let_def)

declare ipv6_groups.simps [simp del]

definition ipv6_expand :: "nat list \<times> nat option \<Rightarrow> nat list option" where
  "ipv6_expand g = (case g of (acc, ell) \<Rightarrow>
     if length acc < 16 then (case ell of None \<Rightarrow> None | Some e \<Rightarrow> Some (take e acc @ replicate (16 - length acc) 0 @ drop e acc))
     else if ell = None then Some acc else None)"

definition parseIPv6 :: "string \<Rightarrow> nat list option" where
  "parseIPv6 s =
     (if HasPrefix s ''::'' then
        (if drop 2 s = [] then Some (replicate 16 0) else Option.bind (ipv6_groups [] (Some 0) (drop 2 s)) ipv6_expand)
      else Option.bind (ipv6_groups [] None s) ipv6_expand)"

text \<open>\<^verbatim>\<open>ParseIP\<close> decides the form by the first separator and refuses every zone. An address in the dotted form is held
  in its sixteen byte form.\<close>

definition v4_prefix :: "nat list" where "v4_prefix = replicate 10 0 @ [255, 255]"

definition ParseIP :: "string \<Rightarrow> nat list option" where
  "ParseIP s = (case filter (\<lambda>c. c = CHR 0x2E \<or> c = CHR 0x3A \<or> c = CHR 0x25) s of
       [] \<Rightarrow> None
     | c # _ \<Rightarrow> if c = CHR 0x2E then map_option ((@) v4_prefix) (parseIPv4 s)
                else if c = CHR 0x3A \<and> CHR 0x25 \<notin> set s then parseIPv6 s else None)"

definition IsLoopback :: "nat list \<Rightarrow> bool" where
  "IsLoopback ip \<longleftrightarrow> (if take 12 ip = v4_prefix then ip ! 12 = 127 else ip = replicate 15 0 @ [1])"

end
