(* ===== verification/Configuration.thy ===== *)
theory Configuration
  imports Float64 Providers Go_Net
begin

text \<open>
  The gateway's configuration (\<^verbatim>\<open>src/internal/config\<close>): the decoded file as records, expansion of environment
  references, defaults and validation. Decoding YAML is a library's, and so are the environment and
  \<^verbatim>\<open>url.Parse\<close>, which are arguments. A problem that validation reports is its text. The renames of a route are a
  list of pairs, in the order one iteration over the map visits them.
\<close>

section \<open>The file\<close>

definition AllKinds :: "string list" where
  "AllKinds = [''groq'', ''openai_compat'', ''openai'', ''cerebras'', ''mistral'', ''openrouter'', ''gemini'', ''anthropic'']"

definition AllStrategies :: "string list" where
  "AllStrategies = [''priority'', ''least_latency'', ''round_robin'']"

record server_config =
  Listen :: string
  ReadTimeoutMS :: goint
  UpstreamTimeoutMS :: goint
  StreamIdleTimeoutMS :: goint
  AdminListen :: string
  MaxInflight :: goint

record tenant_limits =
  tl_RequestsPerMinute :: goint
  tl_TokensPerMinute :: goint
  tl_DailyUSD :: float64
  tl_MonthlyUSD :: float64
  tl_FailClosed :: bool

record tenant_config =
  tc_Name :: string
  tc_Keys :: "string list"
  tc_Limits :: tenant_limits

record auth_config =
  ClientKeys :: "string list"
  Tenants :: "tenant_config list"

record accounting_config =
  LedgerPath :: string
  StorePath :: string

record semantic_config =
  sem_Enabled :: bool
  sem_Threshold :: float64
  EmbedModel :: string
  EmbedAPIKey :: string
  EmbedURL :: string
  sem_MaxPerTenant :: goint

record cache_config =
  cc_Enabled :: bool
  cc_MaxEntries :: goint
  cc_TTLSeconds :: goint
  cc_MaxTemperature :: float64
  cc_Semantic :: semantic_config

record provider_config =
  pc_Name :: string
  pc_Kind :: string
  pc_BaseURL :: string
  pc_APIKey :: string
  pc_Models :: "string list"
  pc_StreamUsage :: "bool option"

record route_config =
  rc_Model :: string
  rc_Provider :: string
  rc_Providers :: "string list"
  rc_Strategy :: string
  rc_ProviderModels :: "(string \<times> string) list"

record router_config =
  ro_MaxAttempts :: goint
  ro_RetryBaseDelayMS :: goint
  ro_MaxRetryDelayMS :: goint
  ro_BreakerThreshold :: goint
  ro_BreakerCooldownSeconds :: goint

record telemetry_config =
  ServiceName :: string
  OTLPEndpoint :: string
  LogLevel :: string

record config =
  cfg_Server :: server_config
  cfg_Auth :: auth_config
  cfg_Accounting :: accounting_config
  cfg_Cache :: cache_config
  cfg_Providers :: "provider_config list"
  cfg_Routes :: "route_config list"
  cfg_Router :: router_config
  cfg_Telemetry :: telemetry_config

definition UpstreamModel :: "route_config \<Rightarrow> string \<Rightarrow> string" where
  "UpstreamModel r provider = (case map_of (rc_ProviderModels r) provider of
       Some m \<Rightarrow> if m \<noteq> [] then m else rc_Model r
     | None \<Rightarrow> rc_Model r)"

definition Chain :: "route_config \<Rightarrow> string list" where
  "Chain r = (if rc_Providers r \<noteq> [] then rc_Providers r else if rc_Provider r \<noteq> [] then [rc_Provider r] else [])"

fun find_tenant :: "tenant_config list \<Rightarrow> string \<Rightarrow> (string \<times> tenant_limits) option" where
  "find_tenant [] key = None"
| "find_tenant (t # ts) key = (if key \<in> set (tc_Keys t) then Some (tc_Name t, tc_Limits t) else find_tenant ts key)"

definition TenantForKey :: "config \<Rightarrow> string \<Rightarrow> (string \<times> tenant_limits) option" where
  "TenantForKey c key = (if key = [] then None else find_tenant (Tenants (cfg_Auth c)) key)"

definition hasKeys :: "auth_config \<Rightarrow> bool" where
  "hasKeys a \<longleftrightarrow> ClientKeys a \<noteq> [] \<or> (\<exists>t \<in> set (Tenants a). tc_Keys t \<noteq> [])"

section \<open>Secrets\<close>

definition name_start :: "char \<Rightarrow> bool" where
  "name_start c \<longleftrightarrow> (let b = (of_char c :: nat) in 65 \<le> b \<and> b \<le> 90 \<or> 97 \<le> b \<and> b \<le> 122 \<or> b = 95)"

definition name_char :: "char \<Rightarrow> bool" where
  "name_char c \<longleftrightarrow> name_start c \<or> (let b = (of_char c :: nat) in 48 \<le> b \<and> b \<le> 57)"

text \<open>The variable a \<^verbatim>\<open>${VAR}\<close> reference at the start of a text names, with the text after it.\<close>

definition env_ref :: "string \<Rightarrow> (string \<times> string) option" where
  "env_ref s = (if HasPrefix s ''${'' then
       (let n = takeWhile name_char (drop 2 s); r = drop (2 + length n) s in
        if n \<noteq> [] \<and> name_start (hd n) \<and> HasPrefix r ''}'' then Some (n, drop 1 r) else None)
     else None)"

function expandEnvRefs :: "(string \<Rightarrow> string option) \<Rightarrow> (string \<Rightarrow> string) \<Rightarrow> string \<Rightarrow> string \<times> string list" where
  "expandEnvRefs env describe s = (case s of
       [] \<Rightarrow> ([], [])
     | c # r \<Rightarrow>
         (case env_ref s of
            None \<Rightarrow> (case expandEnvRefs env describe r of (out, errs) \<Rightarrow> (c # out, errs))
          | Some (name, rest) \<Rightarrow>
              (case expandEnvRefs env describe rest of (out, errs) \<Rightarrow>
                 (case env name of
                    Some v \<Rightarrow> if v \<noteq> [] then (v @ out, errs) else (take (length name + 3) s @ out, describe name # errs)
                  | None \<Rightarrow> (take (length name + 3) s @ out, describe name # errs)))))"
  by pat_completeness auto
termination
  by (relation "measure (\<lambda>(env, describe, s). length s)") (auto simp: env_ref_def Let_def split: if_splits)

declare expandEnvRefs.simps [simp del]

definition missing_env :: "string \<Rightarrow> string \<Rightarrow> string" where
  "missing_env field name = field @ '' references '' @ name @ '', which is unset or empty: environment variable not set''"

definition expandAPIKeys :: "(string \<Rightarrow> string option) \<Rightarrow> provider_config list \<Rightarrow> string list \<times> provider_config list" where
  "expandAPIKeys env ps =
     (let es = map (\<lambda>p. expandEnvRefs env (missing_env (''provider '' @ Quote (pc_Name p) @ '': api_key'')) (pc_APIKey p)) ps
      in (concat (map snd es), map2 (\<lambda>p e. p\<lparr>pc_APIKey := fst e\<rparr>) ps es))"

definition expand_keys :: "(string \<Rightarrow> string option) \<Rightarrow> string \<Rightarrow> string list \<Rightarrow> string list \<times> string list" where
  "expand_keys env field ks =
     (let es = map (\<lambda>(i, k). expandEnvRefs env (missing_env (field @ ''['' @ FormatUint i @ '']'')) k) (enumerate 0 ks)
      in (concat (map snd es), map fst es))"

definition expandClientKeys :: "(string \<Rightarrow> string option) \<Rightarrow> string list \<Rightarrow> string list \<times> string list" where
  "expandClientKeys env ks = expand_keys env ''auth: client_keys'' ks"

definition expandTenantKeys :: "(string \<Rightarrow> string option) \<Rightarrow> tenant_config list \<Rightarrow> string list \<times> tenant_config list" where
  "expandTenantKeys env ts =
     (let es = map (\<lambda>t. expand_keys env (''auth: tenant '' @ Quote (tc_Name t) @ '': keys'') (tc_Keys t)) ts
      in (concat (map fst es), map2 (\<lambda>t e. t\<lparr>tc_Keys := snd e\<rparr>) ts es))"

definition expandCacheKey :: "(string \<Rightarrow> string option) \<Rightarrow> cache_config \<Rightarrow> string list \<times> cache_config" where
  "expandCacheKey env c =
     (case expandEnvRefs env (missing_env ''cache: semantic.embed_api_key'') (EmbedAPIKey (cc_Semantic c)) of
        (k, errs) \<Rightarrow> (errs, c\<lparr>cc_Semantic := (cc_Semantic c)\<lparr>EmbedAPIKey := k\<rparr>\<rparr>))"

definition expandSecrets :: "(string \<Rightarrow> string option) \<Rightarrow> config \<Rightarrow> string list \<times> config" where
  "expandSecrets env c =
     (let ps = expandAPIKeys env (cfg_Providers c); ks = expandClientKeys env (ClientKeys (cfg_Auth c));
          ts = expandTenantKeys env (Tenants (cfg_Auth c)); cc = expandCacheKey env (cfg_Cache c)
      in (fst ps @ fst ks @ fst ts @ fst cc,
          c\<lparr>cfg_Providers := snd ps, cfg_Auth := \<lparr>ClientKeys = snd ks, Tenants = snd ts\<rparr>, cfg_Cache := snd cc\<rparr>))"

section \<open>Defaults\<close>

definition DefaultListen :: string where "DefaultListen = ''127.0.0.1:8080''"
definition DefaultReadTimeoutMS :: goint where "DefaultReadTimeoutMS = 30000"
definition DefaultUpstreamTimeoutMS :: goint where "DefaultUpstreamTimeoutMS = 120000"
definition DefaultStreamIdleTimeoutMS :: goint where "DefaultStreamIdleTimeoutMS = 60000"
definition DefaultServiceName :: string where "DefaultServiceName = ''penstock''"
definition DefaultLogLevel :: string where "DefaultLogLevel = ''info''"
definition DefaultAdminListen :: string where "DefaultAdminListen = ''127.0.0.1:9090''"
definition DefaultMaxInflight :: goint where "DefaultMaxInflight = 256"
definition MaxTimeoutMS :: goint where "MaxTimeoutMS = 3600000"
definition MinClientKeyLength :: nat where "MinClientKeyLength = 16"
definition MaxRouterAttempts :: goint where "MaxRouterAttempts = 10"
definition MaxBreakerCooldownSeconds :: goint where "MaxBreakerCooldownSeconds = 3600"
definition MinSemanticThreshold :: float64 where "MinSemanticThreshold = rnd64 (95 / 100)"

definition or_default :: "'a \<Rightarrow> 'a \<Rightarrow> 'a \<Rightarrow> 'a" where
  "or_default zero d v = (if v = zero then d else v)"

definition applyDefaults :: "config \<Rightarrow> config" where
  "applyDefaults c = (let s = cfg_Server c; t = cfg_Telemetry c in
     c\<lparr>cfg_Server := s\<lparr>Listen := or_default [] DefaultListen (Listen s),
          ReadTimeoutMS := or_default 0 DefaultReadTimeoutMS (ReadTimeoutMS s),
          UpstreamTimeoutMS := or_default 0 DefaultUpstreamTimeoutMS (UpstreamTimeoutMS s),
          StreamIdleTimeoutMS := or_default 0 DefaultStreamIdleTimeoutMS (StreamIdleTimeoutMS s),
          AdminListen := or_default [] DefaultAdminListen (AdminListen s),
          MaxInflight := or_default 0 DefaultMaxInflight (MaxInflight s)\<rparr>,
       cfg_Telemetry := t\<lparr>ServiceName := or_default [] DefaultServiceName (ServiceName t),
          LogLevel := or_default [] DefaultLogLevel (LogLevel t)\<rparr>\<rparr>)"

section \<open>Validation\<close>

definition isLoopbackListen :: "string \<Rightarrow> bool" where
  "isLoopbackListen addr = (case SplitHostPort addr of
       None \<Rightarrow> False
     | Some (host, _) \<Rightarrow> host = ''localhost'' \<or> (case ParseIP host of None \<Rightarrow> False | Some ip \<Rightarrow> IsLoopback ip))"

definition tenantNamePattern :: "string \<Rightarrow> bool" where
  "tenantNamePattern s \<longleftrightarrow> s \<noteq> [] \<and> list_all (\<lambda>c. name_char c \<or> c = CHR 0x2D) s"

definition timeout_problems :: "string \<times> goint \<Rightarrow> string list" where
  "timeout_problems f = (case f of (name, v) \<Rightarrow>
     if v < 0 then [''server: '' @ name @ '' is '' @ Itoa v
       @ ''; a negative timeout disables the deadline entirely, use a positive value or omit the field for the default'']
     else if MaxTimeoutMS < v then [''server: '' @ name @ '' is '' @ Itoa v @ '', must be at most '' @ Itoa MaxTimeoutMS
       @ '' (one hour); values are milliseconds'']
     else [])"

definition validateServer :: "server_config \<Rightarrow> string list" where
  "validateServer s =
     concat (map timeout_problems [(''read_timeout_ms'', ReadTimeoutMS s), (''upstream_timeout_ms'', UpstreamTimeoutMS s),
       (''stream_idle_timeout_ms'', StreamIdleTimeoutMS s)])
     @ (if MaxInflight s < 0 then [''server: max_inflight is '' @ Itoa (MaxInflight s) @ '', must not be negative''] else [])"

definition negative_problems :: "string \<times> goint \<Rightarrow> string list" where
  "negative_problems f = (case f of (name, v) \<Rightarrow>
     if v < 0 then [''router: '' @ name @ '' is '' @ Itoa v @ '', must not be negative; omit the field to take the default'']
     else [])"

definition validateRouter :: "router_config \<Rightarrow> string list" where
  "validateRouter r =
     concat (map negative_problems [(''max_attempts'', ro_MaxAttempts r), (''retry_base_delay_ms'', ro_RetryBaseDelayMS r),
       (''max_retry_delay_ms'', ro_MaxRetryDelayMS r), (''breaker_threshold'', ro_BreakerThreshold r),
       (''breaker_cooldown_seconds'', ro_BreakerCooldownSeconds r)])
     @ (if MaxRouterAttempts < ro_MaxAttempts r then [''router: max_attempts is '' @ Itoa (ro_MaxAttempts r) @ '', must be at most ''
          @ Itoa MaxRouterAttempts @ ''; each attempt is a real upstream call and a large budget turns one request into a storm''] else [])
     @ (if MaxBreakerCooldownSeconds < ro_BreakerCooldownSeconds r then [''router: breaker_cooldown_seconds is ''
          @ Itoa (ro_BreakerCooldownSeconds r) @ '', must be at most '' @ Itoa MaxBreakerCooldownSeconds @ '' (one hour)''] else [])
     @ (if 0 < ro_RetryBaseDelayMS r \<and> 0 < ro_MaxRetryDelayMS r \<and> ro_MaxRetryDelayMS r < ro_RetryBaseDelayMS r
        then [''router: retry_base_delay_ms is '' @ Itoa (ro_RetryBaseDelayMS r) @ '' but max_retry_delay_ms is ''
          @ Itoa (ro_MaxRetryDelayMS r) @ ''; the first backoff step cannot exceed the cap on every step''] else [])"

definition validateAccounting :: "accounting_config \<Rightarrow> string list" where
  "validateAccounting a =
     (if StorePath a \<noteq> [] \<and> StorePath a = LedgerPath a
      then [''accounting: store_path and ledger_path are both '' @ Quote (StorePath a)
        @ ''; they are different files and must not share a path''] else [])"

definition validate_semantic :: "semantic_config \<Rightarrow> string list" where
  "validate_semantic s =
     (if EmbedAPIKey s = [] then [''cache: semantic.embed_api_key is required when semantic caching is on''] else [])
     @ (if sem_Threshold s \<noteq> 0 \<and> (sem_Threshold s < MinSemanticThreshold \<or> 1 < sem_Threshold s)
        then [''cache: semantic.threshold is '' @ FormatFloat_g (sem_Threshold s) @ '', must be between ''
          @ FormatFloat_g MinSemanticThreshold
          @ '' and 1; below that a neighbour is not the same question and the cache starts answering something nobody asked''] else [])
     @ (if sem_MaxPerTenant s < 0
        then [''cache: semantic.max_per_tenant is '' @ Itoa (sem_MaxPerTenant s) @ '', must not be negative''] else [])"

definition validateCache :: "cache_config \<Rightarrow> string list" where
  "validateCache c =
     (if cc_Enabled c then
        (if cc_MaxEntries c < 0 then [''cache: max_entries is '' @ Itoa (cc_MaxEntries c) @ '', must not be negative''] else [])
        @ (if cc_TTLSeconds c < 0 then [''cache: ttl_seconds is '' @ Itoa (cc_TTLSeconds c) @ '', must not be negative''] else [])
        @ (if cc_MaxTemperature c < 0
           then [''cache: max_temperature is '' @ FormatFloat_g (cc_MaxTemperature c) @ '', must not be negative''] else [])
        @ (if sem_Enabled (cc_Semantic c) then validate_semantic (cc_Semantic c) else [])
      else [])"

subsection \<open>Keys and tenants\<close>

definition weak_key :: "string \<Rightarrow> nat \<Rightarrow> string \<Rightarrow> string list" where
  "weak_key field i key = (if length key < MinClientKeyLength
     then [field @ ''['' @ FormatUint i @ ''] is shorter than '' @ FormatUint MinClientKeyLength
       @ '' characters and is too weak to guard a paid key''] else [])"

definition indexed_label :: "string \<Rightarrow> nat \<Rightarrow> string" where
  "indexed_label s i = s @ ''['' @ FormatUint i @ '']''"

definition tenant_label :: "nat \<Rightarrow> tenant_config \<Rightarrow> string" where
  "tenant_label i t = (if tc_Name t = [] then indexed_label ''tenants'' i else ''tenant '' @ Quote (tc_Name t))"

text \<open>The keys of one tenant: the problems, and who claims each key once the tenant was read.\<close>

fun tenant_key_problems ::
    "string list \<Rightarrow> string \<Rightarrow> string \<Rightarrow> nat \<Rightarrow> (string \<times> string) list \<Rightarrow> string list \<Rightarrow> string list \<times> (string \<times> string) list" where
  "tenant_key_problems clientKeys label name j tenantOfKey [] = ([], tenantOfKey)"
| "tenant_key_problems clientKeys label name j tenantOfKey (key # keys) =
     (let weak = weak_key (''auth: '' @ label @ '': keys'') j key;
          (claim, taken) =
            (if key \<in> set clientKeys then
               ([''auth: '' @ label @ '': keys['' @ FormatUint j
                 @ ''] also appears in auth.client_keys, which leaves the caller's identity ambiguous''], tenantOfKey)
             else case map_of tenantOfKey key of
               Some owner \<Rightarrow>
                 ([''auth: '' @ label @ '': keys['' @ FormatUint j @ ''] already belongs to tenant '' @ Quote owner
                   @ '', and a key may identify only one tenant''], tenantOfKey)
             | None \<Rightarrow> ([], (key, name) # tenantOfKey));
          (rest, final) = tenant_key_problems clientKeys label name (Suc j) taken keys
      in (weak @ claim @ rest, final))"

definition name_problems :: "string list \<Rightarrow> string \<Rightarrow> tenant_config \<Rightarrow> string list" where
  "name_problems names label t =
     (if tc_Name t = [] then [''auth: '' @ label @ '': name is required; it is how spend is attributed'']
      else if tc_Name t \<in> set names then [''auth: '' @ label @ '': duplicate name, tenant names must be unique'']
      else if \<not> tenantNamePattern (tc_Name t)
      then [''auth: '' @ label @ '': name must use only letters, digits, underscore and hyphen, with no whitespace, because it becomes a metrics label'']
      else [])"

definition limit_problems :: "string \<Rightarrow> tenant_limits \<Rightarrow> string list" where
  "limit_problems label l = concat (map (\<lambda>(name, v). if v < 0
       then [''auth: '' @ label @ '': '' @ name @ '' is '' @ FormatFloat_g v @ '', must not be negative; omit it or use 0 for unlimited''] else [])
     [(''requests_per_minute'', float_of_int (tl_RequestsPerMinute l)), (''tokens_per_minute'', float_of_int (tl_TokensPerMinute l)),
      (''daily_usd'', tl_DailyUSD l), (''monthly_usd'', tl_MonthlyUSD l)])"

fun tenant_problems ::
    "string list \<Rightarrow> nat \<Rightarrow> string list \<Rightarrow> (string \<times> string) list \<Rightarrow> tenant_config list \<Rightarrow> string list" where
  "tenant_problems clientKeys i names tenantOfKey [] = []"
| "tenant_problems clientKeys i names tenantOfKey (t # ts) =
     (let label = tenant_label i t;
          (keys, taken) = tenant_key_problems clientKeys label (tc_Name t) 0 tenantOfKey (tc_Keys t)
      in name_problems names label t
         @ (if tc_Keys t = [] then [''auth: '' @ label @ '': keys is empty; a tenant with no keys can never be reached''] else [])
         @ keys @ limit_problems label (tc_Limits t)
         @ tenant_problems clientKeys (Suc i) (tc_Name t # names) taken ts)"

definition validateAuth :: "config \<Rightarrow> string list" where
  "validateAuth c = (let a = cfg_Auth c in
     (if \<not> hasKeys a \<and> \<not> isLoopbackListen (Listen (cfg_Server c))
      then [''auth: no client_keys and no tenant keys are configured, so server.listen must stay on loopback (127.0.0.1 or localhost), got ''
        @ Quote (Listen (cfg_Server c)) @ ''; without keys any caller reaching this address spends the configured provider keys''] else [])
     @ concat (map (\<lambda>(i, k). weak_key ''auth: client_keys'' i k) (enumerate 0 (ClientKeys a)))
     @ tenant_problems (ClientKeys a) 0 [] [] (Tenants a)
     @ (if ClientKeys a \<noteq> [] \<and> Tenants a \<noteq> []
        then [''auth: client_keys and tenants are both set; an anonymous key has no account to bill, so move each client key under a tenant or drop the tenants to run without budgets'']
        else []))"

subsection \<open>Providers and routes\<close>

definition show_list :: "string list \<Rightarrow> string" where
  "show_list xs = ''['' @ (case xs of [] \<Rightarrow> [] | x # ys \<Rightarrow> x @ concat (map (\<lambda>y. '' '' @ y) ys)) @ '']''"

definition provider_label :: "nat \<Rightarrow> provider_config \<Rightarrow> string" where
  "provider_label i p = (if pc_Name p = [] then indexed_label ''providers'' i else ''provider '' @ Quote (pc_Name p))"

text \<open>\<open>url_parse\<close> gives the scheme and the host of a URL it accepts.\<close>

definition provider_problems ::
    "(string \<Rightarrow> (string \<times> string) option) \<Rightarrow> string list \<Rightarrow> nat \<Rightarrow> provider_config \<Rightarrow> string list" where
  "provider_problems url_parse names i p = (let label = provider_label i p in
     (if pc_Name p = [] then [label @ '': name is required'']
      else if pc_Name p \<in> set names then [label @ '': duplicate name, provider names must be unique''] else [])
     @ (if pc_Kind p \<notin> set AllKinds
        then [label @ '': unknown kind '' @ Quote (pc_Kind p) @ '', must be one of '' @ show_list AllKinds] else [])
     @ (if pc_BaseURL p = [] then [label @ '': base_url is required'']
        else case url_parse (pc_BaseURL p) of
          Some (scheme, host) \<Rightarrow> if host = [] \<or> (scheme \<noteq> ''http'' \<and> scheme \<noteq> ''https'')
            then [label @ '': base_url '' @ Quote (pc_BaseURL p) @ '' is not a valid http(s) URL''] else []
        | None \<Rightarrow> [label @ '': base_url '' @ Quote (pc_BaseURL p) @ '' is not a valid http(s) URL''])
     @ (if pc_APIKey p = [] then [label @ '': api_key is required and must not be empty''] else []))"

fun providers_problems :: "(string \<Rightarrow> (string \<times> string) option) \<Rightarrow> string list \<Rightarrow> nat \<Rightarrow> provider_config list \<Rightarrow> string list" where
  "providers_problems url_parse names i [] = []"
| "providers_problems url_parse names i (p # ps) =
     provider_problems url_parse names i p @ providers_problems url_parse (pc_Name p # names) (Suc i) ps"

text \<open>The model lists by provider name. The last list of a name is the one that counts.\<close>

definition model_lists :: "provider_config list \<Rightarrow> (string \<times> string list) list" where
  "model_lists ps = rev (map (\<lambda>p. (pc_Name p, pc_Models p)) (filter (\<lambda>p. pc_Models p \<noteq> []) ps))"

definition validateProviders ::
    "(string \<Rightarrow> (string \<times> string) option) \<Rightarrow> provider_config list \<Rightarrow> string list \<times> string list \<times> (string \<times> string list) list" where
  "validateProviders url_parse ps =
     ((if ps = [] then [''providers: at least one provider is required''] else []) @ providers_problems url_parse [] 0 ps,
      map pc_Name ps, model_lists ps)"

definition route_label :: "nat \<Rightarrow> route_config \<Rightarrow> string" where
  "route_label i r = (if rc_Model r = [] then indexed_label ''routes'' i else ''route '' @ Quote (rc_Model r))"

fun chain_problems ::
    "string list \<Rightarrow> (string \<times> string list) list \<Rightarrow> string \<Rightarrow> route_config \<Rightarrow> string list \<Rightarrow> string list \<Rightarrow> string list" where
  "chain_problems names models label r seen [] = []"
| "chain_problems names models label r seen (name # rest) =
     (if name \<in> set seen then [label @ '': provider '' @ Quote name @ '' appears twice in the chain'']
      else if name \<notin> set names then [label @ '': provider '' @ Quote name @ '' is not declared under providers'']
      else case map_of models name of
        Some ms \<Rightarrow> if UpstreamModel r name \<notin> set ms
          then [label @ '': provider '' @ Quote name @ '' does not list model '' @ Quote (UpstreamModel r name) @ '' under models'']
          else []
      | None \<Rightarrow> [])
     @ chain_problems names models label r (name # seen) rest"

definition route_problems ::
    "string list \<Rightarrow> (string \<times> string list) list \<Rightarrow> string list \<Rightarrow> nat \<Rightarrow> route_config \<Rightarrow> string list" where
  "route_problems names models routeModels i r = (let label = route_label i r in
     (if rc_Model r = [] then [label @ '': model is required'']
      else if rc_Model r \<in> set routeModels then [label @ '': duplicate model, route models must be unique''] else [])
     @ (if rc_Provider r \<noteq> [] \<and> rc_Providers r \<noteq> []
        then [label @ '': set either provider or providers, not both; naming both leaves the order ambiguous''] else [])
     @ (if Chain r = [] then [label @ '': provider or providers is required''] else [])
     @ chain_problems names models label r [] (Chain r)
     @ (if rc_Strategy r \<noteq> [] \<and> rc_Strategy r \<notin> set AllStrategies
        then [label @ '': strategy '' @ Quote (rc_Strategy r) @ '' must be one of '' @ show_list AllStrategies] else [])
     @ concat (map (\<lambda>(name, _). if name \<notin> set (Chain r)
         then [label @ '': provider_models names '' @ Quote name @ '', which is not in this route's chain''] else [])
         (rc_ProviderModels r)))"

fun routes_problems ::
    "string list \<Rightarrow> (string \<times> string list) list \<Rightarrow> string list \<Rightarrow> nat \<Rightarrow> route_config list \<Rightarrow> string list" where
  "routes_problems names models routeModels i [] = []"
| "routes_problems names models routeModels i (r # rs) =
     route_problems names models routeModels i r @ routes_problems names models (rc_Model r # routeModels) (Suc i) rs"

definition validateRoutes :: "string list \<Rightarrow> (string \<times> string list) list \<Rightarrow> route_config list \<Rightarrow> string list" where
  "validateRoutes names models rs =
     (if rs = [] then [''routes: at least one route is required''] else []) @ routes_problems names models [] 0 rs"

definition LogLevels :: "string list" where
  "LogLevels = [''debug'', ''info'', ''warn'', ''error'']"

definition validateTelemetry :: "telemetry_config \<Rightarrow> string list" where
  "validateTelemetry t = (if LogLevel t \<in> set LogLevels then []
     else [''telemetry: log_level '' @ Quote (LogLevel t) @ '' must be one of debug, info, warn, error''])"

definition config_Validate :: "(string \<Rightarrow> (string \<times> string) option) \<Rightarrow> config \<Rightarrow> string list" where
  "config_Validate url_parse c =
     validateServer (cfg_Server c) @ validateRouter (cfg_Router c) @ validateAccounting (cfg_Accounting c)
     @ validateCache (cfg_Cache c) @ validateAuth c
     @ (case validateProviders url_parse (cfg_Providers c) of (errs, names, models) \<Rightarrow>
          errs @ validateRoutes names models (cfg_Routes c))
     @ validateTelemetry (cfg_Telemetry c)"

section \<open>Loading\<close>

datatype load_error = OpenFailed | ParseFailed | MissingEnv "string list" | Invalid "string list"

text \<open>\<open>opened\<close> is whether the file could be opened, \<open>decoded\<close> what the YAML decoder made of it: an empty file
  leaves the zero configuration.\<close>

definition config_Load ::
    "bool \<Rightarrow> config option \<Rightarrow> (string \<Rightarrow> string option) \<Rightarrow> (string \<Rightarrow> (string \<times> string) option) \<Rightarrow> load_error + config" where
  "config_Load opened decoded env url_parse =
     (if \<not> opened then Inl OpenFailed
      else case decoded of
        None \<Rightarrow> Inl ParseFailed
      | Some cfg0 \<Rightarrow>
          (case expandSecrets env cfg0 of (missing, cfg1) \<Rightarrow>
             if missing \<noteq> [] then Inl (MissingEnv missing)
             else let cfg = applyDefaults cfg1; problems = config_Validate url_parse cfg in
               if problems \<noteq> [] then Inl (Invalid problems) else Inr cfg))"

section \<open>Reports carry no secret\<close>

text \<open>A configuration with every secret passed through \<open>f\<close>.\<close>

definition hide :: "(string \<Rightarrow> string) \<Rightarrow> config \<Rightarrow> config" where
  "hide f c = c\<lparr>
     cfg_Auth := \<lparr>ClientKeys = map f (ClientKeys (cfg_Auth c)),
       Tenants = map (\<lambda>t. t\<lparr>tc_Keys := map f (tc_Keys t)\<rparr>) (Tenants (cfg_Auth c))\<rparr>,
     cfg_Cache := (cfg_Cache c)\<lparr>cc_Semantic := (cc_Semantic (cfg_Cache c))\<lparr>EmbedAPIKey := f (EmbedAPIKey (cc_Semantic (cfg_Cache c)))\<rparr>\<rparr>,
     cfg_Providers := map (\<lambda>p. p\<lparr>pc_APIKey := f (pc_APIKey p)\<rparr>) (cfg_Providers c)\<rparr>"

lemma map_of_rename: "inj f \<Longrightarrow> map_of (map (\<lambda>(k, v). (f k, v)) xs) (f k) = map_of xs k"
  by (induction xs) (auto simp: inj_eq)

lemma tenant_key_problems_rename:
  assumes "inj f" "\<And>k. length (f k) = length k"
  shows "tenant_key_problems (map f cks) label name j (map (\<lambda>(k, v). (f k, v)) taken) (map f keys) =
    (case tenant_key_problems cks label name j taken keys of (ps, final) \<Rightarrow> (ps, map (\<lambda>(k, v). (f k, v)) final))"
proof (induction keys arbitrary: j taken)
  case (Cons key keys)
  have mem: "f key \<in> set (map f cks) \<longleftrightarrow> key \<in> set cks" using assms(1) by (auto simp: inj_eq)
  have weak: "weak_key field j (f key) = weak_key field j key" for field by (simp add: weak_key_def assms(2))
  note step = Cons.IH [of "Suc j"]
  show ?case
    unfolding list.map tenant_key_problems.simps mem weak map_of_rename [OF assms(1)]
    using step [of taken] step [of "(key, name) # taken"]
    by (auto simp: Let_def split: option.splits prod.splits)
qed simp

lemma tenant_problems_rename:
  assumes "inj f" "\<And>k. length (f k) = length k"
  shows "tenant_problems (map f cks) i names (map (\<lambda>(k, v). (f k, v)) taken) (map (\<lambda>t. t\<lparr>tc_Keys := map f (tc_Keys t)\<rparr>) ts) =
    tenant_problems cks i names taken ts"
  by (induction ts arbitrary: i names taken)
    (auto simp: Let_def tenant_key_problems_rename [OF assms] tenant_label_def name_problems_def split: prod.splits)

lemma validateAuth_hide:
  assumes "inj f" "\<And>k. length (f k) = length k"
  shows "validateAuth (hide f c) = validateAuth c"
proof -
  have "map (\<lambda>(i, k). weak_key field i k) (enumerate n (map f ks)) = map (\<lambda>(i, k). weak_key field i k) (enumerate n ks)" for field n ks
    by (induction ks arbitrary: n) (auto simp: weak_key_def assms(2))
  moreover have "hasKeys (cfg_Auth (hide f c)) = hasKeys (cfg_Auth c)" by (auto simp: hasKeys_def hide_def)
  moreover have "cfg_Server (hide f c) = cfg_Server c" "ClientKeys (cfg_Auth (hide f c)) = map f (ClientKeys (cfg_Auth c))"
    "Tenants (cfg_Auth (hide f c)) = map (\<lambda>t. t\<lparr>tc_Keys := map f (tc_Keys t)\<rparr>) (Tenants (cfg_Auth c))"
    by (simp_all add: hide_def)
  ultimately show ?thesis
    using tenant_problems_rename [OF assms, of "ClientKeys (cfg_Auth c)" 0 "[]" "[]"]
    by (simp only: validateAuth_def Let_def list.map map_is_Nil_conv)
qed

lemma validateProviders_hide:
  assumes "\<And>k. f k = [] \<longleftrightarrow> k = []"
  shows "validateProviders url_parse (map (\<lambda>p. p\<lparr>pc_APIKey := f (pc_APIKey p)\<rparr>) ps) = validateProviders url_parse ps"
proof -
  have "providers_problems url_parse names i (map (\<lambda>p. p\<lparr>pc_APIKey := f (pc_APIKey p)\<rparr>) ps) = providers_problems url_parse names i ps" for names i
  proof (induction ps arbitrary: names i)
    case (Cons p ps)
    have sel: "pc_Name (p\<lparr>pc_APIKey := k\<rparr>) = pc_Name p" "pc_Kind (p\<lparr>pc_APIKey := k\<rparr>) = pc_Kind p"
      "pc_BaseURL (p\<lparr>pc_APIKey := k\<rparr>) = pc_BaseURL p" "pc_APIKey (p\<lparr>pc_APIKey := k\<rparr>) = k" for k
      by simp_all
    have "provider_problems url_parse names i (p\<lparr>pc_APIKey := f (pc_APIKey p)\<rparr>) = provider_problems url_parse names i p"
      by (simp only: provider_problems_def provider_label_def assms sel)
    then show ?case using Cons.IH by simp
  qed simp
  then show ?thesis by (simp add: validateProviders_def model_lists_def comp_def filter_map)
qed

lemma validateCache_hide:
  assumes "\<And>k. f k = [] \<longleftrightarrow> k = []"
  shows "validateCache (cfg_Cache (hide f c)) = validateCache (cfg_Cache c)"
  by (simp add: hide_def validateCache_def validate_semantic_def assms)

text \<open>The variables a text refers to are reported by name, whatever the others hold.\<close>

definition env_set :: "(string \<Rightarrow> string option) \<Rightarrow> string \<Rightarrow> bool" where
  "env_set env n \<longleftrightarrow> (case env n of Some v \<Rightarrow> v \<noteq> [] | None \<Rightarrow> False)"

lemma expandEnvRefs_errs:
  assumes "\<And>n. env_set env n = env_set env' n"
  shows "snd (expandEnvRefs env d s) = snd (expandEnvRefs env' d s)"
proof (induction "length s" arbitrary: s rule: less_induct)
  case less
  show ?case
  proof (cases s)
    case (Cons c r)
    show ?thesis
    proof (cases "env_ref s")
      case None
      then show ?thesis using less [of r] Cons
        by (auto simp: expandEnvRefs.simps [of _ _ "c # r"] split: prod.splits)
    next
      case (Some x)
      obtain name rest where x: "x = (name, rest)" by (cases x)
      have "length rest < length s" using Some x Cons by (auto simp: env_ref_def Let_def split: if_splits)
      then have "snd (expandEnvRefs env d rest) = snd (expandEnvRefs env' d rest)" by (rule less)
      then show ?thesis using Some x Cons assms [of name]
        by (auto simp: expandEnvRefs.simps [of _ _ "c # r"] env_set_def split: prod.splits option.splits if_splits)
    qed
  qed (simp add: expandEnvRefs.simps)
qed

lemma expand_keys_errs:
  assumes "\<And>n. env_set env n = env_set env' n"
  shows "fst (expand_keys env field ks) = fst (expand_keys env' field ks)"
  by (simp add: expand_keys_def Let_def split_def comp_def expandEnvRefs_errs [OF assms])

lemma expandSecrets_errs:
  assumes "\<And>n. env_set env n = env_set env' n"
  shows "fst (expandSecrets env c) = fst (expandSecrets env' c)"
  by (simp add: expandSecrets_def Let_def expandAPIKeys_def expandClientKeys_def expandTenantKeys_def expandCacheKey_def comp_def
      expandEnvRefs_errs [OF assms] expand_keys_errs [OF assms] split_def)

text \<open>(C24) What loading reports carries no secret. Replacing every client key, tenant key, provider key and embedder key
  by another of the same length, distinct ones by distinct ones, leaves every report of validation as it was; and the
  report of missing variables is the same for every environment in which the same variables are set.\<close>

theorem reports_carry_no_secret:
  assumes "inj f" "\<And>k. length (f k) = length k" "\<And>n. env_set env n = env_set env' n"
  shows "config_Validate url_parse (hide f c) = config_Validate url_parse c \<and>
    fst (expandSecrets env c) = fst (expandSecrets env' c)"
proof -
  have nil: "f k = [] \<longleftrightarrow> k = []" for k using assms(2) [of k] by (metis length_0_conv)
  have same: "cfg_Server (hide f c) = cfg_Server c" "cfg_Router (hide f c) = cfg_Router c" "cfg_Accounting (hide f c) = cfg_Accounting c"
    "cfg_Routes (hide f c) = cfg_Routes c" "cfg_Telemetry (hide f c) = cfg_Telemetry c"
    "cfg_Providers (hide f c) = map (\<lambda>p. p\<lparr>pc_APIKey := f (pc_APIKey p)\<rparr>) (cfg_Providers c)"
    by (simp_all add: hide_def)
  show ?thesis
    by (simp only: config_Validate_def same validateAuth_hide [OF assms(1,2)] validateCache_hide [OF nil]
        validateProviders_hide [OF nil] expandSecrets_errs [OF assms(3)] simp_thms)
qed

section \<open>A configuration\<close>

definition demo_tenant :: "string \<Rightarrow> string list \<Rightarrow> tenant_config" where
  "demo_tenant name keys = \<lparr>tc_Name = name, tc_Keys = keys,
     tc_Limits = \<lparr>tl_RequestsPerMinute = 60, tl_TokensPerMinute = 0, tl_DailyUSD = 5, tl_MonthlyUSD = 0, tl_FailClosed = True\<rparr>\<rparr>"

definition demo_provider :: "string \<Rightarrow> string \<Rightarrow> provider_config" where
  "demo_provider name kind = \<lparr>pc_Name = name, pc_Kind = kind, pc_BaseURL = ''http://'' @ name, pc_APIKey = ''${KEY}'',
     pc_Models = [], pc_StreamUsage = None\<rparr>"

definition demo_config :: config where
  "demo_config = \<lparr>
     cfg_Server = \<lparr>Listen = '':8080'', ReadTimeoutMS = 0, UpstreamTimeoutMS = 0, StreamIdleTimeoutMS = 5000, AdminListen = [], MaxInflight = 0\<rparr>,
     cfg_Auth = \<lparr>ClientKeys = [], Tenants = [demo_tenant ''ann'' [''key-of-ann-00001'', ''key-of-ann-00002''], demo_tenant ''bob'' [''key-of-bob-00001'']]\<rparr>,
     cfg_Accounting = \<lparr>LedgerPath = ''ledger'', StorePath = []\<rparr>,
     cfg_Cache = \<lparr>cc_Enabled = False, cc_MaxEntries = 0, cc_TTLSeconds = 0, cc_MaxTemperature = 0,
       cc_Semantic = \<lparr>sem_Enabled = False, sem_Threshold = 0, EmbedModel = [], EmbedAPIKey = [], EmbedURL = [], sem_MaxPerTenant = 0\<rparr>\<rparr>,
     cfg_Providers = [demo_provider ''p'' ''openai'', demo_provider ''q'' ''groq''],
     cfg_Routes = [\<lparr>rc_Model = ''m'', rc_Provider = [], rc_Providers = [''p'', ''q''], rc_Strategy = [], rc_ProviderModels = [(''q'', ''mq'')]\<rparr>],
     cfg_Router = \<lparr>ro_MaxAttempts = 0, ro_RetryBaseDelayMS = 50, ro_MaxRetryDelayMS = 0, ro_BreakerThreshold = 0, ro_BreakerCooldownSeconds = 0\<rparr>,
     cfg_Telemetry = \<lparr>ServiceName = [], OTLPEndpoint = [], LogLevel = []\<rparr>\<rparr>"

definition swap_ab :: "char \<Rightarrow> char" where
  "swap_ab c = (if c = CHR ''a'' then CHR ''b'' else if c = CHR ''b'' then CHR ''a'' else c)"

definition demo_env :: "string \<Rightarrow> string \<Rightarrow> string option" where
  "demo_env v n = (if n = ''KEY'' then Some v else None)"

lemma swap_ab_inj: "inj (map swap_ab)"
  by (rule inj_mapI) (auto intro!: injI simp: swap_ab_def split: if_splits)

text \<open>Two keys of different tenants trade places: the reports do not change, nor does the report of a missing variable.\<close>

theorem reports_carry_no_secret_witness:
  "config_Validate (\<lambda>_. None) (hide (map swap_ab) demo_config) = config_Validate (\<lambda>_. None) demo_config \<and>
   fst (expandSecrets (demo_env ''x'') demo_config) = fst (expandSecrets (demo_env ''yy'') demo_config) \<and>
   hide (map swap_ab) demo_config \<noteq> demo_config"
proof -
  have "config_Validate (\<lambda>_. None) (hide (map swap_ab) demo_config) = config_Validate (\<lambda>_. None) demo_config \<and>
      fst (expandSecrets (demo_env ''x'') demo_config) = fst (expandSecrets (demo_env ''yy'') demo_config)"
    by (rule reports_carry_no_secret [OF swap_ab_inj]) (simp_all add: env_set_def demo_env_def)
  then show ?thesis by (simp add: hide_def demo_config_def demo_tenant_def swap_ab_def)
qed

end
