(* ===== verification/Configuration_Valid.thy ===== *)
theory Configuration_Valid
  imports Configuration
begin

text \<open>
  What a configuration must satisfy, stated without the scans that check it, and the proof that the scans of
  \<^verbatim>\<open>Config.Validate\<close> (\<^verbatim>\<open>src/internal/config/config.go\<close>) report nothing exactly then.
\<close>

section \<open>Valid configurations\<close>

definition valid_server :: "server_config \<Rightarrow> bool" where
  "valid_server s \<longleftrightarrow> (\<forall>v \<in> {ReadTimeoutMS s, UpstreamTimeoutMS s, StreamIdleTimeoutMS s}. 0 \<le> v \<and> v \<le> MaxTimeoutMS) \<and> 0 \<le> MaxInflight s"

definition valid_router :: "router_config \<Rightarrow> bool" where
  "valid_router r \<longleftrightarrow>
     (\<forall>v \<in> {ro_MaxAttempts r, ro_RetryBaseDelayMS r, ro_MaxRetryDelayMS r, ro_BreakerThreshold r, ro_BreakerCooldownSeconds r}. 0 \<le> v) \<and>
     ro_MaxAttempts r \<le> MaxRouterAttempts \<and> ro_BreakerCooldownSeconds r \<le> MaxBreakerCooldownSeconds \<and>
     (ro_RetryBaseDelayMS r = 0 \<or> ro_MaxRetryDelayMS r = 0 \<or> ro_RetryBaseDelayMS r \<le> ro_MaxRetryDelayMS r)"

definition valid_cache :: "cache_config \<Rightarrow> bool" where
  "valid_cache c \<longleftrightarrow> \<not> cc_Enabled c \<or>
     (0 \<le> cc_MaxEntries c \<and> 0 \<le> cc_TTLSeconds c \<and> 0 \<le> cc_MaxTemperature c \<and>
      (\<not> sem_Enabled (cc_Semantic c) \<or>
       EmbedAPIKey (cc_Semantic c) \<noteq> [] \<and> 0 \<le> sem_MaxPerTenant (cc_Semantic c) \<and>
       (sem_Threshold (cc_Semantic c) = 0 \<or> MinSemanticThreshold \<le> sem_Threshold (cc_Semantic c) \<and> sem_Threshold (cc_Semantic c) \<le> 1)))"

definition valid_limits :: "tenant_limits \<Rightarrow> bool" where
  "valid_limits l \<longleftrightarrow> 0 \<le> tl_RequestsPerMinute l \<and> 0 \<le> tl_TokensPerMinute l \<and> 0 \<le> tl_DailyUSD l \<and> 0 \<le> tl_MonthlyUSD l"

definition valid_auth :: "string \<Rightarrow> auth_config \<Rightarrow> bool" where
  "valid_auth listen a \<longleftrightarrow>
     (hasKeys a \<or> isLoopbackListen listen) \<and> (ClientKeys a = [] \<or> Tenants a = []) \<and>
     (\<forall>k \<in> set (ClientKeys a) \<union> (\<Union>t \<in> set (Tenants a). set (tc_Keys t)). MinClientKeyLength \<le> length k) \<and>
     distinct (map tc_Name (Tenants a)) \<and> (\<forall>t \<in> set (Tenants a). tenantNamePattern (tc_Name t) \<and> tc_Keys t \<noteq> [] \<and> valid_limits (tc_Limits t)) \<and>
     distinct (concat (map tc_Keys (Tenants a)))"

definition valid_provider :: "(string \<Rightarrow> (string \<times> string) option) \<Rightarrow> provider_config \<Rightarrow> bool" where
  "valid_provider url_parse p \<longleftrightarrow> pc_Name p \<noteq> [] \<and> pc_Kind p \<in> set AllKinds \<and> pc_BaseURL p \<noteq> [] \<and> pc_APIKey p \<noteq> [] \<and>
     (\<exists>scheme \<in> {''http'', ''https''}. \<exists>host. host \<noteq> [] \<and> url_parse (pc_BaseURL p) = Some (scheme, host))"

definition serves :: "provider_config list \<Rightarrow> string \<Rightarrow> string \<Rightarrow> bool" where
  "serves ps name model \<longleftrightarrow> (\<exists>p \<in> set ps. pc_Name p = name \<and> (pc_Models p = [] \<or> model \<in> set (pc_Models p)))"

definition valid_route :: "provider_config list \<Rightarrow> route_config \<Rightarrow> bool" where
  "valid_route ps r \<longleftrightarrow> rc_Model r \<noteq> [] \<and> (rc_Provider r = [] \<or> rc_Providers r = []) \<and> Chain r \<noteq> [] \<and> distinct (Chain r) \<and>
     (\<forall>name \<in> set (Chain r). serves ps name (UpstreamModel r name)) \<and>
     (rc_Strategy r = [] \<or> rc_Strategy r \<in> set AllStrategies) \<and> fst ` set (rc_ProviderModels r) \<subseteq> set (Chain r)"

definition valid_config :: "(string \<Rightarrow> (string \<times> string) option) \<Rightarrow> config \<Rightarrow> bool" where
  "valid_config url_parse c \<longleftrightarrow>
     valid_server (cfg_Server c) \<and> valid_router (cfg_Router c) \<and>
     (StorePath (cfg_Accounting c) = [] \<or> StorePath (cfg_Accounting c) \<noteq> LedgerPath (cfg_Accounting c)) \<and>
     valid_cache (cfg_Cache c) \<and> valid_auth (Listen (cfg_Server c)) (cfg_Auth c) \<and>
     cfg_Providers c \<noteq> [] \<and> distinct (map pc_Name (cfg_Providers c)) \<and> (\<forall>p \<in> set (cfg_Providers c). valid_provider url_parse p) \<and>
     cfg_Routes c \<noteq> [] \<and> distinct (map rc_Model (cfg_Routes c)) \<and> (\<forall>r \<in> set (cfg_Routes c). valid_route (cfg_Providers c) r) \<and>
     LogLevel (cfg_Telemetry c) \<in> set LogLevels"

section \<open>The scans find what is wrong\<close>

lemma validateServer_Nil: "validateServer s = [] \<longleftrightarrow> valid_server s"
  by (auto simp: validateServer_def timeout_problems_def valid_server_def split: if_splits)

lemma validateRouter_Nil: "validateRouter r = [] \<longleftrightarrow> valid_router r"
  by (auto simp: validateRouter_def negative_problems_def valid_router_def split: if_splits)

lemma validateAccounting_Nil: "validateAccounting a = [] \<longleftrightarrow> StorePath a = [] \<or> StorePath a \<noteq> LedgerPath a"
  by (auto simp: validateAccounting_def)

lemma validateCache_Nil: "validateCache c = [] \<longleftrightarrow> valid_cache c"
  by (auto simp: validateCache_def validate_semantic_def valid_cache_def split: if_splits)

lemma float_of_int_neg: "float_of_int n < 0 \<longleftrightarrow> n < 0"
proof (cases "n < 0")
  case True
  have "is_f64 (- (2 powi 0))" using is_f64_powi [of 0] by (simp add: is_f64_def rnd64_minus)
  then have one: "rnd64 (- 1) = - 1" by (simp add: is_f64_def)
  have "rnd64 (of_int n) \<le> rnd64 (- 1)" by (rule rnd64_mono) (use True in linarith)
  then show ?thesis using True one by (simp add: float_of_int_def)
next
  case False
  then show ?thesis using rnd64_nonneg [of "of_int n"] by (simp add: float_of_int_def)
qed

lemma limit_problems_Nil: "limit_problems label l = [] \<longleftrightarrow> valid_limits l"
  by (auto simp: limit_problems_def valid_limits_def float_of_int_neg not_less split: if_splits)

lemma weak_key_Nil: "weak_key field i k = [] \<longleftrightarrow> MinClientKeyLength \<le> length k"
  by (simp add: weak_key_def)

lemma tenant_key_problems_Nil:
  "fst (tenant_key_problems cks label name j taken keys) = [] \<longleftrightarrow>
    (\<forall>k \<in> set keys. MinClientKeyLength \<le> length k) \<and> set keys \<inter> (set cks \<union> fst ` set taken) = {} \<and> distinct keys"
  "fst (tenant_key_problems cks label name j taken keys) = [] \<Longrightarrow>
    fst ` set (snd (tenant_key_problems cks label name j taken keys)) = set keys \<union> fst ` set taken"
proof (induction keys arbitrary: j taken)
  case (Cons k keys)
  {
    case 1
    show ?case using Cons.IH(1) [of "Suc j" "(k, name) # taken"]
      by (auto simp: Let_def weak_key_Nil map_of_eq_None_iff dest: map_of_SomeD intro: rev_image_eqI split: prod.splits option.splits if_splits)
  next
    case 2
    then show ?case using Cons.IH(2) [of "Suc j" "(k, name) # taken"]
      by (auto simp: Let_def split: prod.splits option.splits if_splits)
  }
qed simp_all

lemma name_problems_Nil: "name_problems names label t = [] \<longleftrightarrow> tenantNamePattern (tc_Name t) \<and> tc_Name t \<notin> set names"
  by (auto simp: name_problems_def tenantNamePattern_def)

lemma tenant_problems_Nil:
  "tenant_problems cks i names taken ts = [] \<longleftrightarrow>
    (\<forall>t \<in> set ts. tenantNamePattern (tc_Name t) \<and> tc_Keys t \<noteq> [] \<and> valid_limits (tc_Limits t) \<and>
       (\<forall>k \<in> set (tc_Keys t). MinClientKeyLength \<le> length k)) \<and>
    distinct (map tc_Name ts) \<and> set (map tc_Name ts) \<inter> set names = {} \<and>
    distinct (concat (map tc_Keys ts)) \<and> (\<Union>t \<in> set ts. set (tc_Keys t)) \<inter> (set cks \<union> fst ` set taken) = {}"
proof (induction ts arbitrary: i names taken)
  case (Cons t ts)
  let ?r = "tenant_key_problems cks (tenant_label i t) (tc_Name t) 0 taken (tc_Keys t)"
  obtain ps final where r: "?r = (ps, final)" by (cases ?r)
  have final: "fst ` set final = set (tc_Keys t) \<union> fst ` set taken" if "ps = []"
    using tenant_key_problems_Nil(2) [of cks "tenant_label i t" "tc_Name t" 0 taken "tc_Keys t"] that r by simp
  have "tenant_problems cks i names taken (t # ts) = [] \<longleftrightarrow>
      tenantNamePattern (tc_Name t) \<and> tc_Name t \<notin> set names \<and> tc_Keys t \<noteq> [] \<and> ps = [] \<and> valid_limits (tc_Limits t) \<and>
      tenant_problems cks (Suc i) (tc_Name t # names) final ts = []"
    by (simp add: r name_problems_Nil limit_problems_Nil Let_def)
  moreover have "ps = [] \<longleftrightarrow> (\<forall>k \<in> set (tc_Keys t). MinClientKeyLength \<le> length k) \<and>
      set (tc_Keys t) \<inter> (set cks \<union> fst ` set taken) = {} \<and> distinct (tc_Keys t)"
    using tenant_key_problems_Nil(1) [of cks "tenant_label i t" "tc_Name t" 0 taken "tc_Keys t"] r by simp
  moreover have "ps = [] \<longrightarrow> (set (tc_Keys t) \<inter> (\<Union>t \<in> set ts. set (tc_Keys t)) = {} \<and> (\<Union>t \<in> set ts. set (tc_Keys t)) \<inter> (set cks \<union> fst ` set taken) = {} \<longleftrightarrow>
      (\<Union>t \<in> set ts. set (tc_Keys t)) \<inter> (set cks \<union> fst ` set final) = {})"
    using final by blast
  moreover have "distinct (concat (map tc_Keys (t # ts))) \<longleftrightarrow> distinct (tc_Keys t) \<and> distinct (concat (map tc_Keys ts)) \<and>
      set (tc_Keys t) \<inter> (\<Union>t \<in> set ts. set (tc_Keys t)) = {}"
    by simp
  moreover have "(\<Union>t \<in> set (t # ts). set (tc_Keys t)) \<inter> (set cks \<union> fst ` set taken) = {} \<longleftrightarrow>
      set (tc_Keys t) \<inter> (set cks \<union> fst ` set taken) = {} \<and> (\<Union>t \<in> set ts. set (tc_Keys t)) \<inter> (set cks \<union> fst ` set taken) = {}"
    by (simp add: Int_Un_distrib2)
  moreover have "set (map tc_Name (t # ts)) \<inter> set names = {} \<and> distinct (map tc_Name (t # ts)) \<longleftrightarrow> tc_Name t \<notin> set names \<and>
      set (map tc_Name ts) \<inter> set (tc_Name t # names) = {} \<and> distinct (map tc_Name ts)"
    by auto
  ultimately show ?case unfolding Cons.IH [of "Suc i" "tc_Name t # names" final] list.set(2) ball_simps(7)
    by argo
qed simp

lemma validateAuth_Nil: "validateAuth c = [] \<longleftrightarrow> valid_auth (Listen (cfg_Server c)) (cfg_Auth c)"
proof -
  have "concat (map (\<lambda>(i, k). weak_key field i k) (enumerate n ks)) = [] \<longleftrightarrow> (\<forall>k \<in> set ks. MinClientKeyLength \<le> length k)" for field n ks
    by (induction ks arbitrary: n) (simp_all add: weak_key_Nil)
  then show ?thesis
    by (simp only: validateAuth_def valid_auth_def Let_def append_is_Nil_conv tenant_problems_Nil) auto
qed

lemma provider_problems_Nil:
  "provider_problems url_parse names i p = [] \<longleftrightarrow> valid_provider url_parse p \<and> pc_Name p \<notin> set names"
  by (auto simp: provider_problems_def valid_provider_def Let_def split: option.splits if_splits)

lemma providers_problems_Nil:
  "providers_problems url_parse names i ps = [] \<longleftrightarrow>
    (\<forall>p \<in> set ps. valid_provider url_parse p) \<and> distinct (map pc_Name ps) \<and> set (map pc_Name ps) \<inter> set names = {}"
  by (induction ps arbitrary: names i) (auto simp: provider_problems_Nil)

lemma model_lists_serve:
  assumes "distinct (map pc_Name ps)"
  shows "name \<in> set (map pc_Name ps) \<and> (case map_of (model_lists ps) name of Some ms \<Rightarrow> model \<in> set ms | None \<Rightarrow> True) \<longleftrightarrow> serves ps name model"
proof -
  let ?ml = "map (\<lambda>p. (pc_Name p, pc_Models p)) (filter (\<lambda>p. pc_Models p \<noteq> []) ps)"
  have d: "distinct (map fst ?ml)" using assms by (simp add: comp_def distinct_map_filter)
  have "map_of (model_lists ps) = map_of ?ml" using d unfolding model_lists_def by (subst map_of_inject_set) (simp_all flip: rev_map)
  moreover have "map_of ?ml name = Some ms \<longleftrightarrow> (\<exists>p \<in> set ps. pc_Name p = name \<and> pc_Models p = ms \<and> ms \<noteq> [])" for ms
    using d by (auto simp: image_iff)
  moreover have "pc_Name p = pc_Name q \<Longrightarrow> p \<in> set ps \<Longrightarrow> q \<in> set ps \<Longrightarrow> p = q" for p q
    using assms by (meson distinct_map inj_onD)
  ultimately show ?thesis by (auto simp: serves_def split: option.splits)
qed

lemma chain_problems_Nil:
  assumes "distinct (map pc_Name ps)"
  shows "chain_problems (map pc_Name ps) (model_lists ps) label r seen chain = [] \<longleftrightarrow>
    distinct chain \<and> set chain \<inter> set seen = {} \<and> (\<forall>name \<in> set chain. serves ps name (UpstreamModel r name))"
proof (induction chain arbitrary: seen)
  case (Cons name chain)
  have "chain_problems (map pc_Name ps) (model_lists ps) label r seen (name # chain) = [] \<longleftrightarrow>
      name \<notin> set seen \<and> serves ps name (UpstreamModel r name) \<and>
      chain_problems (map pc_Name ps) (model_lists ps) label r (name # seen) chain = []"
    unfolding model_lists_serve [OF assms, symmetric] by (auto split: option.splits)
  then show ?case unfolding Cons.IH by auto
qed simp

lemma route_problems_Nil:
  assumes "distinct (map pc_Name ps)"
  shows "route_problems (map pc_Name ps) (model_lists ps) seen i r = [] \<longleftrightarrow> valid_route ps r \<and> rc_Model r \<notin> set seen"
  by (auto simp: route_problems_def valid_route_def Let_def chain_problems_Nil [OF assms] split: if_splits)

lemma routes_problems_Nil:
  assumes "distinct (map pc_Name ps)"
  shows "routes_problems (map pc_Name ps) (model_lists ps) seen i rs = [] \<longleftrightarrow>
    (\<forall>r \<in> set rs. valid_route ps r) \<and> distinct (map rc_Model rs) \<and> set (map rc_Model rs) \<inter> set seen = {}"
  by (induction rs arbitrary: seen i) (auto simp: route_problems_Nil [OF assms])

lemma config_Validate_Nil: "config_Validate url_parse c = [] \<longleftrightarrow> valid_config url_parse c"
proof -
  have "providers_problems url_parse [] 0 (cfg_Providers c) = [] \<and>
      routes_problems (map pc_Name (cfg_Providers c)) (model_lists (cfg_Providers c)) [] 0 (cfg_Routes c) = [] \<longleftrightarrow>
      (\<forall>p \<in> set (cfg_Providers c). valid_provider url_parse p) \<and> distinct (map pc_Name (cfg_Providers c)) \<and>
      (\<forall>r \<in> set (cfg_Routes c). valid_route (cfg_Providers c) r) \<and> distinct (map rc_Model (cfg_Routes c))"
    using routes_problems_Nil [of "cfg_Providers c" "[]" 0 "cfg_Routes c"] by (auto simp: providers_problems_Nil)
  moreover have "validateTelemetry t = [] \<longleftrightarrow> LogLevel t \<in> set LogLevels" for t by (simp add: validateTelemetry_def)
  ultimately show ?thesis
    unfolding config_Validate_def valid_config_def validateProviders_def validateRoutes_def prod.case append_is_Nil_conv
      validateServer_Nil validateRouter_Nil validateAccounting_Nil validateCache_Nil validateAuth_Nil
    by auto
qed


end
