(* ===== verification/OpenAI_Wire.thy ===== *)
theory OpenAI_Wire
  imports SSE JSON_Encode
begin

text \<open>
  The OpenAI wire adapter (\<^verbatim>\<open>src/internal/providers/openaiwire\<close>) with the status classification of
  \<^verbatim>\<open>src/internal/providers/errors.go\<close>: vendor profiles, the request it posts, the error it makes of a refusal
  or a broken transport, the best effort reading of usage, and the stream reader whose only sign of a
  complete answer is the \<^verbatim>\<open>[DONE]\<close> event. The HTTP client is an argument: what building a request and sending it
  return. The lemmas lead to the statement that a stream cut at any byte is never reported as complete.
\<close>

section \<open>Profiles\<close>

record profile =
  defaultBaseURL :: string
  prof_headers :: "(string \<times> string) list"
  streamUsage :: bool

definition openAIBaseURL :: string where "openAIBaseURL = ''https://api.openai.com/v1''"
definition groqBaseURL :: string where "groqBaseURL = ''https://api.groq.com/openai/v1''"
definition cerebrasBaseURL :: string where "cerebrasBaseURL = ''https://api.cerebras.ai/v1''"
definition mistralBaseURL :: string where "mistralBaseURL = ''https://api.mistral.ai/v1''"
definition openRouterBaseURL :: string where "openRouterBaseURL = ''https://openrouter.ai/api/v1''"
definition openRouterReferer :: string where "openRouterReferer = ''https://github.com/rajeev-chaurasia/pen-stock''"

definition profiles :: "(string \<times> profile) list" where
  "profiles =
     [(''openai'', \<lparr>defaultBaseURL = openAIBaseURL, prof_headers = [], streamUsage = True\<rparr>),
      (''groq'', \<lparr>defaultBaseURL = groqBaseURL, prof_headers = [], streamUsage = True\<rparr>),
      (''cerebras'', \<lparr>defaultBaseURL = cerebrasBaseURL, prof_headers = [], streamUsage = True\<rparr>),
      (''mistral'', \<lparr>defaultBaseURL = mistralBaseURL, prof_headers = [], streamUsage = False\<rparr>),
      (''openrouter'', \<lparr>defaultBaseURL = openRouterBaseURL,
         prof_headers = [(''HTTP-Referer'', openRouterReferer), (''X-Title'', ''Penstock'')], streamUsage = True\<rparr>),
      (''openai_compat'', \<lparr>defaultBaseURL = [], prof_headers = [], streamUsage = False\<rparr>)]"

record wire_provider =
  wp_name :: string
  wp_baseURL :: string
  wp_apiKey :: string
  wp_profile :: profile

definition TrimRight_slash :: "string \<Rightarrow> string" where
  "TrimRight_slash s = rev (dropWhile (\<lambda>c. c = CHR ''/'') (rev s))"

definition newWithProfile :: "string \<Rightarrow> string \<Rightarrow> string \<Rightarrow> profile \<Rightarrow> wire_provider" where
  "newWithProfile name baseURL apiKey prof =
     \<lparr>wp_name = name, wp_baseURL = TrimRight_slash baseURL, wp_apiKey = apiKey, wp_profile = prof\<rparr>"

definition errNoBaseURL :: err where "errNoBaseURL = OtherErr ''base_url is required''"

text \<open>\<^verbatim>\<open>builderFor\<close>: a map lookup of a missing kind gives the zero profile.\<close>

definition builderFor ::
  "string \<Rightarrow> string \<Rightarrow> string \<Rightarrow> string \<Rightarrow> bool option \<Rightarrow> err + wire_provider" where
  "builderFor kind cfgName cfgBaseURL cfgAPIKey cfgStreamUsage =
     (let prof = (case map_of profiles kind of Some p \<Rightarrow> p
                   | None \<Rightarrow> \<lparr>defaultBaseURL = [], prof_headers = [], streamUsage = False\<rparr>);
          baseURL = (if cfgBaseURL = [] then defaultBaseURL prof else cfgBaseURL);
          effective = (case cfgStreamUsage of None \<Rightarrow> prof | Some b \<Rightarrow> prof\<lparr>streamUsage := b\<rparr>)
      in if baseURL = [] then Inl (WrapErr (''kind '' @ Quote kind @ '' has no default endpoint: '') errNoBaseURL)
         else Inr (newWithProfile cfgName baseURL cfgAPIKey effective))"

section \<open>Asking for usage\<close>

text \<open>\<^verbatim>\<open>decodeObject\<close>: one JSON object, and no further value after it. \<^verbatim>\<open>Decoder.More\<close> does not count a closing
  bracket as a further value.\<close>

definition decodeObject :: "bytes \<Rightarrow> (string \<times> json) list option" where
  "decodeObject raw = (case parse_value (length raw + 1) 0 raw of
       Some (JObj ms, r) \<Rightarrow>
         (case skip_ws r of
            [] \<Rightarrow> Some (map_value (any_members ms))
          | c # _ \<Rightarrow> if c = CHR '']'' \<or> c = CHR ''}'' then Some (map_value (any_members ms)) else None)
     | _ \<Rightarrow> None)"

definition withStreamUsage :: "bytes \<Rightarrow> profile \<Rightarrow> bytes" where
  "withStreamUsage raw prof =
     (if \<not> streamUsage prof then raw
      else case decodeObject raw of
        None \<Rightarrow> raw
      | Some body \<Rightarrow>
          if map_of body ''stream'' \<noteq> Some (JBool True) then raw
          else
            (let patch = (\<lambda>opts. if map_of opts ''include_usage'' \<noteq> None then raw
                   else encode (JObj (map_put ''stream_options'' (JObj (map_put ''include_usage'' (JBool True) opts)) body)))
             in case map_of body ''stream_options'' of
                  None \<Rightarrow> patch []
                | Some (JObj opts) \<Rightarrow> patch opts
                | Some _ \<Rightarrow> raw))"

section \<open>Requests and refusals\<close>

record http_request =
  hreq_url :: string
  hreq_headers :: "(string \<times> string) list"
  hreq_body :: bytes

record http_response =
  hresp_status :: goint
  hresp_body :: bytes
  hresp_fin :: err

text \<open>The client: the error of building a request for a URL, if any, and what sending one returns; and the
  context's own error at that time.\<close>

record http_client =
  hc_build :: "string \<Rightarrow> err option"
  hc_do :: "http_request \<Rightarrow> err + http_response"
  hc_ctx :: "err option"

text \<open>\<^verbatim>\<open>textproto.CanonicalMIMEHeaderKey\<close> on the names used here.\<close>

fun canonical_key :: "bool \<Rightarrow> string \<Rightarrow> string" where
  "canonical_key up [] = []"
| "canonical_key up (c # s) =
     (let b = byte c;
          c' = (if up \<and> 97 \<le> b \<and> b \<le> 122 then char_of (b - 32)
                else if \<not> up \<and> 65 \<le> b \<and> b \<le> 90 then char_of (b + 32) else c)
      in c' # canonical_key (c = CHR ''-'') s)"

definition header_Set :: "string \<Rightarrow> string \<Rightarrow> (string \<times> string) list \<Rightarrow> (string \<times> string) list" where
  "header_Set name val hs = AList.update (canonical_key True name) val hs"

definition transportError :: "wire_provider \<Rightarrow> err option \<Rightarrow> string \<Rightarrow> err \<Rightarrow> err" where
  "transportError p ctxErr doing e =
     (let cls = (if errors_Is e ContextDeadlineExceeded \<or> ctxErr = Some ContextDeadlineExceeded then ErrClassTimeout
                 else if errors_Is e ContextCanceled \<or> ctxErr = Some ContextCanceled then ErrClassCanceled
                 else ErrClassUpstream)
      in ProviderError (wp_name p) cls 0 (doing @ '' failed'') (Some (WrapErr (doing @ '': '') e)))"

definition post :: "http_client \<Rightarrow> wire_provider \<Rightarrow> bytes \<Rightarrow> err + http_response" where
  "post hc p raw =
     (let url = wp_baseURL p @ ''/chat/completions'';
          headers = header_Set ''Authorization'' (''Bearer '' @ wp_apiKey p)
            (header_Set ''Content-Type'' ''application/json''
              (fold (\<lambda>(n, v). header_Set n v) (prof_headers (wp_profile p)) []))
      in case hc_build hc url of
           Some e \<Rightarrow> Inl (ProviderError (wp_name p) ErrClassInternal 0 ''build upstream request''
                           (Some (WrapErr ''build upstream request: '' e)))
         | None \<Rightarrow>
             (case hc_do hc \<lparr>hreq_url = url, hreq_headers = headers, hreq_body = raw\<rparr> of
                Inl e \<Rightarrow> Inl (transportError p (hc_ctx hc) ''call upstream'' e)
              | Inr resp \<Rightarrow> Inr resp))"

text \<open>\<^verbatim>\<open>io.ReadAll\<close> of a body behind a \<^verbatim>\<open>LimitReader\<close>: at most \<open>n\<close> bytes, and an error only if the body fails
  before them.\<close>

definition ReadAll_limit :: "nat \<Rightarrow> bytes \<Rightarrow> err \<Rightarrow> bytes \<times> err option" where
  "ReadAll_limit n body fin =
     (if n \<le> length body then (take n body, None) else (body, if fin = IoEOF then None else Some fin))"

definition maxErrorBody :: nat where "maxErrorBody = 8192"
definition maxResponseBytes :: nat where "maxResponseBytes = 33554432"

text \<open>A struct with a string field \<^verbatim>\<open>message\<close>, decoded from the values of a field of that type; \<open>None\<close> is an error.\<close>

definition decode_message_of :: "json list \<Rightarrow> string option \<Rightarrow> string option option" where
  "decode_message_of vs zero = foldl (\<lambda>acc v. case acc of
       None \<Rightarrow> None
     | Some m \<Rightarrow>
         (case v of
            JNull \<Rightarrow> Some zero
          | JObj ms \<Rightarrow> map_option Some (decode_field as_string (case m of None \<Rightarrow> [] | Some x \<Rightarrow> x) (field_values ''message'' ms))
          | _ \<Rightarrow> None)) (Some zero) vs"

definition looksLikeErrorEnvelope :: "bytes \<Rightarrow> bool" where
  "looksLikeErrorEnvelope body = (case json_parse body of
       Some (JObj ms) \<Rightarrow> (case decode_message_of (field_values ''error'' ms) None of Some (Some _) \<Rightarrow> True | _ \<Rightarrow> False)
     | _ \<Rightarrow> False)"

definition ClassFromStatusAndBody :: "goint \<Rightarrow> bytes \<Rightarrow> error_class" where
  "ClassFromStatusAndBody code body =
     (if code = 404 \<and> \<not> looksLikeErrorEnvelope body then ErrClassUpstream else ClassFromStatus code)"

text \<open>Here the field is a struct and not a pointer, so \<^verbatim>\<open>null\<close> leaves what is there.\<close>

definition decode_error_message :: "json list \<Rightarrow> string option" where
  "decode_error_message vs = foldl (\<lambda>acc v. case acc of
       None \<Rightarrow> None
     | Some m \<Rightarrow>
         (case v of
            JNull \<Rightarrow> Some m
          | JObj ms \<Rightarrow> decode_field as_string m (field_values ''message'' ms)
          | _ \<Rightarrow> None)) (Some []) vs"

definition upstreamErrorMessage :: "bytes \<Rightarrow> goint \<Rightarrow> string" where
  "upstreamErrorMessage body status =
     (let m = (case json_parse body of
                 Some (JObj ms) \<Rightarrow> (case decode_error_message (field_values ''error'' ms) of Some m \<Rightarrow> m | None \<Rightarrow> [])
               | _ \<Rightarrow> []);
          s = TrimSpace body
      in if m \<noteq> [] then m else if s \<noteq> [] then s else ''upstream returned status '' @ Itoa status)"

definition statusError :: "wire_provider \<Rightarrow> http_response \<Rightarrow> err" where
  "statusError p resp =
     (let body = fst (ReadAll_limit maxErrorBody (hresp_body resp) (hresp_fin resp))
      in ProviderError (wp_name p) (ClassFromStatusAndBody (hresp_status resp) body) (hresp_status resp)
           (upstreamErrorMessage body (hresp_status resp)) None)"

section \<open>Usage\<close>

text \<open>\<^verbatim>\<open>usageJSON\<close> decoded over what is there, strictly (an error when a field has the wrong type) and with the
  error thrown away.\<close>

definition usage_strict :: "usage \<Rightarrow> (string \<times> json) list \<Rightarrow> usage option" where
  "usage_strict u ms =
     (case (decode_field as_int (PromptTokens u) (field_values ''prompt_tokens'' ms),
            decode_field as_int (CompletionTokens u) (field_values ''completion_tokens'' ms),
            decode_field as_int (TotalTokens u) (field_values ''total_tokens'' ms)) of
        (Some p, Some c, Some t) \<Rightarrow> Some \<lparr>PromptTokens = p, CompletionTokens = c, TotalTokens = t\<rparr>
      | _ \<Rightarrow> None)"

definition usage_lenient :: "usage \<Rightarrow> (string \<times> json) list \<Rightarrow> usage" where
  "usage_lenient u ms =
     \<lparr>PromptTokens = decode_lenient as_int (PromptTokens u) (field_values ''prompt_tokens'' ms),
      CompletionTokens = decode_lenient as_int (CompletionTokens u) (field_values ''completion_tokens'' ms),
      TotalTokens = decode_lenient as_int (TotalTokens u) (field_values ''total_tokens'' ms)\<rparr>"

definition chunk_usage :: "bytes \<Rightarrow> usage option" where
  "chunk_usage data = (case json_parse data of
       Some (JObj ms) \<Rightarrow>
         (case foldl (\<lambda>acc v. case acc of
              None \<Rightarrow> None
            | Some u \<Rightarrow>
                (case v of
                   JNull \<Rightarrow> Some None
                 | JObj fs \<Rightarrow> map_option Some (usage_strict (case u of None \<Rightarrow> zero_usage | Some x \<Rightarrow> x) fs)
                 | _ \<Rightarrow> None)) (Some None) (field_values ''usage'' ms) of
            Some u \<Rightarrow> u
          | None \<Rightarrow> None)
     | _ \<Rightarrow> None)"

definition body_usage :: "bytes \<Rightarrow> usage" where
  "body_usage body = (case json_parse body of
       Some (JObj ms) \<Rightarrow>
         foldl (\<lambda>u v. case v of JObj fs \<Rightarrow> usage_lenient u fs | _ \<Rightarrow> u) zero_usage (field_values ''usage'' ms)
     | _ \<Rightarrow> zero_usage)"

definition wire_Chat :: "http_client \<Rightarrow> wire_provider \<Rightarrow> chat_request \<Rightarrow> err + chat_response" where
  "wire_Chat hc p req = (case post hc p (ReqRaw req) of
       Inl e \<Rightarrow> Inl e
     | Inr resp \<Rightarrow>
         if \<not> Is2xx (hresp_status resp) then Inl (statusError p resp)
         else (case ReadAll_limit (maxResponseBytes + 1) (hresp_body resp) (hresp_fin resp) of
             (body, Some e) \<Rightarrow> Inl (transportError p (hc_ctx hc) ''read upstream response'' e)
           | (body, None) \<Rightarrow>
               if maxResponseBytes < length body
               then Inl (ProviderError (wp_name p) ErrClassUpstream 0
                      (''upstream response exceeds '' @ Itoa (int maxResponseBytes) @ '' byte limit'') None)
               else Inr \<lparr>RespModel = ReqModel req, RespProvider = wp_name p, RespBody = body, RespUsage = body_usage body\<rparr>))"

section \<open>The stream reader\<close>

definition sseDoneSentinel :: string where "sseDoneSentinel = ''[DONE]''"

record stream_reader =
  sr_provider :: string
  sr_body :: bytes
  sr_fin :: err
  sr_closed :: bool
  sr_done :: bool
  sr_sawDone :: bool
  sr_termErr :: "err option"

definition newStreamReader :: "string \<Rightarrow> bytes \<Rightarrow> err \<Rightarrow> stream_reader" where
  "newStreamReader provider body fin =
     \<lparr>sr_provider = provider, sr_body = body, sr_fin = fin, sr_closed = False, sr_done = False, sr_sawDone = False,
      sr_termErr = None\<rparr>"

definition stream_finish :: "stream_reader \<Rightarrow> err \<Rightarrow> stream_reader" where
  "stream_finish r e = r\<lparr>sr_done := True, sr_termErr := Some e\<rparr>"

definition stream_Close :: "stream_reader \<Rightarrow> stream_reader" where
  "stream_Close r = r\<lparr>sr_closed := True\<rparr>"

definition recvError :: "stream_reader \<Rightarrow> err option \<Rightarrow> err \<Rightarrow> bool \<Rightarrow> err" where
  "recvError r ctxErr e userClosed =
     (if errors_Is e IoEOF then (if sr_sawDone r then IoEOF else ErrStreamTruncated)
      else if errors_Is e ErrSSEEventTooLarge
      then ProviderError (sr_provider r) ErrClassUpstream 0
             (''upstream SSE event exceeds '' @ Itoa MaxSSEEventBytes @ '' byte limit'') (Some e)
      else if errors_Is e ContextDeadlineExceeded \<or> ctxErr = Some ContextDeadlineExceeded
      then ProviderError (sr_provider r) ErrClassTimeout 0 ''stream read timed out'' (Some e)
      else if errors_Is e ContextCanceled \<or> ctxErr = Some ContextCanceled
      then ProviderError (sr_provider r) ErrClassCanceled 0 ''stream canceled'' (Some e)
      else if userClosed then ErrStreamTruncated
      else ProviderError (sr_provider r) ErrClassUpstream 0 ''stream read failed'' (Some e))"

text \<open>\<^verbatim>\<open>Recv\<close>. The owner may close the reader while a read is blocked: \<open>torn\<close> is then the error that read
  fails with.\<close>

function Recv_loop :: "err option \<Rightarrow> stream_reader \<Rightarrow> (err + stream_chunk) \<times> stream_reader" where
  "Recv_loop ctxErr r = (case Next (sr_body r) (sr_fin r) of
       (Inl e, rest) \<Rightarrow>
         (let r1 = stream_Close (r\<lparr>sr_body := rest\<rparr>); r2 = stream_finish r1 (recvError r1 ctxErr e (sr_closed r))
          in (Inl (recvError r1 ctxErr e (sr_closed r)), r2))
     | (Inr ev, rest) \<Rightarrow>
         (let r1 = r\<lparr>sr_body := rest\<rparr> in
          if ev_Keepalive ev then (Inr (empty_chunk\<lparr>Keepalive := True\<rparr>), r1)
          else if \<not> HasData ev then Recv_loop ctxErr r1
          else if ev_Data ev = sseDoneSentinel
          then (Inl IoEOF, stream_finish (stream_Close (r1\<lparr>sr_sawDone := True\<rparr>)) IoEOF)
          else (Inr (empty_chunk\<lparr>ChunkData := ev_Data ev, ChunkUsage := chunk_usage (ev_Data ev)\<rparr>), r1)))"
  by pat_completeness auto
termination
  by (relation "measure (\<lambda>(ctxErr, r). length (sr_body r))") (auto dest!: Next_bounded(2) [OF sym])

declare Recv_loop.simps [simp del]

definition Recv :: "err option \<Rightarrow> err option \<Rightarrow> stream_reader \<Rightarrow> (err + stream_chunk) \<times> stream_reader" where
  "Recv ctxErr torn r =
     (if sr_done r then (Inl (case sr_termErr r of Some e \<Rightarrow> e | None \<Rightarrow> IoEOF), r)
      else if sr_closed r then (Inl ErrStreamTruncated, stream_finish r ErrStreamTruncated)
      else case torn of
        None \<Rightarrow> Recv_loop ctxErr r
      | Some e \<Rightarrow>
          (let r1 = stream_Close r; x = recvError r1 ctxErr e True in (Inl x, stream_finish r1 x)))"

definition wire_ChatStream :: "http_client \<Rightarrow> wire_provider \<Rightarrow> chat_request \<Rightarrow> err + stream_reader" where
  "wire_ChatStream hc p req = (case post hc p (withStreamUsage (ReqRaw req) (wp_profile p)) of
       Inl e \<Rightarrow> Inl e
     | Inr resp \<Rightarrow>
         if \<not> Is2xx (hresp_status resp) then Inl (statusError p resp)
         else Inr (newStreamReader (wp_name p) (hresp_body resp) (hresp_fin resp)))"

section \<open>Reading to the end\<close>

lemma Recv_loop_progress:
  "Recv_loop ctxErr r = (Inr c, r') \<Longrightarrow> length (sr_body r') < length (sr_body r) \<and> sr_fin r' = sr_fin r
     \<and> sr_done r' = sr_done r \<and> sr_closed r' = sr_closed r \<and> sr_sawDone r' = sr_sawDone r \<and> sr_provider r' = sr_provider r"
proof (induction ctxErr r rule: Recv_loop.induct)
  case (1 ctxErr r)
  obtain res rest where n: "Next (sr_body r) (sr_fin r) = (res, rest)" by (cases "Next (sr_body r) (sr_fin r)")
  show ?case
  proof (cases res)
    case (Inl e)
    with n "1.prems" show ?thesis by (subst (asm) Recv_loop.simps) (simp add: Let_def)
  next
    case (Inr ev)
    have shorter: "length rest < length (sr_body r)" using Next_bounded(2) n Inr by blast
    show ?thesis
    proof (cases "\<not> ev_Keepalive ev \<and> \<not> HasData ev")
      case True
      with n Inr have "Recv_loop ctxErr r = Recv_loop ctxErr (r\<lparr>sr_body := rest\<rparr>)"
        by (subst Recv_loop.simps) (simp add: Let_def)
      with "1.IH" [OF n [symmetric] Inr refl] True "1.prems" shorter show ?thesis by auto
    next
      case False
      with n Inr "1.prems" shorter show ?thesis
        by (subst (asm) Recv_loop.simps) (auto simp: Let_def split: if_splits)
    qed
  qed
qed

lemma Recv_progress:
  assumes "Recv ctxErr torn r = (Inr c, r')"
  shows "length (sr_body r') < length (sr_body r)"
  using assms Recv_loop_progress by (auto simp: Recv_def Let_def split: if_splits option.splits)

lemma Recv_loop_ends: "Recv_loop ctxErr r = (Inl e, r') \<Longrightarrow> sr_done r' \<and> sr_termErr r' = Some e"
proof (induction ctxErr r rule: Recv_loop.induct)
  case (1 ctxErr r)
  obtain res rest where n: "Next (sr_body r) (sr_fin r) = (res, rest)" by (cases "Next (sr_body r) (sr_fin r)")
  show ?case
  proof (cases res)
    case (Inl x)
    with n "1.prems" show ?thesis by (subst (asm) Recv_loop.simps) (auto simp: Let_def stream_finish_def)
  next
    case (Inr ev)
    show ?thesis
    proof (cases "\<not> ev_Keepalive ev \<and> \<not> HasData ev")
      case True
      with n Inr have "Recv_loop ctxErr r = Recv_loop ctxErr (r\<lparr>sr_body := rest\<rparr>)"
        by (subst Recv_loop.simps) (simp add: Let_def)
      with "1.IH" [OF n [symmetric] Inr refl] True "1.prems" show ?thesis by auto
    next
      case False
      with n Inr "1.prems" show ?thesis
        by (subst (asm) Recv_loop.simps) (auto simp: Let_def stream_finish_def split: if_splits)
    qed
  qed
qed

text \<open>A reader knows its end once it is done: every way to be done sets it.\<close>

definition ended_ok :: "stream_reader \<Rightarrow> bool" where
  "ended_ok r \<longleftrightarrow> (sr_done r \<longrightarrow> sr_termErr r \<noteq> None)"

lemma Recv_ends:
  assumes "Recv ctxErr torn r = (Inl e, r')" "ended_ok r"
  shows "sr_done r' \<and> sr_termErr r' = Some e"
  using assms Recv_loop_ends
  by (auto simp: Recv_def Let_def stream_finish_def ended_ok_def split: if_splits option.splits)

text \<open>All chunks of a stream, and the error that ended it.\<close>

function drain :: "err option \<Rightarrow> stream_reader \<Rightarrow> stream_chunk list \<times> err" where
  "drain ctxErr r = (case Recv ctxErr None r of
       (Inl e, r') \<Rightarrow> ([], e)
     | (Inr c, r') \<Rightarrow> (case drain ctxErr r' of (cs, e) \<Rightarrow> (c # cs, e)))"
  by pat_completeness auto
termination
  by (relation "measure (\<lambda>(ctxErr, r). length (sr_body r))") (auto dest!: Recv_progress [OF sym])

declare drain.simps [simp del]

text \<open>What the reader makes of a sequence of events.\<close>

definition event_chunk :: "sse_event \<Rightarrow> stream_chunk" where
  "event_chunk ev = (if ev_Keepalive ev then empty_chunk\<lparr>Keepalive := True\<rparr>
     else empty_chunk\<lparr>ChunkData := ev_Data ev, ChunkUsage := chunk_usage (ev_Data ev)\<rparr>)"

fun deliver :: "string \<Rightarrow> err option \<Rightarrow> sse_event list \<Rightarrow> err \<Rightarrow> stream_chunk list \<times> err" where
  "deliver p ctxErr [] e = ([], recvError (newStreamReader p [] e) ctxErr e False)"
| "deliver p ctxErr (ev # evs) e =
     (if \<not> ev_Keepalive ev \<and> \<not> HasData ev then deliver p ctxErr evs e
      else if \<not> ev_Keepalive ev \<and> ev_Data ev = sseDoneSentinel then ([], IoEOF)
      else case deliver p ctxErr evs e of (cs, x) \<Rightarrow> (event_chunk ev # cs, x))"

lemma recvError_cong: "sr_provider r = sr_provider r' \<Longrightarrow> sr_sawDone r = sr_sawDone r' \<Longrightarrow> recvError r c e u = recvError r' c e u"
  by (simp add: recvError_def)

lemma drain_deliver:
  assumes "\<not> sr_done r" "\<not> sr_closed r" "\<not> sr_sawDone r"
  shows "drain ctxErr r = (case read_all (sr_body r) (sr_fin r) of (evs, e) \<Rightarrow> deliver (sr_provider r) ctxErr evs e)"
  using assms
proof (induction "length (sr_body r)" arbitrary: r rule: less_induct)
  case less
  have recv: "Recv ctxErr None r = Recv_loop ctxErr r" if "\<not> sr_done r" "\<not> sr_closed r" for r
    using that by (simp add: Recv_def)
  obtain res rest where n: "Next (sr_body r) (sr_fin r) = (res, rest)" by (cases "Next (sr_body r) (sr_fin r)")
  let ?r1 = "r\<lparr>sr_body := rest\<rparr>"
  show ?case
  proof (cases res)
    case (Inl e)
    have "Recv_loop ctxErr r = (Inl (recvError (stream_Close ?r1) ctxErr e False), stream_finish (stream_Close ?r1) (recvError (stream_Close ?r1) ctxErr e False))"
      using n Inl less.prems by (subst Recv_loop.simps) (simp add: Let_def)
    moreover have "recvError (stream_Close ?r1) ctxErr e False = recvError (newStreamReader (sr_provider r) [] e) ctxErr e False"
      using less.prems by (intro recvError_cong) (simp_all add: stream_Close_def newStreamReader_def)
    moreover have "read_all (sr_body r) (sr_fin r) = ([], e)" using n Inl by (subst read_all.simps) simp
    ultimately show ?thesis using recv [OF less.prems(1,2)] by (subst drain.simps) simp
  next
    case (Inr ev)
    have shorter: "length rest < length (sr_body r)" using Next_bounded(2) n Inr by blast
    obtain evs e where ra: "read_all rest (sr_fin r) = (evs, e)" by (cases "read_all rest (sr_fin r)")
    with n Inr have all: "read_all (sr_body r) (sr_fin r) = (ev # evs, e)" by (subst read_all.simps) simp
    have IH: "drain ctxErr ?r1 = deliver (sr_provider r) ctxErr evs e"
      using less.hyps [of ?r1] shorter less.prems ra by simp
    have step: "Recv_loop ctxErr r =
        (if ev_Keepalive ev then (Inr (event_chunk ev), ?r1)
         else if \<not> HasData ev then Recv_loop ctxErr ?r1
         else if ev_Data ev = sseDoneSentinel then (Inl IoEOF, stream_finish (stream_Close (?r1\<lparr>sr_sawDone := True\<rparr>)) IoEOF)
         else (Inr (event_chunk ev), ?r1))"
      using n Inr by (subst Recv_loop.simps) (simp add: Let_def event_chunk_def)
    have d: "drain ctxErr r = (case Recv_loop ctxErr r of
         (Inl e, r') \<Rightarrow> ([], e) | (Inr c, r') \<Rightarrow> (case drain ctxErr r' of (cs, e) \<Rightarrow> (c # cs, e)))"
      using recv [OF less.prems(1,2)] by (subst drain.simps) simp
    have d1: "drain ctxErr ?r1 = (case Recv_loop ctxErr ?r1 of
         (Inl e, r') \<Rightarrow> ([], e) | (Inr c, r') \<Rightarrow> (case drain ctxErr r' of (cs, e) \<Rightarrow> (c # cs, e)))"
      using recv [of ?r1] less.prems by (subst drain.simps) simp
    show ?thesis
    proof (cases "\<not> ev_Keepalive ev \<and> \<not> HasData ev")
      case True
      with step have "drain ctxErr r = drain ctxErr ?r1" unfolding d d1 by simp
      with True all IH show ?thesis by simp
    next
      case False
      with d step IH all show ?thesis by auto
    qed
  qed
qed

section \<open>Cut streams\<close>

lemma whole_line_no_newline: "newline \<notin> set p \<Longrightarrow> whole_line p fin = (p, Some fin, [])"
  by (simp add: whole_line_def split_line_None [THEN iffD2])

lemma take_within: "n \<le> length xs \<Longrightarrow> take n (xs @ ys) = take n xs"
  by simp

text \<open>The last, unfinished line of a body never makes an event, unless it is a comment outside one.\<close>

lemma Next_loop_unfinished:
  assumes "newline \<notin> set p" "int (length p) \<le> remaining"
    and "p = [] \<or> TrimRight_crlf p \<noteq> [] \<and> hd (TrimRight_crlf p) \<noteq> sseCommentByte"
  shows "Next_loop ev data remaining p fin = (Inl fin, [])"
  using assms(3) readLine_whole(1) [OF whole_line_no_newline [OF assms(1)] assms(2), of fin]
  by (subst Next_loop.simps) (auto simp: Let_def)

lemma TrimRight_head:
  assumes "s \<noteq> []" "hd s \<noteq> newline" "hd s \<noteq> carriage"
  shows "TrimRight_crlf s \<noteq> []" "hd (TrimRight_crlf s) = hd s"
proof -
  obtain c r where s: "s = c # r" using assms(1) by (cases s) auto
  have "TrimRight_crlf s = c # TrimRight_crlf r"
    using assms s by (simp add: TrimRight_crlf_def dropWhile_append1 dropWhile_append dropWhile_eq_Nil_conv)
  with s show "TrimRight_crlf s \<noteq> []" "hd (TrimRight_crlf s) = hd s" by simp_all
qed

lemma Next_cut_frame:
  assumes "frameable d" "n < length (writeSSEFrame d)"
  shows "Next (take n (writeSSEFrame d)) fin = (Inl fin, [])"
proof -
  let ?line = "sseDataPrefix @ '' '' @ d"
  have w: "writeSSEFrame d = ?line @ [newline, newline]"
    by (simp add: writeSSEFrame_def ssePrefix_def sseDataPrefix_def sseTerminator_def)
  have len: "length ?line = length d + 6" by (simp add: sseDataPrefix_def)
  have nl: "newline \<notin> set ?line" using frameable_line [OF assms(1)] by (simp add: no_break_def)
  have b: "int (length d) + 7 \<le> MaxSSEEventBytes" "0 \<le> MaxSSEEventBytes - int (length d) - 7"
    using assms(1) by (auto simp: frameable_def)
  show ?thesis
  proof (cases "n \<le> length ?line")
    case True
    then have p: "take n (writeSSEFrame d) = take n ?line" unfolding w by (rule take_within)
    have "newline \<notin> set (take n ?line)" using nl by (meson in_set_takeD)
    moreover have "int (length (take n ?line)) \<le> MaxSSEEventBytes" using b len True by simp
    moreover have "take n ?line = [] \<or> TrimRight_crlf (take n ?line) \<noteq> [] \<and> hd (TrimRight_crlf (take n ?line)) \<noteq> sseCommentByte"
    proof (cases n)
      case (Suc m)
      then have "take n ?line \<noteq> []" "hd (take n ?line) = CHR ''d''" by (simp_all add: sseDataPrefix_def)
      with TrimRight_head [of "take n ?line"] show ?thesis by (simp add: newline_def carriage_def sseCommentByte_def)
    qed simp
    ultimately show ?thesis unfolding p Next_def by (rule Next_loop_unfinished)
  next
    case False
    then have "n = length ?line + 1" using assms(2) w len by simp
    then have p: "take n (writeSSEFrame d) = sseDataPrefix @ '' '' @ d @ newline # []" unfolding w by simp
    show ?thesis unfolding p Next_def
      using Next_data_line [OF frameable_line [OF assms(1)] b(1), of no_event "[]" "[]" fin]
        Next_loop_unfinished [of "[]" "MaxSSEEventBytes - int (length d) - 7"] b(2) by simp
  qed
qed

lemma Next_cut_keepalive:
  assumes "0 < n" "n < length sseKeepaliveFrame"
  shows "Next (take n sseKeepaliveFrame) fin = (Inr keepalive_event, [])"
proof (cases "n = 13")
  case True
  have "take n sseKeepaliveFrame = '': keep-alive'' @ newline # []"
    using True by (simp add: sseKeepaliveFrame_def newline_def)
  with Next_keepalive_line [of "[]" fin] show ?thesis by simp
next
  case False
  let ?s = "'': keep-alive''"
  have le: "n \<le> length ?s" using assms False by (simp add: sseKeepaliveFrame_def)
  then have p: "take n sseKeepaliveFrame = take n ?s" unfolding sseKeepaliveFrame_def by (rule take_within)
  have nl: "newline \<notin> set (take n ?s)" using set_take_subset [of n ?s] by (auto simp: newline_def)
  have "take n ?s \<noteq> []" "hd (take n ?s) = CHR '':''" using assms(1) by (cases n; simp)+
  then have t: "TrimRight_crlf (take n ?s) \<noteq> []" "hd (TrimRight_crlf (take n ?s)) = sseCommentByte"
    using TrimRight_head [of "take n ?s"] by (simp_all add: newline_def carriage_def sseCommentByte_def)
  have "int (length (take n ?s)) \<le> MaxSSEEventBytes" using le by (simp add: MaxSSEEventBytes_def)
  from readLine_whole(1) [OF whole_line_no_newline [OF nl] this, of fin] t \<open>take n ?s \<noteq> []\<close>
  show ?thesis unfolding p Next_def
    by (subst Next_loop.simps) (simp add: Let_def no_event_def keepalive_event_def)
qed

definition item_text :: "wire_item \<Rightarrow> bytes" where
  "item_text i = (case i of Frame d \<Rightarrow> writeSSEFrame d | KeepAlive \<Rightarrow> sseKeepaliveFrame)"

lemma wire_simps [simp]: "wire [] = []" "wire (i # items) = item_text i @ wire items"
  by (simp_all add: wire_def item_text_def)

lemma read_all_nothing [simp]: "read_all [] fin = ([], fin)"
  by (subst read_all.simps) simp

lemma read_item:
  assumes "\<And>d. i = Frame d \<Longrightarrow> frameable d"
  shows "read_all (item_text i @ r) fin = (case read_all r fin of (evs, e) \<Rightarrow> (item_event i # evs, e))"
proof (cases i)
  case (Frame d)
  with assms read_all_event [OF Next_frame] show ?thesis by (simp add: item_text_def item_event_def)
next
  case KeepAlive
  with read_all_event [OF Next_keepalive] show ?thesis by (simp add: item_text_def item_event_def)
qed

lemma read_cut_item:
  assumes "\<And>d. i = Frame d \<Longrightarrow> frameable d" "n < length (item_text i)"
  shows "read_all (take n (item_text i)) fin \<in> {([], fin), ([item_event i], fin)}"
proof (cases i)
  case (Frame d)
  with assms Next_cut_frame [of d n fin] show ?thesis
    by (subst read_all.simps) (simp add: item_text_def)
next
  case KeepAlive
  show ?thesis
  proof (cases "n = 0")
    case False
    with assms(2) KeepAlive read_all_event [OF Next_cut_keepalive [of n fin]] show ?thesis
      by (simp add: item_text_def item_event_def)
  qed simp
qed

lemma read_cut:
  assumes "\<And>d. Frame d \<in> set items \<Longrightarrow> frameable d" "n < length (wire items @ sseDoneFrame)"
  shows "\<exists>m. read_all (take n (wire items @ sseDoneFrame)) fin = (map item_event (take m items), fin)"
  using assms
proof (induction items arbitrary: n)
  case Nil
  then have "Next (take n sseDoneFrame) fin = (Inl fin, [])"
    unfolding sseDoneFrame_frame by (intro Next_cut_frame [OF frameable_done]) simp
  then have "read_all (take n sseDoneFrame) fin = ([], fin)" by (subst read_all.simps) simp
  then show ?case by simp
next
  case (Cons i items)
  have f: "\<And>d. i = Frame d \<Longrightarrow> frameable d" using Cons.prems(1) by simp
  let ?rest = "wire items @ sseDoneFrame"
  show ?case
  proof (cases "n < length (item_text i)")
    case True
    then have "take n (wire (i # items) @ sseDoneFrame) = take n (item_text i)" by simp
    with read_cut_item [OF f True, of fin] consider
        "read_all (take n (wire (i # items) @ sseDoneFrame)) fin = ([], fin)"
      | "read_all (take n (wire (i # items) @ sseDoneFrame)) fin = ([item_event i], fin)" by auto
    then show ?thesis
    proof cases
      case 1
      then show ?thesis by (intro exI [of _ 0]) simp
    next
      case 2
      then show ?thesis by (intro exI [of _ 1]) simp
    qed
  next
    case False
    define k where "k = n - length (item_text i)"
    have t: "take n (wire (i # items) @ sseDoneFrame) = item_text i @ take k ?rest"
      using False by (simp add: k_def)
    have "k < length ?rest" using Cons.prems(2) False by (simp add: k_def)
    with Cons.IH [of k] Cons.prems(1) obtain m where
      "read_all (take k ?rest) fin = (map item_event (take m items), fin)" by auto
    with read_item [OF f, of i "take k ?rest" fin] show ?thesis
      unfolding t by (intro exI [of _ "Suc m"]) simp
  qed
qed

lemma read_whole:
  assumes "\<And>d. Frame d \<in> set items \<Longrightarrow> frameable d"
  shows "read_all (wire items @ sseDoneFrame) fin = (map item_event items @ [data_event sseDoneSentinel], fin)"
  using assms
proof (induction items)
  case Nil
  with read_all_event [OF Next_frame [OF frameable_done, of "[]" fin]] show ?case
    by (simp add: sseDoneFrame_frame sseDoneSentinel_def)
next
  case (Cons i items)
  with read_item [of i "wire items @ sseDoneFrame" fin] show ?case by auto
qed

section \<open>Properties\<close>

definition item_chunk :: "wire_item \<Rightarrow> stream_chunk" where
  "item_chunk i = event_chunk (item_event i)"

definition plain_item :: "wire_item \<Rightarrow> bool" where
  "plain_item i = (case i of Frame d \<Rightarrow> frameable d \<and> d \<noteq> sseDoneSentinel | KeepAlive \<Rightarrow> True)"

lemma deliver_items:
  assumes "list_all plain_item items"
  shows "deliver p ctxErr (map item_event items @ evs) e
    = (case deliver p ctxErr evs e of (cs, x) \<Rightarrow> (map item_chunk items @ cs, x))"
  using assms
proof (induction items)
  case (Cons i items)
  then show ?case
    by (cases i) (auto simp: item_chunk_def item_event_def plain_item_def data_event_def keepalive_event_def
        no_event_def split: prod.splits)
qed (simp split: prod.split)

lemma plain_frameable: "list_all plain_item items \<Longrightarrow> Frame d \<in> set items \<Longrightarrow> frameable d"
  by (auto simp: list_all_iff plain_item_def dest!: bspec)

text \<open>(C10) A severed stream is never a finished one. Take any answer an upstream sends on this wire, chunks and
  keepalives ended by the end frame. Read whole, the adapter delivers every chunk in order and reports a clean
  end. Cut the connection after any smaller number of bytes, at any point of any frame, and it delivers a
  prefix of the chunks and reports the stream as truncated, never as complete.\<close>

theorem severed_stream_is_truncated:
  assumes "list_all plain_item items"
  shows "let whole = wire items @ sseDoneFrame in
       drain ctxErr (newStreamReader p whole IoEOF) = (map item_chunk items, IoEOF)
       \<and> (\<forall>n < length whole. \<exists>m.
            drain ctxErr (newStreamReader p (take n whole) IoEOF) = (map item_chunk (take m items), ErrStreamTruncated))"
  unfolding Let_def
proof (intro conjI allI impI)
  let ?whole = "wire items @ sseDoneFrame"
  have d: "drain ctxErr (newStreamReader p b IoEOF) = (case read_all b IoEOF of (evs, e) \<Rightarrow> deliver p ctxErr evs e)" for b
    by (subst drain_deliver) (simp_all add: newStreamReader_def)
  have f: "\<And>d. Frame d \<in> set items \<Longrightarrow> frameable d" using plain_frameable [OF assms] .
  from read_whole [of items IoEOF, OF f]
  show "drain ctxErr (newStreamReader p ?whole IoEOF) = (map item_chunk items, IoEOF)"
    by (simp add: d deliver_items [OF assms] data_event_def no_event_def)
  fix n assume "n < length ?whole"
  with read_cut [of items n IoEOF, OF f] obtain m
    where m: "read_all (take n ?whole) IoEOF = (map item_event (take m items), IoEOF)" by blast
  have "list_all plain_item (take m items)" using assms by (auto simp: list_all_iff dest: in_set_takeD)
  from deliver_items [OF this, of p ctxErr "[]" IoEOF]
  show "\<exists>m. drain ctxErr (newStreamReader p (take n ?whole) IoEOF) = (map item_chunk (take m items), ErrStreamTruncated)"
    by (intro exI [of _ m]) (simp only: d m split, simp add: recvError_def newStreamReader_def)
qed

theorem severed_stream_is_truncated_witness:
  "\<exists>m. drain None (newStreamReader ''p'' (take 21 (wire [Frame ''{}'', KeepAlive, Frame ''x''] @ sseDoneFrame)) IoEOF)
     = (map item_chunk (take m [Frame ''{}'', KeepAlive, Frame ''x'']), ErrStreamTruncated)"
proof -
  let ?items = "[Frame ''{}'', KeepAlive, Frame ''x'']"
  have plain: "list_all plain_item ?items"
    by (simp add: plain_item_def frameable_def no_break_def newline_def carriage_def MaxSSEEventBytes_def sseDoneSentinel_def)
  have "21 < length (wire ?items @ sseDoneFrame)"
    by (simp add: item_text_def writeSSEFrame_def ssePrefix_def sseTerminator_def sseKeepaliveFrame_def sseDoneFrame_def)
  with severed_stream_is_truncated [OF plain, of None "''p''"] show ?thesis unfolding Let_def by blast
qed

text \<open>How a stream ended is settled once. After any call that reported an end, every further call reports the
  same end and reads nothing, also after the reader is closed; and a reader closed by its owner before it
  ended reports truncation.\<close>

lemma stream_end_is_latched:
  assumes "ended_ok r" "Recv ctxErr torn r = (Inl e, r')"
  shows "Recv ctxErr' torn' r' = (Inl e, r') \<and> Recv ctxErr' torn' (stream_Close r') = (Inl e, stream_Close r')
       \<and> (sr_closed r \<and> \<not> sr_done r \<longrightarrow> e = ErrStreamTruncated)"
  using assms Recv_ends [OF assms(2,1)] by (auto simp: Recv_def stream_Close_def)

end
