(* ===== verification/Chat_Translation.thy ===== *)
theory Chat_Translation
  imports OpenAI_Wire JSON_Roundtrip
begin

text \<open>
  What the translating adapters share (\<^verbatim>\<open>src/internal/providers/anthropic\<close>, \<^verbatim>\<open>src/internal/providers/gemini\<close>): the part
  of a chat request both read, which keeps message contents as the text they arrived in, the text of a content field,
  stop sequences, the class of a failed call, and the parts of \<^verbatim>\<open>encoding/json\<close> they need to write: compacted raw
  values, numbers, and objects from texts. The zero a JSON number can carry a sign on is not told apart.
\<close>

section \<open>Writing\<close>

text \<open>\<^verbatim>\<open>appendCompact\<close> on a text that is known to parse: white space outside strings goes, and the characters
  \<^verbatim>\<open>Marshal\<close> escapes are escaped inside them.\<close>

fun compact_from :: "bool \<Rightarrow> string \<Rightarrow> string" where
  "compact_from inside [] = []"
| "compact_from False (c # r) =
     (if is_json_ws c then compact_from False r
      else if c = CHR 0x22 then c # compact_from True r
      else c # compact_from False r)"
| "compact_from True (c # r) =
     (if c = CHR 0x22 then c # compact_from False r
      else if c = CHR 0x5C then (case r of [] \<Rightarrow> [c] | d # r' \<Rightarrow> c # d # compact_from True r')
      else if c = CHR ''<'' \<or> c = CHR ''>'' \<or> c = CHR ''&'' then escape_u (byte c) @ compact_from True r
      else if take 3 (c # r) = utf8_encode 8232 then escape_u 8232 @ compact_from True (drop 2 r)
      else if take 3 (c # r) = utf8_encode 8233 then escape_u 8233 @ compact_from True (drop 2 r)
      else c # compact_from True r)"

definition compact :: "string \<Rightarrow> string" where
  "compact t = compact_from False t"

text \<open>A \<^verbatim>\<open>json.RawMessage\<close>; a nil one is written as \<^verbatim>\<open>null\<close>.\<close>

definition raw_text :: "string \<Rightarrow> string" where
  "raw_text t = (if t = [] then ''null'' else compact t)"

definition joined :: "string list \<Rightarrow> string" where
  "joined ts = (case ts of [] \<Rightarrow> [] | t # us \<Rightarrow> t @ concat (map (\<lambda>u. '','' @ u) us))"

definition object_text :: "(string \<times> string) list \<Rightarrow> string" where
  "object_text fs = ''{'' @ joined (map (\<lambda>(k, t). quoted k @ '':'' @ t) fs) @ ''}''"

definition array_text :: "string list \<Rightarrow> string" where
  "array_text ts = ''['' @ joined ts @ '']''"

definition num :: "goint \<Rightarrow> json" where "num n = JNum (Itoa n)"

text \<open>A float as \<^verbatim>\<open>Marshal\<close> writes it: shortest digits, in exponent form below \<open>1e-6\<close> and from \<open>1e21\<close> on, where a
  leading zero of the exponent is dropped.\<close>

definition format_json_e :: "string \<Rightarrow> int \<Rightarrow> string" where
  "format_json_e ds e = take 1 ds @ (if length ds \<le> 1 then [] else ''.'' @ drop 1 ds) @ ''e''
     @ (if e < 0 then ''-'' else ''+'') @ FormatUint (nat \<bar>e\<bar>)"

definition json_float :: "float64 \<Rightarrow> string" where
  "json_float v =
     (if v = 0 then ''0''
      else let x = \<bar>v\<bar>; dp = decimal_point x in
        case shortest_from 16 1 x dp of (m, n) \<Rightarrow>
          (let s = FormatUint m; dp' = dp + int (length s) - int n; ds = strip_zeros s
           in (if v < 0 then ''-'' else [])
              @ (if x < rnd64 (1 / 1000000) \<or> 10 ^ 21 \<le> x then format_json_e ds (dp' - 1) else format_plain ds dp')))"

section \<open>Reading a chat request\<close>

text \<open>The texts of the elements of an array that is known to parse.\<close>

fun raw_elems_from :: "nat \<Rightarrow> string \<Rightarrow> string list" where
  "raw_elems_from 0 s = []"
| "raw_elems_from (Suc n) s =
     (let r = skip_ws s in
      case parse_value (length s + 1) 1 r of
        None \<Rightarrow> []
      | Some (v, r1) \<Rightarrow>
          take (length r - length r1) r
            # (case skip_ws r1 of c # r2 \<Rightarrow> if c = CHR '','' then raw_elems_from n r2 else [] | [] \<Rightarrow> []))"

definition raw_elems :: "string \<Rightarrow> string list" where
  "raw_elems t = (case skip_ws t of c # r \<Rightarrow> if c = CHR ''['' then raw_elems_from (length t) r else [] | [] \<Rightarrow> [])"

definition raw_values :: "string \<Rightarrow> string \<Rightarrow> string list" where
  "raw_values name body = map snd (filter (\<lambda>(k, t). foldName k = foldName name) (raw_fields body))"

record openai_message =
  msg_Role :: string
  msg_Content :: string

record openai_request =
  oreq_Model :: string
  oreq_Messages :: "openai_message list"
  oreq_MaxTokens :: "goint option"
  oreq_MaxCompletionTokens :: "goint option"
  oreq_Temperature :: "float64 option"
  oreq_TopP :: "float64 option"
  oreq_Stop :: string

definition decode_openai_message :: "string \<Rightarrow> openai_message option" where
  "decode_openai_message t = (case json_parse t of
       None \<Rightarrow> None
     | Some v \<Rightarrow> (case as_object v of
         None \<Rightarrow> None
       | Some ms \<Rightarrow> map_option (\<lambda>role. \<lparr>msg_Role = role, msg_Content = raw_field ''content'' t\<rparr>)
           (decode_field as_string [] (field_values ''role'' ms))))"

definition decode_openai_messages :: "string \<Rightarrow> openai_message list option" where
  "decode_openai_messages t = (case json_parse t of
       Some JNull \<Rightarrow> Some []
     | Some (JArr _) \<Rightarrow> those (map decode_openai_message (raw_elems t))
     | _ \<Rightarrow> None)"

text \<open>Every value of a repeated field must decode; the last one counts.\<close>

definition decode_openai_request :: "bytes \<Rightarrow> openai_request option" where
  "decode_openai_request raw = (case json_parse raw of
       None \<Rightarrow> None
     | Some v \<Rightarrow> (case as_object v of
         None \<Rightarrow> None
       | Some ms \<Rightarrow>
           (case (decode_field as_string [] (field_values ''model'' ms), those (map decode_openai_messages (raw_values ''messages'' raw)),
                  decode_pointer as_int (field_values ''max_tokens'' ms),
                  decode_pointer as_int (field_values ''max_completion_tokens'' ms),
                  decode_pointer as_float (field_values ''temperature'' ms), decode_pointer as_float (field_values ''top_p'' ms)) of
              (Some model, Some turns, Some mt, Some mct, Some temp, Some topp) \<Rightarrow>
                Some \<lparr>oreq_Model = model, oreq_Messages = (if turns = [] then [] else last turns), oreq_MaxTokens = mt,
                  oreq_MaxCompletionTokens = mct, oreq_Temperature = temp, oreq_TopP = topp, oreq_Stop = raw_field ''stop'' raw\<rparr>
            | _ \<Rightarrow> None)))"

definition string_or_null :: "json \<Rightarrow> string option" where
  "string_or_null v = (case v of JStr s \<Rightarrow> Some s | JNull \<Rightarrow> Some [] | _ \<Rightarrow> None)"

definition stopSequences :: "string \<Rightarrow> string list" where
  "stopSequences raw =
     (if raw = [] then []
      else case json_parse raw of
        Some (JStr one) \<Rightarrow> if one = [] then [] else [one]
      | Some JNull \<Rightarrow> []
      | Some (JArr vs) \<Rightarrow> (case those (map string_or_null vs) of Some many \<Rightarrow> many | None \<Rightarrow> [])
      | _ \<Rightarrow> [])"

text \<open>The text of a content field, which is a string or an array of typed parts.\<close>

definition content_text :: "string \<Rightarrow> string" where
  "content_text raw = (case json_parse raw of
       Some (JStr s) \<Rightarrow> s
     | Some JNull \<Rightarrow> []
     | Some (JArr vs) \<Rightarrow>
         (case those (map decode_part vs) of
            Some parts \<Rightarrow> concat (map snd (filter (\<lambda>(ty, tx). ty = ''text'') parts))
          | None \<Rightarrow> [])
     | _ \<Rightarrow> [])"

definition lifted :: "openai_message \<Rightarrow> bool" where
  "lifted m \<longleftrightarrow> msg_Role m = ''system'' \<or> msg_Role m = ''developer''"

definition system_texts :: "openai_message list \<Rightarrow> string list" where
  "system_texts msgs = filter (\<lambda>t. t \<noteq> []) (map (content_text \<circ> msg_Content) (filter lifted msgs))"

section \<open>Calls\<close>

record adapter =
  ad_name :: string
  ad_baseURL :: string
  ad_apiKey :: string

definition transportClass :: "err option \<Rightarrow> err \<Rightarrow> error_class" where
  "transportClass ctxErr e =
     (if errors_Is e ContextDeadlineExceeded \<or> ctxErr = Some ContextDeadlineExceeded then ErrClassTimeout
      else if errors_Is e ContextCanceled \<or> ctxErr = Some ContextCanceled then ErrClassCanceled
      else ErrClassUpstream)"

definition adapter_transportError :: "adapter \<Rightarrow> err option \<Rightarrow> string \<Rightarrow> err \<Rightarrow> err" where
  "adapter_transportError p ctxErr doing e =
     ProviderError (ad_name p) (transportClass ctxErr e) 0 (doing @ '' failed'') (Some (WrapErr (doing @ '': '') e))"

text \<open>\<^verbatim>\<open>time.Time.Unix\<close> and a struct field that is another struct: \<^verbatim>\<open>null\<close> leaves what is there.\<close>

definition unix_seconds :: "instant \<Rightarrow> goint" where "unix_seconds t = t div Second"

definition decode_struct :: "('a \<Rightarrow> (string \<times> json) list \<Rightarrow> 'a option) \<Rightarrow> 'a \<Rightarrow> json list \<Rightarrow> 'a option" where
  "decode_struct f zero vs = foldl (\<lambda>acc v. case acc of
       None \<Rightarrow> None
     | Some x \<Rightarrow> (case v of JNull \<Rightarrow> Some x | JObj ms \<Rightarrow> f x ms | _ \<Rightarrow> None)) (Some zero) vs"

text \<open>A pointer to a struct: \<^verbatim>\<open>null\<close> sets it to nil, an object fills what it points to.\<close>

definition decode_struct_pointer :: "('a \<Rightarrow> (string \<times> json) list \<Rightarrow> 'a option) \<Rightarrow> 'a \<Rightarrow> json list \<Rightarrow> 'a option option" where
  "decode_struct_pointer f zero vs = foldl (\<lambda>acc v. case acc of
       None \<Rightarrow> None
     | Some x \<Rightarrow>
         (case v of
            JNull \<Rightarrow> Some None
          | JObj ms \<Rightarrow> map_option Some (f (case x of None \<Rightarrow> zero | Some y \<Rightarrow> y) ms)
          | _ \<Rightarrow> None)) (Some None) vs"

text \<open>A slice: \<^verbatim>\<open>null\<close> gives nil, an array its elements; of a repeated field the last value counts.\<close>

definition decode_slice :: "(json \<Rightarrow> 'a option) \<Rightarrow> json list \<Rightarrow> 'a list option" where
  "decode_slice f vs =
     (case those (map (\<lambda>v. case v of JNull \<Rightarrow> Some [] | JArr ws \<Rightarrow> those (map f ws) | _ \<Rightarrow> None) vs) of
        None \<Rightarrow> None | Some xs \<Rightarrow> Some (if xs = [] then [] else last xs))"

definition completion_usage :: "usage \<Rightarrow> json" where
  "completion_usage u = JObj [(''prompt_tokens'', num (PromptTokens u)), (''completion_tokens'', num (CompletionTokens u)),
     (''total_tokens'', num (TotalTokens u))]"

text \<open>The \<^verbatim>\<open>chat.completion.chunk\<close> object, around the members of its delta.\<close>

definition omit_empty :: "string \<Rightarrow> string \<Rightarrow> (string \<times> json) list" where
  "omit_empty k v = (if v = [] then [] else [(k, JStr v)])"

definition chunk_body :: "string \<Rightarrow> goint \<Rightarrow> string \<Rightarrow> (string \<times> json) list \<Rightarrow> string option \<Rightarrow> usage option \<Rightarrow> json" where
  "chunk_body cid created model delta finish u = JObj
     ([(''id'', JStr cid), (''object'', JStr ''chat.completion.chunk''), (''created'', num created), (''model'', JStr model),
       (''choices'', JArr [JObj [(''index'', num 0), (''delta'', JObj delta),
          (''finish_reason'', case finish of None \<Rightarrow> JNull | Some f \<Rightarrow> JStr f)]])]
      @ (case u of None \<Rightarrow> [] | Some x \<Rightarrow> [(''usage'', completion_usage x)]))"

text \<open>The \<^verbatim>\<open>chat.completion\<close> object.\<close>

definition completion_body :: "string \<Rightarrow> goint \<Rightarrow> string \<Rightarrow> string \<Rightarrow> string \<Rightarrow> usage \<Rightarrow> json" where
  "completion_body cid created model text finish u = JObj
     [(''id'', JStr cid), (''object'', JStr ''chat.completion''), (''created'', num created), (''model'', JStr model),
      (''choices'', JArr [JObj [(''index'', num 0),
         (''message'', JObj [(''role'', JStr ''assistant''), (''content'', JStr text)]), (''finish_reason'', JStr finish)]]),
      (''usage'', completion_usage u)]"

section \<open>Paths\<close>

text \<open>\<^verbatim>\<open>url.PathEscape\<close>: everything but the unreserved characters and those a path segment may hold.\<close>

definition path_plain :: "char \<Rightarrow> bool" where
  "path_plain c \<longleftrightarrow> (let b = byte c in
     65 \<le> b \<and> b \<le> 90 \<or> 97 \<le> b \<and> b \<le> 122 \<or> 48 \<le> b \<and> b \<le> 57 \<or> c \<in> {CHR ''-'', CHR ''_'', CHR ''.'', CHR ''~'', CHR ''$'', CHR ''&'', CHR ''+'', CHR ''='', CHR '':'', CHR ''@''})"

definition upper_hex :: "nat \<Rightarrow> char" where
  "upper_hex d = (if d < 10 then char_of (48 + d) else char_of (55 + d))"

definition PathEscape :: "string \<Rightarrow> string" where
  "PathEscape s = concat (map (\<lambda>c. if path_plain c then [c] else [CHR 0x25, upper_hex (byte c div 16), upper_hex (byte c mod 16)]) s)"

end
