(* ===== verification/Answer_Text.thy ===== *)
theory Answer_Text
  imports Chat_Translation
begin

text \<open>
  What a client reads in an answer or a chunk the translating adapters write, and the lemmas that what was decoded from
  JSON can be written and read back.
\<close>

section \<open>Decoded values can be written\<close>

lemma json_parse_fits:
  assumes "json_parse s = Some v"
  shows "fits max_depth v"
proof -
  obtain r where "parse_value (length s + 1) 0 s = Some (v, r)" using assms by (auto simp: json_parse_def split: option.splits if_splits)
  from parse_fits(1) [OF this] show ?thesis by simp
qed

lemma as_object_fits: "json_parse s = Some v \<Longrightarrow> as_object v = Some ms \<Longrightarrow> fits_members (max_depth - 1) ms"
  by (drule json_parse_fits) (auto simp: as_object_def split: json.splits)

lemma field_values_fit: "fits_members k ms \<Longrightarrow> v \<in> set (field_values name ms) \<Longrightarrow> fits k v"
  by (auto simp: field_values_def fits_members_iff)

lemma decode_field_string_valid:
  assumes "decode_field as_string zero vs = Some s" "valid_utf8 zero" "\<And>v. v \<in> set vs \<Longrightarrow> fits k v"
  shows "valid_utf8 s"
  using assms
proof (induction vs arbitrary: s rule: rev_induct)
  case (snoc v vs)
  obtain x where x: "decode_field as_string zero vs = Some x" "(if v = JNull then Some x else as_string v) = Some s"
    using snoc.prems(1) by (auto simp: decode_field_def split: option.splits)
  have "valid_utf8 x" using snoc.IH [OF x(1)] snoc.prems by simp
  moreover have "fits k v" using snoc.prems(3) [of v] by simp
  ultimately show ?case using x(2) by (auto simp: as_string_def split: if_splits json.splits)
qed (simp add: decode_field_def)

lemma object_string_valid:
  assumes "fits_members k ms" "decode_field as_string zero (field_values name ms) = Some s" "valid_utf8 zero"
  shows "valid_utf8 s"
  using decode_field_string_valid [OF assms(2,3)] field_values_fit [OF assms(1)] by blast

lemma decode_struct_pointer_cases:
  assumes "decode_struct_pointer f zero vs = Some (Some x)" "\<And>v. v \<in> set vs \<Longrightarrow> fits k v"
    and "\<And>y z ms. f y ms = Some z \<Longrightarrow> P y \<Longrightarrow> fits_members (k - 1) ms \<Longrightarrow> P z" "P zero"
  shows "P x"
proof -
  have "\<And>w. decode_struct_pointer f zero vs = Some w \<Longrightarrow> (case w of None \<Rightarrow> True | Some y \<Rightarrow> P y)"
    using assms(2)
  proof (induction vs rule: rev_induct)
    case (snoc v vs)
    then obtain y where y: "decode_struct_pointer f zero vs = Some y" by (auto simp: decode_struct_pointer_def split: option.splits)
    have py: "case y of None \<Rightarrow> True | Some z \<Rightarrow> P z" using snoc.IH [OF y] snoc.prems(2) by simp
    have fv: "fits k v" using snoc.prems(2) by simp
    show ?case
    proof (cases v)
      case (JObj ms)
      then have m: "fits_members (k - 1) ms" using fv by simp
      obtain z where z: "f (case y of None \<Rightarrow> zero | Some u \<Rightarrow> u) ms = Some z" "w = Some z"
        using snoc.prems(1) y JObj by (auto simp: decode_struct_pointer_def)
      have "P (case y of None \<Rightarrow> zero | Some u \<Rightarrow> u)" using py assms(4) by (auto split: option.splits)
      from assms(3) [OF z(1) this m] z(2) show ?thesis by simp
    qed (use snoc.prems(1) y in \<open>auto simp: decode_struct_pointer_def\<close>)
  qed (simp add: decode_struct_pointer_def)
  with assms(1) show ?thesis by fastforce
qed

lemma digits_FormatUint: "list_all dec_digit (FormatUint n)" "FormatUint n \<noteq> []"
proof (induction n rule: FormatUint.induct)
  case (1 n)
  have d: "dec_digit (digit_char d)" if "d < 10" for d using of_char_digit_char [OF that] that by (simp add: dec_digit_def)
  { case 1 show ?case using "1.IH"(1) d [of n] d [of "n mod 10"] by (subst FormatUint.simps) auto }
  { case 2 show ?case by (subst FormatUint.simps) auto }
qed

lemma FormatUint_head: "0 < n \<Longrightarrow> hd (FormatUint n) \<noteq> CHR ''0''"
proof (induction n rule: FormatUint.induct)
  case (1 n)
  show ?case
  proof (cases "n < 10")
    case True
    have "of_char (digit_char n) \<noteq> (of_char (CHR ''0'') :: nat)" using of_char_digit_char [OF True] "1.prems" by simp
    then have "digit_char n \<noteq> CHR ''0''" by metis
    then show ?thesis using True by (subst FormatUint.simps) simp
  next
    case False
    then show ?thesis using "1.IH" digits_FormatUint(2) by (subst FormatUint.simps) (simp add: hd_append)
  qed
qed

lemma Itoa_number: "is_number (Itoa n)"
proof -
  have dg: "digits (FormatUint m) = Some (FormatUint m, [])" for m
    using digits_FormatUint [of m] by (simp add: digits_def Let_def list_all_iff takeWhile_eq_all_conv [THEN iffD2] dropWhile_eq_Nil_conv [THEN iffD2])
  have u: "parse_int_part (FormatUint m) = Some (FormatUint m, [])" for m
  proof (cases "m = 0")
    case True
    then show ?thesis using dg [of 0] by (simp add: parse_int_part_def FormatUint.simps [of 0])
  next
    case False
    obtain c r where cr: "FormatUint m = c # r" using digits_FormatUint(2) [of m] by (cases "FormatUint m") auto
    then show ?thesis using dg [of m] FormatUint_head [of m] False cr by (simp add: parse_int_part_def)
  qed
  have neg: "take 1 (FormatUint m) \<noteq> ''-''" for m
    using digits_FormatUint [of m] by (cases "FormatUint m") (auto simp: dec_digit_def)
  have "parse_number (Itoa n) = Some (Itoa n, [])"
    using u neg by (auto simp: parse_number_def Itoa_def parse_frac_def parse_exp_def Let_def)
  then show ?thesis by (auto simp: is_number_def)
qed

section \<open>What a client reads\<close>

definition member :: "string \<Rightarrow> json \<Rightarrow> json" where
  "member k v = (case v of JObj ms \<Rightarrow> (case map_of ms k of Some w \<Rightarrow> w | None \<Rightarrow> JNull) | _ \<Rightarrow> JNull)"

definition first_choice :: "bytes \<Rightarrow> json" where
  "first_choice data = (case json_parse data of
       Some v \<Rightarrow> (case member ''choices'' v of JArr (c # _) \<Rightarrow> c | _ \<Rightarrow> JNull)
     | None \<Rightarrow> JNull)"

definition text_of :: "json \<Rightarrow> string" where
  "text_of v = (case v of JStr t \<Rightarrow> t | _ \<Rightarrow> [])"

definition chunk_text :: "stream_chunk \<Rightarrow> string" where
  "chunk_text c = text_of (member ''content'' (member ''delta'' (first_choice (ChunkData c))))"

definition answer_text :: "bytes \<Rightarrow> string" where
  "answer_text body = text_of (member ''content'' (member ''message'' (first_choice body)))"

lemma max_depth_deep: "max_depth = Suc (Suc (Suc (Suc (Suc (Suc (max_depth - 6))))))"
  by (simp add: max_depth_def)

lemma ascii_valid [simp]: "list_all (\<lambda>c. byte c < 128) s \<Longrightarrow> valid_utf8 s"
  by (induction s) (simp_all add: valid_utf8_unfold rune_length_ascii)

lemma num_fits [simp]: "fits k (num n)"
  by (simp add: num_def Itoa_number)

lemma usage_fits [simp]: "0 < k \<Longrightarrow> fits k (completion_usage u)"
  by (simp add: completion_usage_def)

lemma chunk_body_fits:
  assumes "valid_utf8 cid" "valid_utf8 model" "fits_members (max_depth - 4) delta" "\<And>f. finish = Some f \<Longrightarrow> valid_utf8 f"
  shows "fits max_depth (chunk_body cid created model delta finish u)"
  using assms by (subst max_depth_deep) (auto simp: chunk_body_def fits_members_iff max_depth_def split: option.splits)

lemma chunk_body_parses:
  assumes "valid_utf8 cid" "valid_utf8 model" "fits_members (max_depth - 4) delta" "\<And>f. finish = Some f \<Longrightarrow> valid_utf8 f"
  shows "member ''delta'' (first_choice (encode (chunk_body cid created model delta finish u))) = JObj delta"
proof -
  let ?b = "chunk_body cid created model delta finish u"
  have "json_parse (encode ?b) = Some ?b" by (rule json_parse_encode, rule chunk_body_fits) (use assms in auto)
  then have "first_choice (encode ?b) = (case member ''choices'' ?b of JArr (c # _) \<Rightarrow> c | _ \<Rightarrow> JNull)"
    by (simp only: first_choice_def option.case)
  then show ?thesis by (simp add: chunk_body_def member_def)
qed

lemma completion_body_parses:
  assumes "valid_utf8 cid" "valid_utf8 model" "valid_utf8 text" "valid_utf8 finish"
  shows "answer_text (encode (completion_body cid created model text finish u)) = text"
proof -
  let ?b = "completion_body cid created model text finish u"
  have "fits max_depth ?b" using assms by (subst max_depth_deep) (simp add: completion_body_def max_depth_def)
  then have "json_parse (encode ?b) = Some ?b" by (rule json_parse_encode)
  then have "first_choice (encode ?b) = (case member ''choices'' ?b of JArr (c # _) \<Rightarrow> c | _ \<Rightarrow> JNull)"
    by (simp only: first_choice_def option.case)
  then show ?thesis by (simp add: answer_text_def completion_body_def member_def text_of_def)
qed

lemma decode_struct_cases:
  assumes "decode_struct f zero vs = Some x" "\<And>v. v \<in> set vs \<Longrightarrow> fits k v"
    and "\<And>y z ms. f y ms = Some z \<Longrightarrow> P y \<Longrightarrow> fits_members (k - 1) ms \<Longrightarrow> P z" "P zero"
  shows "P x"
  using assms(1,2)
proof (induction vs arbitrary: x rule: rev_induct)
  case (snoc v vs)
  then obtain y where y: "decode_struct f zero vs = Some y" by (auto simp: decode_struct_def split: option.splits)
  have py: "P y" using snoc.IH [OF y] snoc.prems(2) by simp
  show ?case
  proof (cases v)
    case (JObj ms)
    have "f y ms = Some x" using snoc.prems(1) y JObj by (simp add: decode_struct_def)
    moreover have "fits_members (k - 1) ms" using snoc.prems(2) [of v] JObj by simp
    ultimately show ?thesis using assms(3) py by blast
  qed (use snoc.prems(1) y py in \<open>auto simp: decode_struct_def\<close>)
qed (use assms(4) in \<open>simp add: decode_struct_def\<close>)

lemma those_all: "those xs = Some ys \<Longrightarrow> y \<in> set ys \<Longrightarrow> Some y \<in> set xs"
  by (induction xs arbitrary: ys) (auto split: option.splits)

section \<open>A small exchange\<close>

text \<open>An upstream that answers every request with the same body, and a request it accepts.\<close>

definition answering :: "bytes \<Rightarrow> http_client" where
  "answering body = \<lparr>hc_build = (\<lambda>_. None), hc_do = (\<lambda>_. Inr \<lparr>hresp_status = 200, hresp_body = body, hresp_fin = IoEOF\<rparr>), hc_ctx = None\<rparr>"

definition demo_adapter :: adapter where
  "demo_adapter = \<lparr>ad_name = ''p'', ad_baseURL = ''http://p'', ad_apiKey = ''k''\<rparr>"

definition demo_ask :: chat_request where
  "demo_ask = \<lparr>ReqModel = ''m'', ReqStream = True, ReqRaw = ''{}''\<rparr>"

lemma demo_ask_decodes: "\<exists>r. decode_openai_request ''{}'' = Some r"
proof -
  have "decode_openai_request ''{}'' \<noteq> None" by code_simp
  then show ?thesis by blast
qed

lemmas demo_exchange = answering_def demo_adapter_def demo_ask_def Is2xx_def

lemma read_frames:
  assumes "list_all frameable ds"
  shows "read_all (wire (map Frame ds)) fin = (map data_event ds, fin)"
proof -
  have "read_all (wire (map Frame ds) @ []) fin = (case read_all [] fin of (evs, e) \<Rightarrow> (map item_event (map Frame ds) @ evs, e))"
    by (rule read_all_wire) (use assms in \<open>auto simp: list_all_iff\<close>)
  then show ?thesis by (simp add: item_event_def comp_def)
qed

end
