(* ===== verification/Event_Reader.thy ===== *)
theory Event_Reader
  imports OpenAI_Wire
begin

text \<open>
  The reading loop the translating adapters share: take the next event of the body, translate it, and go on past
  events that carry no chunk. \<^verbatim>\<open>Recv\<close>, \<^verbatim>\<open>finish\<close> and \<^verbatim>\<open>Close\<close> are the same code in
  \<^verbatim>\<open>src/internal/providers/anthropic/stream.go\<close> and \<^verbatim>\<open>src/internal/providers/gemini/stream.go\<close> up to the translation
  of one event and the reading of a failed read, which are arguments here.
\<close>

section \<open>The loop\<close>

record 's event_reader =
  er_body :: bytes
  er_fin :: err
  er_closed :: bool
  er_done :: bool
  er_termErr :: "err option"
  er_state :: 's

text \<open>What one event comes to: nothing to hand on, a chunk, a failure, or the end of the answer.\<close>

datatype event_step = StepSkip | StepChunk stream_chunk | StepFail err | StepWhole

definition event_open :: "bytes \<Rightarrow> err \<Rightarrow> 's \<Rightarrow> 's event_reader" where
  "event_open body fin s = \<lparr>er_body = body, er_fin = fin, er_closed = False, er_done = False, er_termErr = None, er_state = s\<rparr>"

definition event_finish :: "'s event_reader \<Rightarrow> err \<Rightarrow> 's event_reader" where
  "event_finish r e = r\<lparr>er_done := True, er_termErr := Some e\<rparr>"

definition event_Close :: "'s event_reader \<Rightarrow> 's event_reader" where
  "event_Close r = r\<lparr>er_closed := True\<rparr>"

text \<open>\<open>ending\<close> gives the error a failed read is reported as; its last argument is whether the reader had been closed.\<close>

function event_loop ::
    "('s \<Rightarrow> sse_event \<Rightarrow> 's \<times> event_step) \<Rightarrow> ('s \<Rightarrow> err \<Rightarrow> bool \<Rightarrow> err) \<Rightarrow> 's event_reader \<Rightarrow> (err + stream_chunk) \<times> 's event_reader" where
  "event_loop step ending r = (case Next (er_body r) (er_fin r) of
       (Inl e, rest) \<Rightarrow>
         (let x = ending (er_state r) e (er_closed r) in (Inl x, event_finish (event_Close (r\<lparr>er_body := rest\<rparr>)) x))
     | (Inr ev, rest) \<Rightarrow>
         (case step (er_state r) ev of (s, out) \<Rightarrow>
            (let r1 = r\<lparr>er_body := rest, er_state := s\<rparr> in
             case out of
               StepSkip \<Rightarrow> event_loop step ending r1
             | StepChunk c \<Rightarrow> (Inr c, r1)
             | StepFail x \<Rightarrow> (Inl x, event_finish (event_Close r1) x)
             | StepWhole \<Rightarrow> (Inl IoEOF, event_finish (event_Close r1) IoEOF))))"
  by pat_completeness auto
termination
  by (relation "measure (\<lambda>(step, ending, r). length (er_body r))") (auto dest!: Next_bounded(2) [OF sym])

declare event_loop.simps [simp del]

text \<open>The owner may close the reader while a read is blocked: \<open>torn\<close> is then the error that read fails with.\<close>

definition event_Recv ::
    "('s \<Rightarrow> sse_event \<Rightarrow> 's \<times> event_step) \<Rightarrow> ('s \<Rightarrow> err \<Rightarrow> bool \<Rightarrow> err) \<Rightarrow> err option \<Rightarrow> 's event_reader
       \<Rightarrow> (err + stream_chunk) \<times> 's event_reader" where
  "event_Recv step ending torn r =
     (if er_done r then (Inl (case er_termErr r of Some e \<Rightarrow> e | None \<Rightarrow> IoEOF), r)
      else if er_closed r then (Inl ErrStreamTruncated, event_finish r ErrStreamTruncated)
      else case torn of
        None \<Rightarrow> event_loop step ending r
      | Some e \<Rightarrow> (let x = ending (er_state r) e True in (Inl x, event_finish (event_Close r) x)))"

section \<open>Reading to the end\<close>

lemma event_loop_progress:
  "event_loop step ending r = (Inr c, r') \<Longrightarrow> length (er_body r') < length (er_body r) \<and> er_fin r' = er_fin r
     \<and> er_done r' = er_done r \<and> er_closed r' = er_closed r"
proof (induction step ending r rule: event_loop.induct)
  case (1 step ending r)
  obtain res rest where n: "Next (er_body r) (er_fin r) = (res, rest)" by (cases "Next (er_body r) (er_fin r)")
  show ?case
  proof (cases res)
    case (Inl e)
    with n "1.prems" show ?thesis by (subst (asm) event_loop.simps) (simp add: Let_def)
  next
    case (Inr ev)
    have shorter: "length rest < length (er_body r)" using Next_bounded(2) n Inr by blast
    obtain s out where st: "step (er_state r) ev = (s, out)" by (cases "step (er_state r) ev")
    show ?thesis
    proof (cases "out = StepSkip")
      case True
      with n Inr st have "event_loop step ending r = event_loop step ending (r\<lparr>er_body := rest, er_state := s\<rparr>)"
        by (subst event_loop.simps) (simp add: Let_def)
      with "1.IH" [OF n [symmetric] Inr st [symmetric] refl True] "1.prems" shorter show ?thesis by auto
    next
      case False
      with n Inr st "1.prems" shorter show ?thesis
        by (subst (asm) event_loop.simps) (auto simp: Let_def split: event_step.splits)
    qed
  qed
qed

lemma event_Recv_progress: "event_Recv step ending torn r = (Inr c, r') \<Longrightarrow> length (er_body r') < length (er_body r)"
  using event_loop_progress [of step ending r c r'] by (auto simp: event_Recv_def Let_def split: if_splits option.splits)

text \<open>All chunks of a stream, and the error that ended it.\<close>

function event_drain ::
    "('s \<Rightarrow> sse_event \<Rightarrow> 's \<times> event_step) \<Rightarrow> ('s \<Rightarrow> err \<Rightarrow> bool \<Rightarrow> err) \<Rightarrow> 's event_reader \<Rightarrow> stream_chunk list \<times> err" where
  "event_drain step ending r = (case event_Recv step ending None r of
       (Inl e, r') \<Rightarrow> ([], e)
     | (Inr c, r') \<Rightarrow> (case event_drain step ending r' of (cs, e) \<Rightarrow> (c # cs, e)))"
  by pat_completeness auto
termination
  by (relation "measure (\<lambda>(step, ending, r). length (er_body r))") (auto dest!: event_Recv_progress [OF sym])

declare event_drain.simps [simp del]

text \<open>What the reader makes of a sequence of events.\<close>

fun event_deliver ::
    "('s \<Rightarrow> sse_event \<Rightarrow> 's \<times> event_step) \<Rightarrow> ('s \<Rightarrow> err \<Rightarrow> bool \<Rightarrow> err) \<Rightarrow> 's \<Rightarrow> sse_event list \<Rightarrow> err \<Rightarrow> stream_chunk list \<times> err" where
  "event_deliver step ending s [] e = ([], ending s e False)"
| "event_deliver step ending s (ev # evs) e = (case step s ev of (s', out) \<Rightarrow>
     (case out of
        StepSkip \<Rightarrow> event_deliver step ending s' evs e
      | StepChunk c \<Rightarrow> (case event_deliver step ending s' evs e of (cs, x) \<Rightarrow> (c # cs, x))
      | StepFail x \<Rightarrow> ([], x)
      | StepWhole \<Rightarrow> ([], IoEOF)))"

lemma event_drain_deliver:
  assumes "\<not> er_done r" "\<not> er_closed r"
  shows "event_drain step ending r =
    (case read_all (er_body r) (er_fin r) of (evs, e) \<Rightarrow> event_deliver step ending (er_state r) evs e)"
  using assms
proof (induction "length (er_body r)" arbitrary: r rule: less_induct)
  case less
  have drain: "event_drain step ending r = (case event_loop step ending r of
       (Inl e, r') \<Rightarrow> ([], e) | (Inr c, r') \<Rightarrow> (case event_drain step ending r' of (cs, e) \<Rightarrow> (c # cs, e)))"
    if "\<not> er_done r" "\<not> er_closed r" for r
    using that by (subst event_drain.simps) (simp add: event_Recv_def)
  obtain res rest where n: "Next (er_body r) (er_fin r) = (res, rest)" by (cases "Next (er_body r) (er_fin r)")
  show ?case
  proof (cases res)
    case (Inl e)
    then show ?thesis using n less.prems drain [of r]
      by (subst read_all.simps) (simp add: event_loop.simps [of _ _ r] Let_def)
  next
    case (Inr ev)
    obtain s out where st: "step (er_state r) ev = (s, out)" by (cases "step (er_state r) ev")
    let ?r1 = "r\<lparr>er_body := rest, er_state := s\<rparr>"
    have shorter: "length (er_body ?r1) < length (er_body r)" using Next_bounded(2) n Inr by simp
    have IH: "event_drain step ending ?r1 = (case read_all rest (er_fin r) of (evs, e) \<Rightarrow> event_deliver step ending s evs e)"
      using less.hyps [OF shorter] less.prems by simp
    have all: "read_all (er_body r) (er_fin r) = (case read_all rest (er_fin r) of (evs, e) \<Rightarrow> (ev # evs, e))"
      using n Inr by (subst read_all.simps) simp
    have loop: "event_loop step ending r = (case out of StepSkip \<Rightarrow> event_loop step ending ?r1 | StepChunk c \<Rightarrow> (Inr c, ?r1)
        | StepFail x \<Rightarrow> (Inl x, event_finish (event_Close ?r1) x) | StepWhole \<Rightarrow> (Inl IoEOF, event_finish (event_Close ?r1) IoEOF))"
      using n Inr st by (subst event_loop.simps) (simp add: Let_def)
    show ?thesis
    proof (cases out)
      case StepSkip
      then have "event_drain step ending r = event_drain step ending ?r1"
        using drain [of r] drain [of ?r1] less.prems loop by simp
      with IH all st StepSkip show ?thesis by (simp split: prod.splits)
    next
      case (StepChunk c)
      with IH all st drain [of r] less.prems loop show ?thesis by (simp split: prod.splits)
    qed (use all st drain [of r] less.prems loop in \<open>simp_all split: prod.splits\<close>)
  qed
qed

lemma event_drain_open:
  assumes "read_all body fin = (evs, e)"
  shows "event_drain step ending (event_open body fin s) = event_deliver step ending s evs e"
  using event_drain_deliver [of "event_open body fin s"] assms by (simp add: event_open_def)

section \<open>When a stream counts as whole\<close>

text \<open>What an adapter promises about its marker: a stream ends as whole only once the marker was seen, and a body
  that just ends before it is reported as truncated.\<close>

locale answer_protocol =
  fixes step :: "'s \<Rightarrow> sse_event \<Rightarrow> 's \<times> event_step"
    and ending :: "'s \<Rightarrow> err \<Rightarrow> bool \<Rightarrow> err"
    and seen :: "'s \<Rightarrow> bool"
    and marker :: "sse_event \<Rightarrow> bool"
  assumes ending_whole: "ending s e b = IoEOF \<Longrightarrow> seen s"
    and ending_severed: "errors_Is e IoEOF \<Longrightarrow> \<not> seen s \<Longrightarrow> ending s e b = ErrStreamTruncated"
    and step_fail: "step s ev = (s', StepFail x) \<Longrightarrow> x \<noteq> IoEOF"
    and step_whole: "step s ev = (s', StepWhole) \<Longrightarrow> seen s \<or> marker ev"
    and step_seen: "step s ev = (s', out) \<Longrightarrow> seen s' \<Longrightarrow> seen s \<or> marker ev"
begin

lemma whole_needs_marker: "event_deliver step ending s evs e = (cs, IoEOF) \<Longrightarrow> seen s \<or> (\<exists>ev \<in> set evs. marker ev)"
proof (induction evs arbitrary: s cs)
  case Nil
  then show ?case by (auto dest: ending_whole)
next
  case (Cons ev evs)
  obtain s' out where st: "step s ev = (s', out)" by (cases "step s ev")
  show ?case
  proof (cases out)
    case StepSkip
    with Cons.prems st have "event_deliver step ending s' evs e = (cs, IoEOF)" by simp
    from Cons.IH [OF this] step_seen [OF st] show ?thesis by auto
  next
    case (StepChunk c)
    with Cons.prems st obtain cs' where "event_deliver step ending s' evs e = (cs', IoEOF)" by (auto split: prod.splits)
    from Cons.IH [OF this] step_seen [OF st] show ?thesis by auto
  next
    case (StepFail x)
    with Cons.prems st step_fail [of s ev s' x] show ?thesis by simp
  next
    case StepWhole
    with st step_whole [of s ev s'] show ?thesis by auto
  qed
qed

lemma drain_needs_marker:
  assumes "read_all body fin = (evs, e)" "\<not> seen s" "snd (event_drain step ending (event_open body fin s)) = IoEOF"
  shows "\<exists>ev \<in> set evs. marker ev"
  using assms by (metis event_drain_open prod.collapse whole_needs_marker)

text \<open>Without the marker, an orderly end of the body and an end in the middle are the same: the answer is truncated,
  unless an event already failed.\<close>

lemma severed_is_truncated:
  assumes "\<forall>ev \<in> set evs. \<not> marker ev" "\<not> seen s" "errors_Is e IoEOF"
  shows "snd (event_deliver step ending s evs e) = ErrStreamTruncated \<or>
    (\<exists>s1 s2. \<exists>ev \<in> set evs. step s1 ev = (s2, StepFail (snd (event_deliver step ending s evs e))))"
  using assms
proof (induction evs arbitrary: s)
  case Nil
  then show ?case using ending_severed by simp
next
  case (Cons ev evs)
  obtain s' out where st: "step s ev = (s', out)" by (cases "step s ev")
  have ns: "\<not> seen s'" using step_seen [OF st] Cons.prems by auto
  note IH = Cons.IH [of s'] ns Cons.prems(1,3)
  show ?case
  proof (cases out)
    case StepSkip
    with IH st show ?thesis by auto
  next
    case (StepChunk c)
    with IH st show ?thesis by (auto split: prod.splits)
  next
    case (StepFail x)
    with st have "step s ev = (s', StepFail (snd (event_deliver step ending s (ev # evs) e)))" by simp
    then show ?thesis by auto
  next
    case StepWhole
    with st step_whole [of s ev s'] Cons.prems show ?thesis by auto
  qed
qed

lemma drain_severed:
  assumes "read_all body fin = (evs, e)" "\<not> seen s" "errors_Is e IoEOF" "\<forall>ev \<in> set evs. \<not> marker ev"
  shows "snd (event_drain step ending (event_open body fin s)) = ErrStreamTruncated \<or>
    (\<exists>s1 s2 x. \<exists>ev \<in> set evs. step s1 ev = (s2, StepFail x))"
  unfolding event_drain_open [OF assms(1)] using severed_is_truncated [OF assms(4,2,3)] by blast

end

end
