(* ===== verification/Anthropic.thy ===== *)
theory Anthropic
  imports Answer_Text Event_Reader
begin

text \<open>
  The adapter for the Anthropic Messages API (\<^verbatim>\<open>src/internal/providers/anthropic\<close>): requests translated out, answers
  and event typed streams translated back into the OpenAI shape. The HTTP client and the clock are arguments, as they
  are for the OpenAI adapter.
\<close>

section \<open>Requests\<close>

definition anthropic_baseURL :: string where "anthropic_baseURL = ''https://api.anthropic.com/v1''"
definition messagesPath :: string where "messagesPath = ''/messages''"
definition headerAPIKey :: string where "headerAPIKey = ''x-api-key''"
definition headerVersion :: string where "headerVersion = ''anthropic-version''"
definition anthropicVersion :: string where "anthropicVersion = ''2023-06-01''"
definition defaultMaxTokens :: goint where "defaultMaxTokens = 4096"
definition systemJoiner :: string where "systemJoiner = [CHR 0x0A, CHR 0x0A]"

definition anthropic_New :: "string \<Rightarrow> string \<Rightarrow> string \<Rightarrow> adapter" where
  "anthropic_New name baseURL apiKey =
     \<lparr>ad_name = name, ad_baseURL = TrimRight_slash (if baseURL = [] then anthropic_baseURL else baseURL), ad_apiKey = apiKey\<rparr>"

record messages_request =
  mr_Model :: string
  mr_Messages :: "openai_message list"
  mr_MaxTokens :: goint
  mr_System :: string
  mr_Temperature :: "float64 option"
  mr_TopP :: "float64 option"
  mr_StopSequences :: "string list"
  mr_Stream :: bool

definition maxTokens :: "openai_request \<Rightarrow> goint" where
  "maxTokens r = (case oreq_MaxTokens r of
       Some n \<Rightarrow> n
     | None \<Rightarrow> (case oreq_MaxCompletionTokens r of Some n \<Rightarrow> n | None \<Rightarrow> defaultMaxTokens))"

text \<open>The loop over the messages: system and developer turns leave the list for the system field.\<close>

fun split_turns :: "openai_message list \<Rightarrow> string list \<times> openai_message list" where
  "split_turns [] = ([], [])"
| "split_turns (m # msgs) = (case split_turns msgs of (system, turns) \<Rightarrow>
     if msg_Role m = ''system'' \<or> msg_Role m = ''developer''
     then (let text = content_text (msg_Content m) in if text \<noteq> [] then (text # system, turns) else (system, turns))
     else (system, m # turns))"

definition to_messages_request :: "openai_request \<Rightarrow> string \<Rightarrow> bool \<Rightarrow> messages_request" where
  "to_messages_request r model stream = (case split_turns (oreq_Messages r) of (system, turns) \<Rightarrow>
     \<lparr>mr_Model = (if model \<noteq> [] then model else oreq_Model r), mr_Messages = turns, mr_MaxTokens = maxTokens r,
      mr_System = Join system systemJoiner, mr_Temperature = oreq_Temperature r, mr_TopP = oreq_TopP r,
      mr_StopSequences = stopSequences (oreq_Stop r), mr_Stream = stream\<rparr>)"

definition optional :: "string \<Rightarrow> string option \<Rightarrow> (string \<times> string) list" where
  "optional k t = (case t of None \<Rightarrow> [] | Some x \<Rightarrow> [(k, x)])"

definition Marshal_messages :: "messages_request \<Rightarrow> bytes" where
  "Marshal_messages r = object_text
     ([(''model'', quoted (mr_Model r)),
       (''messages'', array_text (map (\<lambda>m. object_text [(''role'', quoted (msg_Role m)), (''content'', raw_text (msg_Content m))]) (mr_Messages r))),
       (''max_tokens'', Itoa (mr_MaxTokens r))]
      @ (if mr_System r = [] then [] else [(''system'', quoted (mr_System r))])
      @ optional ''temperature'' (map_option json_float (mr_Temperature r)) @ optional ''top_p'' (map_option json_float (mr_TopP r))
      @ (if mr_StopSequences r = [] then [] else [(''stop_sequences'', array_text (map quoted (mr_StopSequences r)))])
      @ (if mr_Stream r then [(''stream'', ''true'')] else []))"

definition anthropic_translateRequest :: "bytes \<Rightarrow> string \<Rightarrow> bool \<Rightarrow> err + bytes" where
  "anthropic_translateRequest raw model stream = (case decode_openai_request raw of
       None \<Rightarrow> Inl (WrapErr ''decode chat request: '' (OtherErr ''json''))
     | Some r \<Rightarrow> Inr (Marshal_messages (to_messages_request r model stream)))"

definition anthropic_send :: "http_client \<Rightarrow> adapter \<Rightarrow> chat_request \<Rightarrow> bool \<Rightarrow> err + http_response" where
  "anthropic_send hc p req stream = (case anthropic_translateRequest (ReqRaw req) (ReqModel req) stream of
       Inl e \<Rightarrow> Inl (ProviderError (ad_name p) ErrClassInvalidRequest 0 ''request cannot be expressed on the messages api'' (Some e))
     | Inr body \<Rightarrow>
         (let url = ad_baseURL p @ messagesPath;
              headers = header_Set headerVersion anthropicVersion (header_Set headerAPIKey (ad_apiKey p)
                (header_Set ''Content-Type'' ''application/json'' []))
          in case hc_build hc url of
               Some e \<Rightarrow> Inl (ProviderError (ad_name p) ErrClassInternal 0 ''build upstream request''
                               (Some (WrapErr ''build upstream request: '' e)))
             | None \<Rightarrow>
                 (case hc_do hc \<lparr>hreq_url = url, hreq_headers = headers, hreq_body = body\<rparr> of
                    Inl e \<Rightarrow> Inl (adapter_transportError p (hc_ctx hc) ''call upstream'' e)
                  | Inr resp \<Rightarrow> Inr resp)))"

definition anthropic_statusError :: "adapter \<Rightarrow> http_response \<Rightarrow> err" where
  "anthropic_statusError p resp =
     (let body = fst (ReadAll_limit maxErrorBody (hresp_body resp) (hresp_fin resp))
      in ProviderError (ad_name p) (ClassFromStatusAndBody (hresp_status resp) body) (hresp_status resp)
           (upstreamErrorMessage body (hresp_status resp)) None)"

section \<open>Answers\<close>

definition finishReason :: "string \<Rightarrow> string" where
  "finishReason stopReason =
     (if stopReason = [] then []
      else if stopReason = ''end_turn'' \<or> stopReason = ''stop_sequence'' then ''stop''
      else if stopReason = ''max_tokens'' then ''length''
      else if stopReason = ''tool_use'' then ''tool_calls''
      else ''stop'')"

text \<open>\<^verbatim>\<open>usageJSON\<close>: input and output tokens.\<close>

definition anthropic_usage :: "goint \<times> goint \<Rightarrow> (string \<times> json) list \<Rightarrow> (goint \<times> goint) option" where
  "anthropic_usage u ms =
     (case (decode_field as_int (fst u) (field_values ''input_tokens'' ms), decode_field as_int (snd u) (field_values ''output_tokens'' ms)) of
        (Some i, Some out) \<Rightarrow> Some (i, out) | _ \<Rightarrow> None)"

definition anthropic_toUsage :: "goint \<times> goint \<Rightarrow> usage" where
  "anthropic_toUsage u = \<lparr>PromptTokens = fst u, CompletionTokens = snd u, TotalTokens = iadd (fst u) (snd u)\<rparr>"

record messages_response =
  mresp_ID :: string
  mresp_Model :: string
  mresp_Content :: "(string \<times> string) list"
  mresp_StopReason :: string
  mresp_Usage :: "goint \<times> goint"

definition decode_parts :: "json \<Rightarrow> (string \<times> string) list option" where
  "decode_parts v = (case v of JNull \<Rightarrow> Some [] | JArr vs \<Rightarrow> those (map decode_part vs) | _ \<Rightarrow> None)"

definition decode_messages_response :: "bytes \<Rightarrow> messages_response option" where
  "decode_messages_response body = (case json_parse body of
       None \<Rightarrow> None
     | Some v \<Rightarrow> (case as_object v of
         None \<Rightarrow> None
       | Some ms \<Rightarrow>
           (case (decode_field as_string [] (field_values ''id'' ms), decode_field as_string [] (field_values ''model'' ms),
                  those (map decode_parts (field_values ''content'' ms)), decode_field as_string [] (field_values ''stop_reason'' ms),
                  decode_struct anthropic_usage (0, 0) (field_values ''usage'' ms)) of
              (Some i, Some m, Some contents, Some sr, Some u) \<Rightarrow>
                Some \<lparr>mresp_ID = i, mresp_Model = m, mresp_Content = (if contents = [] then [] else last contents),
                  mresp_StopReason = sr, mresp_Usage = u\<rparr>
            | _ \<Rightarrow> None)))"

definition blocks_text :: "(string \<times> string) list \<Rightarrow> string" where
  "blocks_text blocks = concat (map snd (filter (\<lambda>(ty, tx). ty = ''text'') blocks))"

definition anthropic_translateResponse :: "bytes \<Rightarrow> string \<Rightarrow> goint \<Rightarrow> err + bytes \<times> usage" where
  "anthropic_translateResponse body model created = (case decode_messages_response body of
       None \<Rightarrow> Inl (WrapErr ''decode messages response: '' (OtherErr ''json''))
     | Some r \<Rightarrow>
         (let u = anthropic_toUsage (mresp_Usage r)
          in Inr (encode (completion_body (mresp_ID r) created (if mresp_Model r \<noteq> [] then mresp_Model r else model)
               (blocks_text (mresp_Content r)) (finishReason (mresp_StopReason r)) u), u)))"

definition anthropic_Chat :: "http_client \<Rightarrow> instant \<Rightarrow> adapter \<Rightarrow> chat_request \<Rightarrow> err + chat_response" where
  "anthropic_Chat hc now p req = (case anthropic_send hc p req False of
       Inl e \<Rightarrow> Inl e
     | Inr resp \<Rightarrow>
         if \<not> Is2xx (hresp_status resp) then Inl (anthropic_statusError p resp)
         else (case ReadAll_limit (maxResponseBytes + 1) (hresp_body resp) (hresp_fin resp) of
             (body, Some e) \<Rightarrow> Inl (adapter_transportError p (hc_ctx hc) ''read upstream response'' e)
           | (body, None) \<Rightarrow>
               if maxResponseBytes < length body
               then Inl (ProviderError (ad_name p) ErrClassUpstream 0
                      (''upstream response exceeds '' @ Itoa (int maxResponseBytes) @ '' byte limit'') None)
               else case anthropic_translateResponse body (ReqModel req) (unix_seconds now) of
                   Inl e \<Rightarrow> Inl (ProviderError (ad_name p) ErrClassUpstream 0 ''upstream response is not a messages completion'' (Some e))
                 | Inr (translated, u) \<Rightarrow>
                     Inr \<lparr>RespModel = ReqModel req, RespProvider = ad_name p, RespBody = translated, RespUsage = u\<rparr>))"

section \<open>Streams\<close>

record stream_delta =
  sd_Type :: string
  sd_Text :: string
  sd_StopReason :: string

record stream_message =
  sm_ID :: string
  sm_Model :: string
  sm_Usage :: "(goint \<times> goint) option"

record stream_payload =
  sp_Type :: string
  sp_Message :: "stream_message option"
  sp_Delta :: "stream_delta option"
  sp_Usage :: "(goint \<times> goint) option"

definition decode_delta :: "stream_delta \<Rightarrow> (string \<times> json) list \<Rightarrow> stream_delta option" where
  "decode_delta d ms =
     (case (decode_field as_string (sd_Type d) (field_values ''type'' ms), decode_field as_string (sd_Text d) (field_values ''text'' ms),
            decode_field as_string (sd_StopReason d) (field_values ''stop_reason'' ms)) of
        (Some ty, Some tx, Some sr) \<Rightarrow> Some \<lparr>sd_Type = ty, sd_Text = tx, sd_StopReason = sr\<rparr> | _ \<Rightarrow> None)"

definition decode_stream_message :: "stream_message \<Rightarrow> (string \<times> json) list \<Rightarrow> stream_message option" where
  "decode_stream_message m ms =
     (case (decode_field as_string (sm_ID m) (field_values ''id'' ms), decode_field as_string (sm_Model m) (field_values ''model'' ms),
            decode_struct_pointer anthropic_usage (0, 0) (field_values ''usage'' ms)) of
        (Some i, Some md, Some u) \<Rightarrow> Some \<lparr>sm_ID = i, sm_Model = md, sm_Usage = u\<rparr> | _ \<Rightarrow> None)"

definition no_payload :: stream_payload where
  "no_payload = \<lparr>sp_Type = [], sp_Message = None, sp_Delta = None, sp_Usage = None\<rparr>"

definition decode_payload :: "bytes \<Rightarrow> stream_payload option" where
  "decode_payload data = (case json_parse data of
       None \<Rightarrow> None
     | Some v \<Rightarrow> (case as_object v of
         None \<Rightarrow> None
       | Some ms \<Rightarrow>
           (case (decode_field as_string [] (field_values ''type'' ms),
                  decode_struct_pointer decode_stream_message \<lparr>sm_ID = [], sm_Model = [], sm_Usage = None\<rparr> (field_values ''message'' ms),
                  decode_struct_pointer decode_delta \<lparr>sd_Type = [], sd_Text = [], sd_StopReason = []\<rparr> (field_values ''delta'' ms),
                  decode_struct_pointer anthropic_usage (0, 0) (field_values ''usage'' ms)) of
              (Some ty, Some m, Some d, Some u) \<Rightarrow> Some \<lparr>sp_Type = ty, sp_Message = m, sp_Delta = d, sp_Usage = u\<rparr>
            | _ \<Rightarrow> None)))"

record anthropic_stream =
  as_provider :: string
  as_created :: goint
  as_sawStop :: bool
  as_id :: string
  as_model :: string
  as_inputTokens :: goint
  as_outputTokens :: goint
  as_haveInput :: bool
  as_haveOutput :: bool

definition anthropic_newStream :: "string \<Rightarrow> string \<Rightarrow> instant \<Rightarrow> anthropic_stream" where
  "anthropic_newStream provider model now =
     \<lparr>as_provider = provider, as_created = unix_seconds now, as_sawStop = False, as_id = [], as_model = model,
      as_inputTokens = 0, as_outputTokens = 0, as_haveInput = False, as_haveOutput = False\<rparr>"

text \<open>\<^verbatim>\<open>usage\<close>: totals once both halves have arrived.\<close>

definition stream_usage :: "anthropic_stream \<Rightarrow> usage option" where
  "stream_usage s =
     (if \<not> as_haveInput s \<or> \<not> as_haveOutput s then None
      else Some \<lparr>PromptTokens = as_inputTokens s, CompletionTokens = as_outputTokens s,
                 TotalTokens = iadd (as_inputTokens s) (as_outputTokens s)\<rparr>)"

definition anthropic_chunk :: "anthropic_stream \<Rightarrow> string \<Rightarrow> string \<Rightarrow> string option \<Rightarrow> usage option \<Rightarrow> stream_chunk" where
  "anthropic_chunk s role content finish u =
     empty_chunk\<lparr>ChunkData := encode (chunk_body (as_id s) (as_created s) (as_model s)
         (omit_empty ''role'' role @ omit_empty ''content'' content) finish u), ChunkUsage := u\<rparr>"

definition protocolError :: "string \<Rightarrow> string \<Rightarrow> err \<Rightarrow> err" where
  "protocolError provider doing e =
     ProviderError provider ErrClassUpstream 0 (doing @ '' failed'') (Some (WrapErr (doing @ '': '') e))"

text \<open>The name of an event, from its event line or else from the payload.\<close>

definition event_name :: "sse_event \<Rightarrow> stream_payload \<Rightarrow> string" where
  "event_name ev payload = (if ev_Name ev = [] then sp_Type payload else ev_Name ev)"

definition event_payload :: "sse_event \<Rightarrow> stream_payload option" where
  "event_payload ev = (if ev_Data ev \<noteq> [] then decode_payload (ev_Data ev) else Some no_payload)"

definition start_message :: "stream_message option \<Rightarrow> anthropic_stream \<Rightarrow> anthropic_stream" where
  "start_message m s = (case m of
       None \<Rightarrow> s
     | Some x \<Rightarrow>
         (let s1 = s\<lparr>as_id := sm_ID x\<rparr>; s2 = (if sm_Model x \<noteq> [] then s1\<lparr>as_model := sm_Model x\<rparr> else s1)
          in case sm_Usage x of None \<Rightarrow> s2 | Some u \<Rightarrow> s2\<lparr>as_inputTokens := fst u, as_haveInput := True\<rparr>))"

definition anthropic_translate :: "anthropic_stream \<Rightarrow> sse_event \<Rightarrow> anthropic_stream \<times> (err + stream_chunk option)" where
  "anthropic_translate s ev = (case event_payload ev of
       None \<Rightarrow> (s, Inl (protocolError (as_provider s) ''decode stream event'' (OtherErr ''json'')))
     | Some payload \<Rightarrow>
         (let name = event_name ev payload in
          if name = ''ping'' then (s, Inr (Some (empty_chunk\<lparr>Keepalive := True\<rparr>)))
          else if name = ''message_start'' then
            (let s' = start_message (sp_Message payload) s in (s', Inr (Some (anthropic_chunk s' ''assistant'' [] None None))))
          else if name = ''content_block_delta'' then
            (case sp_Delta payload of
               None \<Rightarrow> (s, Inr None)
             | Some d \<Rightarrow> if sd_Type d \<noteq> ''text_delta'' then (s, Inr None)
                         else (s, Inr (Some (anthropic_chunk s [] (sd_Text d) None None))))
          else if name = ''message_delta'' then
            (let s' = (case sp_Usage payload of None \<Rightarrow> s | Some u \<Rightarrow> s\<lparr>as_outputTokens := snd u, as_haveOutput := True\<rparr>);
                 reason = (case sp_Delta payload of None \<Rightarrow> [] | Some d \<Rightarrow> finishReason (sd_StopReason d))
             in (s', Inr (Some (anthropic_chunk s' [] [] (if reason \<noteq> [] then Some reason else None) (stream_usage s')))))
          else if name = ''message_stop'' then (s\<lparr>as_sawStop := True\<rparr>, Inr None)
          else (s, Inr None)))"

text \<open>One turn of the loop of \<^verbatim>\<open>Recv\<close>, and how a failed read is reported.\<close>

definition anthropic_step :: "anthropic_stream \<Rightarrow> sse_event \<Rightarrow> anthropic_stream \<times> event_step" where
  "anthropic_step s ev =
     (if ev_Keepalive ev then (s, StepChunk (empty_chunk\<lparr>Keepalive := True\<rparr>))
      else case anthropic_translate s ev of
        (s', Inl e) \<Rightarrow> (s', StepFail e)
      | (s', Inr (Some c)) \<Rightarrow> (s', StepChunk c)
      | (s', Inr None) \<Rightarrow> (s', if as_sawStop s' then StepWhole else StepSkip))"

definition streamErrorMessage :: "error_class \<Rightarrow> string" where
  "streamErrorMessage cls = (if cls = ErrClassTimeout then ''stream read timed out''
     else if cls = ErrClassCanceled then ''stream canceled'' else ''stream read failed'')"

definition anthropic_recvError :: "err option \<Rightarrow> anthropic_stream \<Rightarrow> err \<Rightarrow> bool \<Rightarrow> err" where
  "anthropic_recvError ctxErr s e userClosed =
     (if errors_Is e IoEOF then (if as_sawStop s then IoEOF else ErrStreamTruncated)
      else if errors_Is e ErrSSEEventTooLarge
      then ProviderError (as_provider s) ErrClassUpstream 0
             (''upstream SSE event exceeds '' @ Itoa MaxSSEEventBytes @ '' byte limit'') (Some e)
      else let cls = transportClass ctxErr e in
        if cls = ErrClassUpstream \<and> userClosed then ErrStreamTruncated
        else ProviderError (as_provider s) cls 0 (streamErrorMessage cls) (Some e))"

definition anthropic_Recv :: "err option \<Rightarrow> err option \<Rightarrow> anthropic_stream event_reader \<Rightarrow> (err + stream_chunk) \<times> anthropic_stream event_reader" where
  "anthropic_Recv ctxErr = event_Recv anthropic_step (anthropic_recvError ctxErr)"

definition anthropic_ChatStream :: "http_client \<Rightarrow> instant \<Rightarrow> adapter \<Rightarrow> chat_request \<Rightarrow> err + anthropic_stream event_reader" where
  "anthropic_ChatStream hc now p req = (case anthropic_send hc p req True of
       Inl e \<Rightarrow> Inl e
     | Inr resp \<Rightarrow>
         if \<not> Is2xx (hresp_status resp) then Inl (anthropic_statusError p resp)
         else Inr (event_open (hresp_body resp) (hresp_fin resp) (anthropic_newStream (ad_name p) (ReqModel req) now)))"

section \<open>The conversation is kept\<close>

lemma split_turns_filter: "split_turns msgs = (system_texts msgs, filter (\<lambda>m. \<not> lifted m) msgs)"
  by (induction msgs) (auto simp: system_texts_def lifted_def Let_def)

section \<open>The marker\<close>

definition stops :: "sse_event \<Rightarrow> bool" where
  "stops ev \<longleftrightarrow> \<not> ev_Keepalive ev \<and> (case event_payload ev of None \<Rightarrow> False | Some payload \<Rightarrow> event_name ev payload = ''message_stop'')"

lemma anthropic_translate_cases:
  assumes "anthropic_translate s ev = (s', res)"
  shows "as_sawStop s' = (as_sawStop s \<or> (case event_payload ev of None \<Rightarrow> False | Some payload \<Rightarrow> event_name ev payload = ''message_stop''))"
    and "res = Inl e \<Longrightarrow> event_payload ev = None \<and> e = protocolError (as_provider s) ''decode stream event'' (OtherErr ''json'')"
    and "as_provider s' = as_provider s"
  using assms
  by (auto simp: anthropic_translate_def start_message_def Let_def split: option.splits if_splits)

lemma anthropic_step_saw:
  assumes "anthropic_step s ev = (s', out)"
  shows "as_sawStop s' = (as_sawStop s \<or> stops ev)" "as_provider s' = as_provider s"
  using assms anthropic_translate_cases(1,3) [of s ev s']
  by (auto simp: anthropic_step_def stops_def split: if_splits prod.splits sum.splits option.splits)

lemma anthropic_step_fail:
  assumes "anthropic_step s ev = (s', StepFail x)"
  shows "event_payload ev = None \<and> x = protocolError (as_provider s) ''decode stream event'' (OtherErr ''json'')"
  using assms anthropic_translate_cases(2) [of s ev s' "Inl x" x]
  by (auto simp: anthropic_step_def split: if_splits prod.splits sum.splits option.splits)

text \<open>Once the marker was seen nothing is read any more, so a reader that goes on has not seen it.\<close>

lemma anthropic_step_whole:
  assumes "anthropic_step s ev = (s', StepWhole)"
  shows "as_sawStop s'"
  using assms by (auto simp: anthropic_step_def split: if_splits prod.splits sum.splits option.splits)

interpretation anthropic: answer_protocol anthropic_step "anthropic_recvError ctxErr" as_sawStop stops for ctxErr
proof unfold_locales
  show "anthropic_recvError ctxErr s e b = IoEOF \<Longrightarrow> as_sawStop s" for s e b
    by (auto simp: anthropic_recvError_def Let_def split: if_splits)
  show "errors_Is e IoEOF \<Longrightarrow> \<not> as_sawStop s \<Longrightarrow> anthropic_recvError ctxErr s e b = ErrStreamTruncated" for s e b
    by (simp add: anthropic_recvError_def)
  show "anthropic_step s ev = (s', StepFail x) \<Longrightarrow> x \<noteq> IoEOF" for s ev s' x
    using anthropic_step_fail [of s ev s' x] by (auto simp: protocolError_def)
  show "anthropic_step s ev = (s', StepWhole) \<Longrightarrow> as_sawStop s \<or> stops ev" for s ev s'
    using anthropic_step_whole anthropic_step_saw(1) by blast
  show "anthropic_step s ev = (s', out) \<Longrightarrow> as_sawStop s' \<Longrightarrow> as_sawStop s \<or> stops ev" for s ev s' out
    using anthropic_step_saw(1) by blast
qed

lemma anthropic_step_provider: "anthropic_step s ev = (s', out) \<Longrightarrow> as_provider s' = as_provider s"
  by (rule anthropic_step_saw(2))

text \<open>(C8) An Anthropic stream counts as whole only after its \<^verbatim>\<open>message_stop\<close>. If reading a stream to its end gives
  \<^verbatim>\<open>io.EOF\<close>, the body held such an event; and a body of readable events that ends without one, in whatever place it
  was cut, is reported as truncated.\<close>

theorem anthropic_whole_only_after_stop:
  assumes "anthropic_ChatStream hc now p req = Inr r" "read_all (er_body r) (er_fin r) = (evs, fin)"
  shows "(snd (event_drain anthropic_step (anthropic_recvError ctxErr) r) = IoEOF \<longrightarrow> (\<exists>ev \<in> set evs. stops ev)) \<and>
    (fin = IoEOF \<and> (\<forall>ev \<in> set evs. \<not> stops ev \<and> event_payload ev \<noteq> None) \<longrightarrow>
       snd (event_drain anthropic_step (anthropic_recvError ctxErr) r) = ErrStreamTruncated)"
proof -
  obtain body f where r: "r = event_open body f (anthropic_newStream (ad_name p) (ReqModel req) now)"
    using assms(1) by (auto simp: anthropic_ChatStream_def split: sum.splits if_splits)
  have open_ok: "read_all body f = (evs, fin)" "\<not> as_sawStop (anthropic_newStream (ad_name p) (ReqModel req) now)"
    using assms(2) by (simp_all add: r event_open_def anthropic_newStream_def)
  show ?thesis
    using anthropic.drain_needs_marker [OF open_ok] anthropic.drain_severed [OF open_ok] anthropic_step_fail
    unfolding r by fastforce
qed

section \<open>The text is kept\<close>

text \<open>The text an event adds to the answer.\<close>

definition event_text :: "sse_event \<Rightarrow> string" where
  "event_text ev = (if ev_Keepalive ev then [] else case event_payload ev of
       None \<Rightarrow> []
     | Some payload \<Rightarrow>
         (case sp_Delta payload of
            None \<Rightarrow> []
          | Some d \<Rightarrow> if event_name ev payload = ''content_block_delta'' \<and> sd_Type d = ''text_delta'' then sd_Text d else []))"

definition stream_valid :: "anthropic_stream \<Rightarrow> bool" where
  "stream_valid s \<longleftrightarrow> valid_utf8 (as_id s) \<and> valid_utf8 (as_model s)"

lemma decode_payload_valid:
  assumes "decode_payload data = Some payload"
  shows "sp_Message payload = Some m \<Longrightarrow> valid_utf8 (sm_ID m) \<and> valid_utf8 (sm_Model m)"
    and "sp_Delta payload = Some d \<Longrightarrow> valid_utf8 (sd_Text d)"
proof -
  obtain v ms where v: "json_parse data = Some v" "as_object v = Some ms"
    using assms by (auto simp: decode_payload_def split: option.splits)
  note fit = field_values_fit [OF as_object_fits [OF v]]
  { assume "sp_Message payload = Some m"
    then have "decode_struct_pointer decode_stream_message \<lparr>sm_ID = [], sm_Model = [], sm_Usage = None\<rparr> (field_values ''message'' ms) = Some (Some m)"
      using assms v by (auto simp: decode_payload_def split: option.splits)
    then show "valid_utf8 (sm_ID m) \<and> valid_utf8 (sm_Model m)"
      by (rule decode_struct_pointer_cases [OF _ fit])
        (auto simp: decode_stream_message_def intro: object_string_valid split: option.splits) }
  { assume "sp_Delta payload = Some d"
    then have "decode_struct_pointer decode_delta \<lparr>sd_Type = [], sd_Text = [], sd_StopReason = []\<rparr> (field_values ''delta'' ms) = Some (Some d)"
      using assms v by (auto simp: decode_payload_def split: option.splits)
    then show "valid_utf8 (sd_Text d)"
      by (rule decode_struct_pointer_cases [OF _ fit])
        (auto simp: decode_delta_def intro: object_string_valid split: option.splits) }
qed

lemma event_payload_valid:
  assumes "event_payload ev = Some payload"
  shows "sp_Message payload = Some m \<Longrightarrow> valid_utf8 (sm_ID m) \<and> valid_utf8 (sm_Model m)"
    and "sp_Delta payload = Some d \<Longrightarrow> valid_utf8 (sd_Text d)"
  using assms decode_payload_valid [of "ev_Data ev" payload]
  by (auto simp: event_payload_def no_payload_def split: if_splits)

lemma anthropic_chunk_text:
  assumes "stream_valid s" "valid_utf8 content" "valid_utf8 role" "\<And>f. finish = Some f \<Longrightarrow> valid_utf8 f"
  shows "chunk_text (anthropic_chunk s role content finish u) = content"
proof -
  have d: "fits_members (max_depth - 4) (omit_empty ''role'' role @ omit_empty ''content'' content)"
    using assms by (auto simp: fits_members_iff omit_empty_def)
  have "member ''delta'' (first_choice (ChunkData (anthropic_chunk s role content finish u))) = JObj (omit_empty ''role'' role @ omit_empty ''content'' content)"
    unfolding anthropic_chunk_def using chunk_body_parses [OF _ _ d assms(4)] assms(1) by (simp add: stream_valid_def)
  then show ?thesis by (simp add: chunk_text_def member_def text_of_def omit_empty_def)
qed

lemma keepalive_text [simp]: "chunk_text (empty_chunk\<lparr>Keepalive := True\<rparr>) = []"
  by (simp add: chunk_text_def empty_chunk_def first_choice_def json_parse_def member_def text_of_def skip_ws_def)

lemma finishReason_valid [simp]: "valid_utf8 (finishReason r)"
  by (simp add: finishReason_def)

lemma stream_valid_counts [simp]:
  "stream_valid (s\<lparr>as_outputTokens := n, as_haveOutput := b\<rparr>) = stream_valid s" "stream_valid (s\<lparr>as_sawStop := b\<rparr>) = stream_valid s"
  by (simp_all add: stream_valid_def)

lemma start_message_valid: "stream_valid s \<Longrightarrow> event_payload ev = Some payload \<Longrightarrow> stream_valid (start_message (sp_Message payload) s)"
  using event_payload_valid(1) [of ev payload]
  by (auto simp: start_message_def stream_valid_def Let_def split: option.splits)

lemma anthropic_step_text:
  assumes "anthropic_step s ev = (s', out)" "stream_valid s" "\<not> as_sawStop s" "event_payload ev \<noteq> None"
  shows "stream_valid s' \<and> (case out of StepChunk c \<Rightarrow> \<not> stops ev \<and> chunk_text c = event_text ev | StepSkip \<Rightarrow> \<not> stops ev \<and> event_text ev = []
    | StepFail x \<Rightarrow> False | StepWhole \<Rightarrow> stops ev)"
proof (cases "ev_Keepalive ev")
  case True
  then show ?thesis using assms by (auto simp: anthropic_step_def stops_def event_text_def)
next
  case False
  obtain payload where p: "event_payload ev = Some payload" using assms(4) by auto
  show ?thesis
    using assms(1-3) False p event_payload_valid(2) [OF p] start_message_valid [OF assms(2) p]
    by (auto simp: anthropic_step_def anthropic_translate_def stops_def event_text_def Let_def
        split: if_splits option.splits prod.splits intro!: anthropic_chunk_text)
qed

lemma anthropic_deliver_text:
  assumes "stream_valid s" "\<not> as_sawStop s" "\<forall>ev \<in> set evs. event_payload ev \<noteq> None"
  shows "concat (map chunk_text (fst (event_deliver anthropic_step ending s evs e))) =
    concat (map event_text (takeWhile (\<lambda>ev. \<not> stops ev) evs))"
  using assms
proof (induction evs arbitrary: s)
  case (Cons ev evs)
  obtain s' out where st: "anthropic_step s ev = (s', out)" by (cases "anthropic_step s ev")
  have step: "stream_valid s'" "case out of StepChunk c \<Rightarrow> \<not> stops ev \<and> chunk_text c = event_text ev
      | StepSkip \<Rightarrow> \<not> stops ev \<and> event_text ev = [] | StepFail x \<Rightarrow> False | StepWhole \<Rightarrow> stops ev"
    using anthropic_step_text [OF st Cons.prems(1,2)] Cons.prems(3) by auto
  have IH: "concat (map chunk_text (fst (event_deliver anthropic_step ending s' evs e))) =
      concat (map event_text (takeWhile (\<lambda>ev. \<not> stops ev) evs))" if "\<not> stops ev"
    using Cons.IH [OF step(1)] anthropic_step_saw(1) [OF st] Cons.prems that by simp
  show ?case using step IH st by (cases out) (auto split: prod.splits)
qed simp

text \<open>(C21) The text of an Anthropic stream arrives whole and in order: what a client reads from the chunks, put together,
  is the text of the text deltas the body held up to its \<^verbatim>\<open>message_stop\<close>, character by character.\<close>

theorem anthropic_text_is_kept:
  assumes "anthropic_ChatStream hc now p req = Inr r" "read_all (er_body r) (er_fin r) = (evs, fin)"
    and "valid_utf8 (ReqModel req)" "\<forall>ev \<in> set evs. event_payload ev \<noteq> None"
  shows "concat (map chunk_text (fst (event_drain anthropic_step (anthropic_recvError ctxErr) r))) =
    concat (map event_text (takeWhile (\<lambda>ev. \<not> stops ev) evs))"
proof -
  obtain body f where r: "r = event_open body f (anthropic_newStream (ad_name p) (ReqModel req) now)"
    using assms(1) by (auto simp: anthropic_ChatStream_def split: sum.splits if_splits)
  have all: "read_all body f = (evs, fin)" using assms(2) by (simp add: r event_open_def)
  have "stream_valid (anthropic_newStream (ad_name p) (ReqModel req) now)" "\<not> as_sawStop (anthropic_newStream (ad_name p) (ReqModel req) now)"
    using assms(3) by (simp_all add: stream_valid_def anthropic_newStream_def)
  then show ?thesis unfolding r event_drain_open [OF all] by (rule anthropic_deliver_text [OF _ _ assms(4)])
qed

section \<open>Witnesses\<close>

lemma demo_anthropic_opens:
  "anthropic_ChatStream (answering body) now demo_adapter demo_ask = Inr (event_open body IoEOF (anthropic_newStream ''p'' ''m'' now))"
  using demo_ask_decodes
  by (auto simp: anthropic_ChatStream_def anthropic_send_def anthropic_translateRequest_def demo_exchange Let_def)

definition demo_delta :: bytes where
  "demo_delta = ''{\"type\":\"content_block_delta\",\"delta\":{\"type\":\"text_delta\",\"text\":\"hi\"}}''"

definition demo_stop :: bytes where "demo_stop = ''{\"type\":\"message_stop\"}''"

lemma demo_frameable: "frameable demo_delta" "frameable demo_stop" by code_simp+

lemma demo_delta_decodes:
  "decode_payload demo_delta = Some \<lparr>sp_Type = ''content_block_delta'', sp_Message = None,
     sp_Delta = Some \<lparr>sd_Type = ''text_delta'', sd_Text = ''hi'', sd_StopReason = []\<rparr>, sp_Usage = None\<rparr>"
  by code_simp

lemma demo_stop_decodes:
  "decode_payload demo_stop = Some \<lparr>sp_Type = ''message_stop'', sp_Message = None, sp_Delta = None, sp_Usage = None\<rparr>"
  by code_simp

lemma demo_events:
  "event_payload (data_event demo_delta) \<noteq> None" "event_payload (data_event demo_stop) \<noteq> None"
  "\<not> stops (data_event demo_delta)" "stops (data_event demo_stop)" "event_text (data_event demo_delta) = ''hi''"
  using demo_delta_decodes demo_stop_decodes
  by (simp_all add: event_payload_def stops_def event_text_def event_name_def data_event_def no_event_def demo_delta_def demo_stop_def)

text \<open>The body ends after a text delta.\<close>

theorem anthropic_whole_only_after_stop_witness:
  "snd (event_drain anthropic_step (anthropic_recvError None) (event_open (wire [Frame demo_delta]) IoEOF (anthropic_newStream ''p'' ''m'' 0)))
     = ErrStreamTruncated"
  using anthropic_whole_only_after_stop [OF demo_anthropic_opens, of "wire [Frame demo_delta]" 0 "[data_event demo_delta]" IoEOF None]
    read_frames [of "[demo_delta]" IoEOF] demo_frameable demo_events by (simp add: event_open_def)

text \<open>What comes after the stop is not part of the answer.\<close>

theorem anthropic_text_is_kept_witness:
  "concat (map chunk_text (fst (event_drain anthropic_step (anthropic_recvError None)
     (event_open (wire [Frame demo_delta, Frame demo_stop, Frame demo_delta]) IoEOF (anthropic_newStream ''p'' ''m'' 0))))) = ''hi''"
proof -
  have v: "valid_utf8 (ReqModel demo_ask)" by code_simp
  show ?thesis
    using anthropic_text_is_kept [OF demo_anthropic_opens _ v, of "wire [Frame demo_delta, Frame demo_stop, Frame demo_delta]" 0
        "map data_event [demo_delta, demo_stop, demo_delta]" IoEOF None] read_frames [of "[demo_delta, demo_stop, demo_delta]" IoEOF]
      demo_frameable demo_events by (simp add: event_open_def)
qed

end
