(* ===== verification/Gemini.thy ===== *)
theory Gemini
  imports Answer_Text Event_Reader
begin

text \<open>
  The adapter for Google's Gemini API (\<^verbatim>\<open>src/internal/providers/gemini\<close>): requests translated out, answers and
  streams translated back into the OpenAI shape. The HTTP client, the clock and the random completion identifier are
  arguments.
\<close>

section \<open>Requests\<close>

definition gemini_baseURL :: string where "gemini_baseURL = ''https://generativelanguage.googleapis.com/v1beta''"
definition authHeader :: string where "authHeader = ''x-goog-api-key''"
definition gemini_modelsPath :: string where "gemini_modelsPath = ''/models/''"
definition generateContent :: string where "generateContent = '':generateContent''"
definition streamGenerateContent :: string where "streamGenerateContent = '':streamGenerateContent''"
definition sseQuery :: string where "sseQuery = ''alt=sse''"
definition modelNamePrefix :: string where "modelNamePrefix = ''models/''"

definition gemini_New :: "string \<Rightarrow> string \<Rightarrow> string \<Rightarrow> adapter" where
  "gemini_New name baseURL apiKey =
     \<lparr>ad_name = name, ad_baseURL = TrimRight_slash (if baseURL = [] then gemini_baseURL else baseURL), ad_apiKey = apiKey\<rparr>"

record gemini_content =
  gc_Role :: string
  gc_Parts :: "string list"

record generation_config =
  gen_Temperature :: "float64 option"
  gen_TopP :: "float64 option"
  gen_MaxOutputTokens :: "goint option"
  gen_StopSequences :: "string list"

record gemini_request =
  gr_Contents :: "gemini_content list"
  gr_SystemInstruction :: "gemini_content option"
  gr_GenerationConfig :: "generation_config option"

definition outputTokenLimit :: "openai_request \<Rightarrow> goint option" where
  "outputTokenLimit r = (if oreq_MaxTokens r \<noteq> None then oreq_MaxTokens r else oreq_MaxCompletionTokens r)"

definition geminiRole :: "string \<Rightarrow> string" where
  "geminiRole role = (if role = ''assistant'' \<or> role = ''model'' then ''model'' else ''user'')"

definition generationConfigOf :: "openai_request \<Rightarrow> generation_config option" where
  "generationConfigOf r =
     (let cfg = \<lparr>gen_Temperature = oreq_Temperature r, gen_TopP = oreq_TopP r, gen_MaxOutputTokens = outputTokenLimit r,
                 gen_StopSequences = stopSequences (oreq_Stop r)\<rparr>
      in if gen_Temperature cfg = None \<and> gen_TopP cfg = None \<and> gen_MaxOutputTokens cfg = None \<and> gen_StopSequences cfg = []
         then None else Some cfg)"

text \<open>The loop over the messages: the system parts and the contents.\<close>

fun gemini_turns :: "openai_message list \<Rightarrow> string list \<times> gemini_content list" where
  "gemini_turns [] = ([], [])"
| "gemini_turns (m # msgs) = (case gemini_turns msgs of (system, contents) \<Rightarrow>
     (let text = content_text (msg_Content m) in
      if msg_Role m = ''system'' \<or> msg_Role m = ''developer''
      then (if text \<noteq> [] then (text # system, contents) else (system, contents))
      else (system, \<lparr>gc_Role = geminiRole (msg_Role m), gc_Parts = [text]\<rparr> # contents)))"

definition gemini_translateRequest :: "bytes \<Rightarrow> err + gemini_request" where
  "gemini_translateRequest raw = (case decode_openai_request raw of
       None \<Rightarrow> Inl (WrapErr ''decode chat completions request: '' (OtherErr ''json''))
     | Some r \<Rightarrow>
         (case gemini_turns (oreq_Messages r) of (system, contents) \<Rightarrow>
            Inr \<lparr>gr_Contents = contents,
                 gr_SystemInstruction = (if system \<noteq> [] then Some \<lparr>gc_Role = [], gc_Parts = system\<rparr> else None),
                 gr_GenerationConfig = generationConfigOf r\<rparr>))"

definition content_json :: "gemini_content \<Rightarrow> json" where
  "content_json c = JObj (omit_empty ''role'' (gc_Role c) @ [(''parts'', JArr (map (\<lambda>t. JObj [(''text'', JStr t)]) (gc_Parts c)))])"

definition optional_json :: "string \<Rightarrow> json option \<Rightarrow> (string \<times> json) list" where
  "optional_json k v = (case v of None \<Rightarrow> [] | Some x \<Rightarrow> [(k, x)])"

definition config_json :: "generation_config \<Rightarrow> json" where
  "config_json g = JObj
     (optional_json ''temperature'' (map_option (JNum \<circ> json_float) (gen_Temperature g))
      @ optional_json ''topP'' (map_option (JNum \<circ> json_float) (gen_TopP g))
      @ optional_json ''maxOutputTokens'' (map_option num (gen_MaxOutputTokens g))
      @ (if gen_StopSequences g = [] then [] else [(''stopSequences'', JArr (map JStr (gen_StopSequences g)))]))"

definition request_json :: "gemini_request \<Rightarrow> json" where
  "request_json g = JObj
     ((''contents'', JArr (map content_json (gr_Contents g)))
      # optional_json ''systemInstruction'' (map_option content_json (gr_SystemInstruction g))
      @ optional_json ''generationConfig'' (map_option config_json (gr_GenerationConfig g)))"

definition endpoint :: "adapter \<Rightarrow> string \<Rightarrow> string \<Rightarrow> string \<Rightarrow> string" where
  "endpoint p model verb query = ad_baseURL p @ gemini_modelsPath @ PathEscape (TrimPrefix model modelNamePrefix) @ verb
     @ (if query \<noteq> [] then ''?'' @ query else [])"

definition internalError :: "adapter \<Rightarrow> string \<Rightarrow> err \<Rightarrow> err" where
  "internalError p doing e = ProviderError (ad_name p) ErrClassInternal 0 doing (Some (WrapErr (doing @ '': '') e))"

definition gemini_post :: "http_client \<Rightarrow> adapter \<Rightarrow> chat_request \<Rightarrow> string \<Rightarrow> string \<Rightarrow> err + http_response" where
  "gemini_post hc p req verb query = (case gemini_translateRequest (ReqRaw req) of
       Inl e \<Rightarrow> Inl (ProviderError (ad_name p) ErrClassInvalidRequest 0 ''request is not a valid chat completions body'' (Some e))
     | Inr payload \<Rightarrow>
         (let url = endpoint p (ReqModel req) verb query;
              headers = header_Set authHeader (ad_apiKey p) (header_Set ''Content-Type'' ''application/json'' [])
          in case hc_build hc url of
               Some e \<Rightarrow> Inl (internalError p ''build upstream request'' e)
             | None \<Rightarrow>
                 (case hc_do hc \<lparr>hreq_url = url, hreq_headers = headers, hreq_body = encode (request_json payload)\<rparr> of
                    Inl e \<Rightarrow> Inl (adapter_transportError p (hc_ctx hc) ''call upstream'' e)
                  | Inr resp \<Rightarrow> Inr resp)))"

section \<open>Answers\<close>

record usage_metadata =
  um_PromptTokenCount :: goint
  um_CandidatesTokenCount :: goint
  um_ThoughtsTokenCount :: goint
  um_TotalTokenCount :: goint

record gemini_error =
  ge_Code :: goint
  ge_Message :: string
  ge_Status :: string

record gemini_candidate =
  cand_Parts :: "string list"
  cand_FinishReason :: string

record gemini_response =
  gresp_Candidates :: "gemini_candidate list"
  gresp_Usage :: "usage_metadata option"
  gresp_ModelVersion :: string
  gresp_BlockReason :: "string option"
  gresp_Error :: "gemini_error option"

definition decode_usage_metadata :: "usage_metadata \<Rightarrow> (string \<times> json) list \<Rightarrow> usage_metadata option" where
  "decode_usage_metadata u ms =
     (case (decode_field as_int (um_PromptTokenCount u) (field_values ''promptTokenCount'' ms),
            decode_field as_int (um_CandidatesTokenCount u) (field_values ''candidatesTokenCount'' ms),
            decode_field as_int (um_ThoughtsTokenCount u) (field_values ''thoughtsTokenCount'' ms),
            decode_field as_int (um_TotalTokenCount u) (field_values ''totalTokenCount'' ms)) of
        (Some p, Some c, Some t, Some n) \<Rightarrow>
          Some \<lparr>um_PromptTokenCount = p, um_CandidatesTokenCount = c, um_ThoughtsTokenCount = t, um_TotalTokenCount = n\<rparr>
      | _ \<Rightarrow> None)"

definition decode_gemini_error :: "gemini_error \<Rightarrow> (string \<times> json) list \<Rightarrow> gemini_error option" where
  "decode_gemini_error e ms =
     (case (decode_field as_int (ge_Code e) (field_values ''code'' ms), decode_field as_string (ge_Message e) (field_values ''message'' ms),
            decode_field as_string (ge_Status e) (field_values ''status'' ms)) of
        (Some c, Some m, Some s) \<Rightarrow> Some \<lparr>ge_Code = c, ge_Message = m, ge_Status = s\<rparr> | _ \<Rightarrow> None)"

definition decode_text_part :: "json \<Rightarrow> string option" where
  "decode_text_part v = (case as_object v of None \<Rightarrow> None | Some ms \<Rightarrow> decode_field as_string [] (field_values ''text'' ms))"

definition decode_content :: "string list \<Rightarrow> (string \<times> json) list \<Rightarrow> string list option" where
  "decode_content parts ms =
     (case (decode_field as_string [] (field_values ''role'' ms), decode_slice decode_text_part (field_values ''parts'' ms)) of
        (Some _, Some ps) \<Rightarrow> Some (if field_values ''parts'' ms = [] then parts else ps) | _ \<Rightarrow> None)"

definition decode_candidate :: "json \<Rightarrow> gemini_candidate option" where
  "decode_candidate v = (case as_object v of
       None \<Rightarrow> None
     | Some ms \<Rightarrow>
         (case (decode_struct decode_content [] (field_values ''content'' ms),
                decode_field as_string [] (field_values ''finishReason'' ms), decode_field as_int 0 (field_values ''index'' ms)) of
            (Some ps, Some f, Some _) \<Rightarrow> Some \<lparr>cand_Parts = ps, cand_FinishReason = f\<rparr> | _ \<Rightarrow> None))"

definition decode_block_reason :: "string \<Rightarrow> (string \<times> json) list \<Rightarrow> string option" where
  "decode_block_reason r ms = decode_field as_string r (field_values ''blockReason'' ms)"

definition no_usage :: usage_metadata where
  "no_usage = \<lparr>um_PromptTokenCount = 0, um_CandidatesTokenCount = 0, um_ThoughtsTokenCount = 0, um_TotalTokenCount = 0\<rparr>"

definition no_gemini_error :: gemini_error where
  "no_gemini_error = \<lparr>ge_Code = 0, ge_Message = [], ge_Status = []\<rparr>"

definition decode_gemini_response :: "bytes \<Rightarrow> gemini_response option" where
  "decode_gemini_response body = (case json_parse body of
       None \<Rightarrow> None
     | Some v \<Rightarrow> (case as_object v of
         None \<Rightarrow> None
       | Some ms \<Rightarrow>
           (case (decode_slice decode_candidate (field_values ''candidates'' ms),
                  decode_struct_pointer decode_usage_metadata no_usage (field_values ''usageMetadata'' ms),
                  decode_field as_string [] (field_values ''modelVersion'' ms),
                  decode_struct_pointer decode_block_reason [] (field_values ''promptFeedback'' ms),
                  decode_struct_pointer decode_gemini_error no_gemini_error (field_values ''error'' ms)) of
              (Some cs, Some u, Some mv, Some br, Some e) \<Rightarrow>
                Some \<lparr>gresp_Candidates = cs, gresp_Usage = u, gresp_ModelVersion = mv, gresp_BlockReason = br, gresp_Error = e\<rparr>
            | _ \<Rightarrow> None)))"

definition gemini_toUsage :: "usage_metadata option \<Rightarrow> usage" where
  "gemini_toUsage m = (case m of
       None \<Rightarrow> zero_usage
     | Some u \<Rightarrow>
         (let completion = iadd (um_CandidatesTokenCount u) (um_ThoughtsTokenCount u)
          in \<lparr>PromptTokens = um_PromptTokenCount u, CompletionTokens = completion,
              TotalTokens = (if um_TotalTokenCount u = 0 then iadd (um_PromptTokenCount u) completion else um_TotalTokenCount u)\<rparr>))"

definition candidateText :: "gemini_candidate \<Rightarrow> string" where
  "candidateText c = (if length (cand_Parts c) = 1 then hd (cand_Parts c) else concat (cand_Parts c))"

definition mapFinishReason :: "string \<Rightarrow> string" where
  "mapFinishReason reason =
     (if reason = [] then []
      else if reason = ''MAX_TOKENS'' then ''length''
      else if reason \<in> {''SAFETY'', ''RECITATION'', ''BLOCKLIST'', ''PROHIBITED_CONTENT'', ''SPII'', ''IMAGE_SAFETY''} then ''content_filter''
      else if reason \<in> {''STOP'', ''UNEXPECTED_TOOL_CALL''} then ''stop''
      else ''stop'')"

definition responseModel :: "string \<Rightarrow> string \<Rightarrow> string" where
  "responseModel reported fallback = (if reported \<noteq> [] then reported else fallback)"

definition completion_finish :: "gemini_response \<Rightarrow> string" where
  "completion_finish r = (case gresp_Candidates r of
       c # _ \<Rightarrow> (let mapped = mapFinishReason (cand_FinishReason c) in if mapped \<noteq> [] then mapped else ''stop'')
     | [] \<Rightarrow> (case gresp_BlockReason r of Some b \<Rightarrow> if b \<noteq> [] then ''content_filter'' else ''stop'' | None \<Rightarrow> ''stop''))"

definition completion_text :: "gemini_response \<Rightarrow> string" where
  "completion_text r = (case gresp_Candidates r of c # _ \<Rightarrow> candidateText c | [] \<Rightarrow> [])"

definition translateCompletion :: "instant \<Rightarrow> bytes \<Rightarrow> string \<Rightarrow> string \<Rightarrow> err + bytes \<times> usage" where
  "translateCompletion now body cid fallbackModel = (case decode_gemini_response body of
       None \<Rightarrow> Inl (WrapErr ''decode generateContent response: '' (OtherErr ''json''))
     | Some r \<Rightarrow>
         (let u = gemini_toUsage (gresp_Usage r)
          in Inr (encode (completion_body cid (unix_seconds now) (responseModel (gresp_ModelVersion r) fallbackModel)
               (completion_text r) (completion_finish r) u), u)))"

definition parseErrorEnvelope :: "bytes \<Rightarrow> gemini_error option" where
  "parseErrorEnvelope body = (case json_parse body of
       None \<Rightarrow> None
     | Some v \<Rightarrow> (case as_object v of
         None \<Rightarrow> None
       | Some ms \<Rightarrow>
           (case decode_struct_pointer decode_gemini_error no_gemini_error (field_values ''error'' ms) of
              Some e \<Rightarrow> e | None \<Rightarrow> None)))"

definition classify :: "goint \<Rightarrow> bytes \<Rightarrow> gemini_error option \<Rightarrow> error_class" where
  "classify status body envelope =
     (case envelope of
        Some e \<Rightarrow>
          if ge_Status e = ''RESOURCE_EXHAUSTED'' then ErrClassRateLimited
          else if ge_Status e = ''UNAUTHENTICATED'' \<or> ge_Status e = ''PERMISSION_DENIED'' then ErrClassAuth
          else ClassFromStatusAndBody status body
      | None \<Rightarrow> ClassFromStatusAndBody status body)"

definition gemini_upstreamErrorMessage :: "bytes \<Rightarrow> gemini_error option \<Rightarrow> goint \<Rightarrow> string" where
  "gemini_upstreamErrorMessage body envelope status =
     (let m = (case envelope of Some e \<Rightarrow> ge_Message e | None \<Rightarrow> []); s = TrimSpace body
      in if m \<noteq> [] then m else if s \<noteq> [] then s else ''upstream returned status '' @ Itoa status)"

definition gemini_statusError :: "adapter \<Rightarrow> http_response \<Rightarrow> err" where
  "gemini_statusError p resp =
     (let body = fst (ReadAll_limit maxErrorBody (hresp_body resp) (hresp_fin resp)); envelope = parseErrorEnvelope body
      in ProviderError (ad_name p) (classify (hresp_status resp) body envelope) (hresp_status resp)
           (gemini_upstreamErrorMessage body envelope (hresp_status resp)) None)"

text \<open>\<^verbatim>\<open>newCompletionID\<close> of a random text.\<close>

definition newCompletionID :: "string \<Rightarrow> string" where
  "newCompletionID random = ''chatcmpl-'' @ map (\<lambda>c. if 65 \<le> byte c \<and> byte c \<le> 90 then char_of (byte c + 32) else c) random"

definition gemini_Chat :: "http_client \<Rightarrow> instant \<Rightarrow> string \<Rightarrow> adapter \<Rightarrow> chat_request \<Rightarrow> err + chat_response" where
  "gemini_Chat hc now random p req = (case gemini_post hc p req generateContent [] of
       Inl e \<Rightarrow> Inl e
     | Inr resp \<Rightarrow>
         if \<not> Is2xx (hresp_status resp) then Inl (gemini_statusError p resp)
         else (case ReadAll_limit (maxResponseBytes + 1) (hresp_body resp) (hresp_fin resp) of
             (body, Some e) \<Rightarrow> Inl (adapter_transportError p (hc_ctx hc) ''read upstream response'' e)
           | (body, None) \<Rightarrow>
               if maxResponseBytes < length body
               then Inl (ProviderError (ad_name p) ErrClassUpstream 0
                      (''upstream response exceeds '' @ Itoa (int maxResponseBytes) @ '' byte limit'') None)
               else case translateCompletion now body (newCompletionID random) (ReqModel req) of
                   Inl e \<Rightarrow> Inl (ProviderError (ad_name p) ErrClassUpstream (hresp_status resp)
                     ''upstream response is not a Gemini completion'' (Some e))
                 | Inr (translated, u) \<Rightarrow>
                     Inr \<lparr>RespModel = ReqModel req, RespProvider = ad_name p, RespBody = translated, RespUsage = u\<rparr>))"

section \<open>Streams\<close>

record gemini_stream =
  gs_provider :: string
  gs_id :: string
  gs_created :: goint
  gs_model :: string
  gs_sawFinish :: bool
  gs_sentRole :: bool

definition gemini_newStream :: "string \<Rightarrow> string \<Rightarrow> instant \<Rightarrow> string \<Rightarrow> gemini_stream" where
  "gemini_newStream provider model now random =
     \<lparr>gs_provider = provider, gs_id = newCompletionID random, gs_created = unix_seconds now, gs_model = model,
      gs_sawFinish = False, gs_sentRole = False\<rparr>"

definition translateEvent :: "gemini_stream \<Rightarrow> bytes \<Rightarrow> gemini_stream \<times> (err + stream_chunk)" where
  "translateEvent s data = (case decode_gemini_response data of
       None \<Rightarrow> (s, Inl (ProviderError (gs_provider s) ErrClassUpstream 0 ''upstream sent a stream event that is not JSON''
                     (Some (WrapErr ''decode stream event: '' (OtherErr ''json'')))))
     | Some r \<Rightarrow>
         (case gresp_Error r of
            Some e \<Rightarrow> (s, Inl (ProviderError (gs_provider s) (classify (ge_Code e) [] (Some e)) (ge_Code e) (ge_Message e) None))
          | None \<Rightarrow>
              (let role = (if gs_sentRole s then [] else ''assistant'');
                   mapped = (case gresp_Candidates r of c # _ \<Rightarrow> mapFinishReason (cand_FinishReason c) | [] \<Rightarrow> []);
                   s' = s\<lparr>gs_sentRole := True, gs_sawFinish := (gs_sawFinish s \<or> mapped \<noteq> [])\<rparr>;
                   u = map_option (\<lambda>m. gemini_toUsage (Some m)) (gresp_Usage r)
               in (s', Inr (empty_chunk\<lparr>ChunkData := encode (chunk_body (gs_id s) (gs_created s) (responseModel (gresp_ModelVersion r) (gs_model s))
                     (omit_empty ''role'' role @ [(''content'', JStr (completion_text r))])
                     (if mapped \<noteq> [] then Some mapped else None) u), ChunkUsage := u\<rparr>)))))"

definition gemini_step :: "gemini_stream \<Rightarrow> sse_event \<Rightarrow> gemini_stream \<times> event_step" where
  "gemini_step s ev =
     (if ev_Keepalive ev then (s, StepChunk (empty_chunk\<lparr>Keepalive := True\<rparr>))
      else if \<not> HasData ev then (s, StepSkip)
      else case translateEvent s (ev_Data ev) of
        (s', Inl e) \<Rightarrow> (s', StepFail e)
      | (s', Inr c) \<Rightarrow> (s', StepChunk c))"

definition gemini_recvError :: "err option \<Rightarrow> gemini_stream \<Rightarrow> err \<Rightarrow> bool \<Rightarrow> err" where
  "gemini_recvError ctxErr s e userClosed =
     (if errors_Is e IoEOF then (if gs_sawFinish s then IoEOF else ErrStreamTruncated)
      else if errors_Is e ErrSSEEventTooLarge
      then ProviderError (gs_provider s) ErrClassUpstream 0
             (''upstream SSE event exceeds '' @ Itoa MaxSSEEventBytes @ '' byte limit'') (Some e)
      else if errors_Is e ContextDeadlineExceeded \<or> ctxErr = Some ContextDeadlineExceeded
      then ProviderError (gs_provider s) ErrClassTimeout 0 ''stream read timed out'' (Some e)
      else if errors_Is e ContextCanceled \<or> ctxErr = Some ContextCanceled
      then ProviderError (gs_provider s) ErrClassCanceled 0 ''stream canceled'' (Some e)
      else if userClosed then ErrStreamTruncated
      else ProviderError (gs_provider s) ErrClassUpstream 0 ''stream read failed'' (Some e))"

definition gemini_Recv :: "err option \<Rightarrow> err option \<Rightarrow> gemini_stream event_reader \<Rightarrow> (err + stream_chunk) \<times> gemini_stream event_reader" where
  "gemini_Recv ctxErr = event_Recv gemini_step (gemini_recvError ctxErr)"

definition gemini_ChatStream :: "http_client \<Rightarrow> instant \<Rightarrow> string \<Rightarrow> adapter \<Rightarrow> chat_request \<Rightarrow> err + gemini_stream event_reader" where
  "gemini_ChatStream hc now random p req = (case gemini_post hc p req streamGenerateContent sseQuery of
       Inl e \<Rightarrow> Inl e
     | Inr resp \<Rightarrow>
         if \<not> Is2xx (hresp_status resp) then Inl (gemini_statusError p resp)
         else Inr (event_open (hresp_body resp) (hresp_fin resp) (gemini_newStream (ad_name p) (ReqModel req) now random)))"

section \<open>The marker\<close>

definition finishes :: "sse_event \<Rightarrow> bool" where
  "finishes ev \<longleftrightarrow> \<not> ev_Keepalive ev \<and> HasData ev \<and>
     (case decode_gemini_response (ev_Data ev) of
        None \<Rightarrow> False
      | Some r \<Rightarrow> gresp_Error r = None \<and> (case gresp_Candidates r of c # _ \<Rightarrow> cand_FinishReason c \<noteq> [] | [] \<Rightarrow> False))"

text \<open>An event the reader cannot pass: no JSON of the right shape, or an error sent in the stream.\<close>

definition breaks :: "sse_event \<Rightarrow> bool" where
  "breaks ev \<longleftrightarrow> \<not> ev_Keepalive ev \<and> HasData ev \<and>
     (case decode_gemini_response (ev_Data ev) of None \<Rightarrow> True | Some r \<Rightarrow> gresp_Error r \<noteq> None)"

lemma mapFinishReason_Nil [simp]: "mapFinishReason r = [] \<longleftrightarrow> r = []"
  by (simp add: mapFinishReason_def)

lemma gemini_step_saw: "gemini_step s ev = (s', out) \<Longrightarrow> gs_sawFinish s' = (gs_sawFinish s \<or> finishes ev)"
  by (auto simp: gemini_step_def translateEvent_def finishes_def Let_def split: if_splits option.splits list.splits prod.splits)

lemma gemini_step_fail: "gemini_step s ev = (s', StepFail x) \<Longrightarrow> breaks ev \<and> x \<noteq> IoEOF"
  by (auto simp: gemini_step_def translateEvent_def breaks_def Let_def split: if_splits option.splits list.splits prod.splits)

lemma gemini_step_not_whole: "gemini_step s ev \<noteq> (s', StepWhole)"
  by (auto simp: gemini_step_def translateEvent_def Let_def split: if_splits option.splits prod.splits sum.splits)

interpretation gemini: answer_protocol gemini_step "gemini_recvError ctxErr" gs_sawFinish finishes for ctxErr
proof unfold_locales
  show "gemini_recvError ctxErr s e b = IoEOF \<Longrightarrow> gs_sawFinish s" for s e b
    by (auto simp: gemini_recvError_def split: if_splits)
  show "errors_Is e IoEOF \<Longrightarrow> \<not> gs_sawFinish s \<Longrightarrow> gemini_recvError ctxErr s e b = ErrStreamTruncated" for s e b
    by (simp add: gemini_recvError_def)
  show "gemini_step s ev = (s', StepFail x) \<Longrightarrow> x \<noteq> IoEOF" for s ev s' x
    using gemini_step_fail by blast
  show "gemini_step s ev = (s', StepWhole) \<Longrightarrow> gs_sawFinish s \<or> finishes ev" for s ev s'
    using gemini_step_not_whole by blast
  show "gemini_step s ev = (s', out) \<Longrightarrow> gs_sawFinish s' \<Longrightarrow> gs_sawFinish s \<or> finishes ev" for s ev s' out
    using gemini_step_saw by blast
qed

text \<open>(C9) A Gemini stream counts as whole only after a finish reason. If reading a stream to its end gives
  \<^verbatim>\<open>io.EOF\<close>, some event of the body carried one; and a body without one whose events can all be passed is reported as
  truncated when it ends.\<close>

theorem gemini_whole_only_after_finish:
  assumes "gemini_ChatStream hc now random p req = Inr r" "read_all (er_body r) (er_fin r) = (evs, fin)"
  shows "(snd (event_drain gemini_step (gemini_recvError ctxErr) r) = IoEOF \<longrightarrow> (\<exists>ev \<in> set evs. finishes ev)) \<and>
    (fin = IoEOF \<and> (\<forall>ev \<in> set evs. \<not> finishes ev \<and> \<not> breaks ev) \<longrightarrow>
       snd (event_drain gemini_step (gemini_recvError ctxErr) r) = ErrStreamTruncated)"
proof -
  obtain body f where r: "r = event_open body f (gemini_newStream (ad_name p) (ReqModel req) now random)"
    using assms(1) by (auto simp: gemini_ChatStream_def split: sum.splits if_splits)
  have open_ok: "read_all body f = (evs, fin)" "\<not> gs_sawFinish (gemini_newStream (ad_name p) (ReqModel req) now random)"
    using assms(2) by (simp_all add: r event_open_def gemini_newStream_def)
  show ?thesis
    using gemini.drain_needs_marker [OF open_ok] gemini.drain_severed [OF open_ok] gemini_step_fail
    unfolding r by fastforce
qed

section \<open>Refused prompts\<close>

text \<open>An event that says the prompt was refused, as Gemini says it: a block reason and no candidates.\<close>

definition refuses :: "sse_event \<Rightarrow> bool" where
  "refuses ev \<longleftrightarrow> \<not> ev_Keepalive ev \<and> HasData ev \<and>
     (case decode_gemini_response (ev_Data ev) of
        None \<Rightarrow> False
      | Some r \<Rightarrow> gresp_Error r = None \<and> gresp_Candidates r = [] \<and> (case gresp_BlockReason r of None \<Rightarrow> False | Some b \<Rightarrow> b \<noteq> []))"

lemma refuses_neither: "refuses ev \<Longrightarrow> \<not> finishes ev \<and> \<not> breaks ev"
  by (auto simp: refuses_def finishes_def breaks_def split: option.splits)

text \<open>(C37) A prompt Gemini refuses is told apart from an answer in a buffered call and not in a stream. A stream whose
  one event is the refusal is reported as truncated, as if the connection had been cut, while the same answer to a
  buffered call is a finished one with the reason \<^verbatim>\<open>content_filter\<close>.\<close>

theorem refused_prompt_reads_as_truncated:
  assumes "gemini_ChatStream hc now random p req = Inr r" "read_all (er_body r) (er_fin r) = ([ev], IoEOF)" "refuses ev"
  shows "snd (event_drain gemini_step (gemini_recvError ctxErr) r) = ErrStreamTruncated \<and>
    (\<exists>g. decode_gemini_response (ev_Data ev) = Some g \<and> completion_finish g = ''content_filter'')"
proof -
  obtain body f where r: "r = event_open body f (gemini_newStream (ad_name p) (ReqModel req) now random)"
    using assms(1) by (auto simp: gemini_ChatStream_def split: sum.splits if_splits)
  have open_ok: "read_all body f = ([ev], IoEOF)" "\<not> gs_sawFinish (gemini_newStream (ad_name p) (ReqModel req) now random)"
    using assms(2) by (simp_all add: r event_open_def gemini_newStream_def)
  have "snd (event_drain gemini_step (gemini_recvError ctxErr) r) = ErrStreamTruncated"
    using gemini.drain_severed [OF open_ok] refuses_neither [OF assms(3)] gemini_step_fail [of _ ev] unfolding r by auto
  moreover have "\<exists>g. decode_gemini_response (ev_Data ev) = Some g \<and> completion_finish g = ''content_filter''"
    using assms(3) by (auto simp: refuses_def completion_finish_def split: option.splits)
  ultimately show ?thesis ..
qed

section \<open>Answers are kept\<close>

lemma decode_slice_valid:
  assumes "decode_slice f vs = Some xs" "\<And>v. v \<in> set vs \<Longrightarrow> fits k v" "x \<in> set xs"
  shows "\<exists>v. fits (k - 1) v \<and> f v = Some x"
proof -
  obtain yss where y: "those (map (\<lambda>v. case v of JNull \<Rightarrow> Some [] | JArr ws \<Rightarrow> those (map f ws) | _ \<Rightarrow> None) vs) = Some yss"
    and xs: "xs = (if yss = [] then [] else last yss)"
    using assms(1) by (auto simp: decode_slice_def split: option.splits)
  have "xs \<in> set yss" "yss \<noteq> []" using xs assms(3) by (auto split: if_splits)
  from those_all [OF y this(1)] obtain v where v: "v \<in> set vs"
    "(case v of JNull \<Rightarrow> Some [] | JArr ws \<Rightarrow> those (map f ws) | _ \<Rightarrow> None) = Some xs" by auto
  then obtain ws where w: "v = JArr ws" "those (map f ws) = Some xs" using assms(3) by (auto split: json.splits)
  from those_all [OF w(2) assms(3)] obtain u where u: "u \<in> set ws" "f u = Some x" by auto
  have "fits_elems (k - 1) ws" using assms(2) [OF v(1)] w(1) by simp
  then have "fits (k - 1) u" using u(1) by (induction ws) auto
  with u(2) show ?thesis by blast
qed

lemma decode_text_part_valid: "decode_text_part v = Some t \<Longrightarrow> fits k v \<Longrightarrow> valid_utf8 t"
  by (auto simp: decode_text_part_def as_object_def field_values_def [of _ "[]"] decode_field_def [of _ _ "[]"]
      intro: object_string_valid split: option.splits json.splits)

lemma decode_candidate_valid:
  assumes "decode_candidate v = Some c" "fits k v" "t \<in> set (cand_Parts c)"
  shows "valid_utf8 t"
proof -
  obtain ms where ms: "as_object v = Some ms" "decode_struct decode_content [] (field_values ''content'' ms) = Some (cand_Parts c)"
    using assms(1) by (auto simp: decode_candidate_def split: option.splits)
  have fm: "fits_members (k - 1) ms" using ms(1) assms(2) by (auto simp: as_object_def split: json.splits)
  have "\<forall>t \<in> set (cand_Parts c). valid_utf8 t"
    using ms(2)
  proof (rule decode_struct_cases [where P = "\<lambda>ps. \<forall>t \<in> set ps. valid_utf8 t"])
    show "\<And>v. v \<in> set (field_values ''content'' ms) \<Longrightarrow> fits (k - 1) v" by (rule field_values_fit [OF fm])
    show "\<forall>t \<in> set z. valid_utf8 t" if "decode_content y m = Some z" "\<forall>t \<in> set y. valid_utf8 t" "fits_members (k - 1 - 1) m" for y z m
      using that decode_slice_valid [of decode_text_part "field_values ''parts'' m"] field_values_fit [OF that(3)]
      by (auto simp: decode_content_def split: option.splits if_splits) (metis decode_text_part_valid)
  qed simp
  then show ?thesis using assms(3) by blast
qed

lemma completion_text_valid:
  assumes "decode_gemini_response body = Some g"
  shows "valid_utf8 (completion_text g)" "valid_utf8 (gresp_ModelVersion g)"
proof -
  obtain v ms where v: "json_parse body = Some v" "as_object v = Some ms"
    and d: "decode_slice decode_candidate (field_values ''candidates'' ms) = Some (gresp_Candidates g)"
      "decode_field as_string [] (field_values ''modelVersion'' ms) = Some (gresp_ModelVersion g)"
    using assms by (auto simp: decode_gemini_response_def split: option.splits)
  note fm = as_object_fits [OF v]
  show "valid_utf8 (gresp_ModelVersion g)" by (rule object_string_valid [OF fm d(2)]) simp
  have parts: "valid_utf8 t" if c: "c \<in> set (gresp_Candidates g)" and t: "t \<in> set (cand_Parts c)" for c t
  proof -
    obtain v where "fits (max_depth - 1 - 1) v" "decode_candidate v = Some c"
      using decode_slice_valid [OF d(1) _ c] field_values_fit [OF fm] by blast
    from decode_candidate_valid [OF this(2,1) t] show ?thesis .
  qed
  have cat: "(\<And>t. t \<in> set ts \<Longrightarrow> valid_utf8 t) \<Longrightarrow> valid_utf8 (concat ts)" for ts
    by (induction ts) (auto intro: valid_utf8_append)
  show "valid_utf8 (completion_text g)"
  proof (cases "gresp_Candidates g")
    case (Cons c cs)
    then have "valid_utf8 (concat (cand_Parts c))" using parts by (intro cat) auto
    moreover have "candidateText c = concat (cand_Parts c)" by (auto simp: candidateText_def length_Suc_conv)
    ultimately show ?thesis by (simp add: completion_text_def Cons)
  qed (simp add: completion_text_def)
qed

lemma lower_valid: "list_all (\<lambda>c. byte c < 128) random \<Longrightarrow> valid_utf8 (newCompletionID random)"
  by (rule ascii_valid) (auto simp: newCompletionID_def list_all_iff)

text \<open>(C22) A buffered Gemini answer is kept. A successful call gives the client the text of all parts of the first
  candidate in order, and is billed for the tokens the model spent thinking as well as for those it wrote, with the
  total the upstream reported where it reported one.\<close>

theorem gemini_answer_is_kept:
  assumes "gemini_Chat hc now random p req = Inr resp" "valid_utf8 (ReqModel req)" "list_all (\<lambda>c. byte c < 128) random"
  shows "\<exists>hr g. gemini_post hc p req generateContent [] = Inr hr \<and> decode_gemini_response (hresp_body hr) = Some g \<and>
    answer_text (RespBody resp) = (case gresp_Candidates g of [] \<Rightarrow> [] | c # _ \<Rightarrow> concat (cand_Parts c)) \<and>
    (\<forall>u. gresp_Usage g = Some u \<longrightarrow> PromptTokens (RespUsage resp) = um_PromptTokenCount u \<and>
       CompletionTokens (RespUsage resp) = iadd (um_CandidatesTokenCount u) (um_ThoughtsTokenCount u) \<and>
       (um_TotalTokenCount u \<noteq> 0 \<longrightarrow> TotalTokens (RespUsage resp) = um_TotalTokenCount u))"
proof -
  obtain hr where hr: "gemini_post hc p req generateContent [] = Inr hr" using assms(1) by (auto simp: gemini_Chat_def split: sum.splits)
  obtain body where b: "ReadAll_limit (maxResponseBytes + 1) (hresp_body hr) (hresp_fin hr) = (body, None)" "length body \<le> maxResponseBytes"
    and tr: "translateCompletion now body (newCompletionID random) (ReqModel req) = Inr (RespBody resp, RespUsage resp)"
    using assms(1) hr by (auto simp: gemini_Chat_def not_less split: if_splits prod.splits option.splits sum.splits)
  have body: "body = hresp_body hr" using b by (auto simp: ReadAll_limit_def split: if_splits)
  obtain g where g: "decode_gemini_response body = Some g" "RespUsage resp = gemini_toUsage (gresp_Usage g)"
    "RespBody resp = encode (completion_body (newCompletionID random) (unix_seconds now) (responseModel (gresp_ModelVersion g) (ReqModel req))
       (completion_text g) (completion_finish g) (gemini_toUsage (gresp_Usage g)))"
    using tr by (auto simp: translateCompletion_def Let_def split: option.splits)
  have "answer_text (RespBody resp) = completion_text g"
    unfolding g(3) using completion_text_valid [OF g(1)] assms(2) lower_valid [OF assms(3)]
    by (intro completion_body_parses) (auto simp: responseModel_def completion_finish_def mapFinishReason_def Let_def split: list.splits option.splits)
  also have "\<dots> = (case gresp_Candidates g of [] \<Rightarrow> [] | c # _ \<Rightarrow> concat (cand_Parts c))"
    by (auto simp: completion_text_def candidateText_def length_Suc_conv split: list.splits)
  finally show ?thesis using hr g(1,2) body by (auto simp: gemini_toUsage_def Let_def)
qed

section \<open>Witnesses\<close>

lemma demo_gemini_opens:
  "gemini_ChatStream (answering body) now random demo_adapter demo_ask = Inr (event_open body IoEOF (gemini_newStream ''p'' ''m'' now random))"
  using demo_ask_decodes
  by (auto simp: gemini_ChatStream_def gemini_post_def gemini_translateRequest_def demo_exchange Let_def split: prod.splits)

definition demo_part :: bytes where
  "demo_part = ''{\"candidates\":[{\"content\":{\"parts\":[{\"text\":\"hi\"}]}}]}''"

definition demo_refusal :: bytes where "demo_refusal = ''{\"promptFeedback\":{\"blockReason\":\"SAFETY\"}}''"

lemma demo_gemini_frameable: "frameable demo_part" "frameable demo_refusal" by code_simp+

lemma demo_part_decodes:
  "map_option (\<lambda>g. (gresp_Error g, map (\<lambda>c. (cand_Parts c, cand_FinishReason c)) (gresp_Candidates g))) (decode_gemini_response demo_part) =
     Some (None, [([''hi''], [])])"
  by code_simp

lemma demo_refusal_refuses: "refuses (data_event demo_refusal)" by code_simp

text \<open>The body ends before the candidate finished.\<close>

theorem gemini_whole_only_after_finish_witness:
  "snd (event_drain gemini_step (gemini_recvError None) (event_open (wire [Frame demo_part]) IoEOF (gemini_newStream ''p'' ''m'' 0 ''r'')))
     = ErrStreamTruncated"
proof -
  have "\<not> finishes (data_event demo_part)" "\<not> breaks (data_event demo_part)"
    using demo_part_decodes by (auto simp: finishes_def breaks_def data_event_def no_event_def)
  then show ?thesis
    using gemini_whole_only_after_finish [OF demo_gemini_opens, of "wire [Frame demo_part]" 0 "''r''" "[data_event demo_part]" IoEOF None]
      read_frames [of "[demo_part]" IoEOF] demo_gemini_frameable by (simp add: event_open_def)
qed

theorem refused_prompt_reads_as_truncated_witness:
  "snd (event_drain gemini_step (gemini_recvError None) (event_open (wire [Frame demo_refusal]) IoEOF (gemini_newStream ''p'' ''m'' 0 ''r'')))
     = ErrStreamTruncated"
  using refused_prompt_reads_as_truncated [OF demo_gemini_opens, of "wire [Frame demo_refusal]" 0 "''r''" "data_event demo_refusal" None]
    read_frames [of "[demo_refusal]" IoEOF] demo_gemini_frameable demo_refusal_refuses by (simp add: event_open_def)

theorem gemini_answer_is_kept_witness:
  "\<exists>resp. gemini_Chat (answering demo_part) 0 ''r'' demo_adapter demo_ask = Inr resp \<and> answer_text (RespBody resp) = ''hi''"
proof -
  obtain g where g: "decode_gemini_response demo_part = Some g" using demo_part_decodes by auto
  have post: "gemini_post (answering demo_part) demo_adapter demo_ask generateContent [] = Inr \<lparr>hresp_status = 200, hresp_body = demo_part, hresp_fin = IoEOF\<rparr>"
    using demo_ask_decodes by (auto simp: gemini_post_def gemini_translateRequest_def demo_exchange Let_def split: prod.splits)
  have "length demo_part < 100" by (simp add: demo_part_def)
  with post g obtain resp where r: "gemini_Chat (answering demo_part) 0 ''r'' demo_adapter demo_ask = Inr resp"
    by (auto simp: gemini_Chat_def ReadAll_limit_def maxResponseBytes_def translateCompletion_def Is2xx_def Let_def)
  have "valid_utf8 (ReqModel demo_ask)" "list_all (\<lambda>c. byte c < 128) ''r''" by code_simp+
  from gemini_answer_is_kept [OF r this] post g demo_part_decodes r show ?thesis by (auto split: list.splits)
qed

end
