(* ===== verification/Embedder.thy ===== *)
theory Embedder
  imports Answer_Text Cache_Lookup "HOL-Library.Sublist"
begin

text \<open>
  The embedding client of the semantic tier (\<^verbatim>\<open>src/internal/cache/embed_gemini.go\<close>): one batch request, its answer decoded
  only when complete, and failures whose text has the API key taken out. The HTTP client is an argument.
\<close>

section \<open>Single precision\<close>

text \<open>A vector holds \<^verbatim>\<open>float32\<close> values; decoding rounds the number text once, and a number out of range is an error.\<close>

definition rnd32 :: "rat \<Rightarrow> rat" where
  "rnd32 x = (if x = 0 then 0
     else let e = max (expo2 \<bar>x\<bar> - 23) (- 149) in of_int (rne (x / 2 powi e)) * 2 powi e)"

definition as_float32 :: "json \<Rightarrow> rat option" where
  "as_float32 v = (case v of
       JNum t \<Rightarrow> (let x = rnd32 (number_value t) in if \<bar>x\<bar> < 2 ^ 128 then Some x else None)
     | JNull \<Rightarrow> Some 0
     | _ \<Rightarrow> None)"

section \<open>The client\<close>

definition DefaultEmbedBaseURL :: string where "DefaultEmbedBaseURL = ''https://generativelanguage.googleapis.com/v1beta''"
definition DefaultEmbedModel :: string where "DefaultEmbedModel = ''gemini-embedding-001''"
definition DefaultEmbedDimensions :: goint where "DefaultEmbedDimensions = 3072"
definition legacyEmbedDimensions :: goint where "legacyEmbedDimensions = 768"
definition embedAuthHeader :: string where "embedAuthHeader = ''x-goog-api-key''"
definition embedModelPrefix :: string where "embedModelPrefix = ''models/''"
definition embedMethod :: string where "embedMethod = '':batchEmbedContents''"
definition maxEmbedErrorBody :: nat where "maxEmbedErrorBody = 8192"
definition maxEmbedResponseBytes :: nat where "maxEmbedResponseBytes = 33554432"
definition redactedKey :: string where "redactedKey = ''[redacted]''"
definition ErrEmbedFailed :: string where "ErrEmbedFailed = ''embed failed''"

definition embedModelDimensions :: "(string \<times> goint) list" where
  "embedModelDimensions = [(''gemini-embedding-001'', DefaultEmbedDimensions), (''text-embedding-004'', legacyEmbedDimensions),
     (''embedding-001'', legacyEmbedDimensions)]"

record gemini_embedder =
  em_baseURL :: string
  em_apiKey :: string
  em_model :: string
  em_qualified :: string

definition NewGeminiEmbedder :: "string \<Rightarrow> string \<Rightarrow> string \<Rightarrow> gemini_embedder" where
  "NewGeminiEmbedder baseURL apiKey model =
     (let bare = TrimPrefix (if model = [] then DefaultEmbedModel else model) embedModelPrefix
      in \<lparr>em_baseURL = TrimRight_slash (if baseURL = [] then DefaultEmbedBaseURL else baseURL), em_apiKey = apiKey,
          em_model = bare, em_qualified = embedModelPrefix @ bare\<rparr>)"

definition Dimensions :: "gemini_embedder \<Rightarrow> goint" where
  "Dimensions g = (case map_of embedModelDimensions (em_model g) of Some n \<Rightarrow> n | None \<Rightarrow> 0)"

definition embed_request :: "gemini_embedder \<Rightarrow> string list \<Rightarrow> json" where
  "embed_request g texts = JObj [(''requests'', JArr (map (\<lambda>text.
     JObj [(''model'', JStr (em_qualified g)), (''content'', JObj [(''parts'', JArr [JObj [(''text'', JStr text)]])])]) texts))]"

definition embed_endpoint :: "gemini_embedder \<Rightarrow> string" where
  "embed_endpoint g = em_baseURL g @ ''/'' @ embedModelPrefix @ PathEscape (em_model g) @ embedMethod"

text \<open>\<^verbatim>\<open>strings.ReplaceAll\<close> for a text that is not empty: leftmost matches that do not overlap.\<close>

function ReplaceAll :: "string \<Rightarrow> string \<Rightarrow> string \<Rightarrow> string" where
  "ReplaceAll old new s =
     (case s of
        [] \<Rightarrow> []
      | c # r \<Rightarrow> if old \<noteq> [] \<and> HasPrefix s old then new @ ReplaceAll old new (drop (length old) s) else c # ReplaceAll old new r)"
  by pat_completeness auto
termination
  by (relation "measure (\<lambda>(old, new, s). length s)") auto

declare ReplaceAll.simps [simp del]

definition redact :: "gemini_embedder \<Rightarrow> string \<Rightarrow> string" where
  "redact g s = (if em_apiKey g = [] then s else ReplaceAll (em_apiKey g) redactedKey s)"

definition embed_statusError :: "gemini_embedder \<Rightarrow> http_response \<Rightarrow> err" where
  "embed_statusError g resp =
     (let body = fst (ReadAll_limit maxEmbedErrorBody (hresp_body resp) (hresp_fin resp));
          detail = redact g (TrimSpace body);
          said = ErrEmbedFailed @ '': upstream returned status '' @ Itoa (hresp_status resp)
      in OtherErr (if detail = [] then said else said @ '': '' @ detail))"

definition decode_values :: "json \<Rightarrow> vector option" where
  "decode_values v = (case as_object v of
       None \<Rightarrow> None
     | Some ms \<Rightarrow> decode_slice as_float32 (field_values ''values'' ms))"

definition decode_embed_response :: "bytes \<Rightarrow> vector list option" where
  "decode_embed_response raw = (case json_parse raw of
       None \<Rightarrow> None
     | Some v \<Rightarrow> (case as_object v of
         None \<Rightarrow> None
       | Some ms \<Rightarrow> decode_slice decode_values (field_values ''embeddings'' ms)))"

definition empty_at :: "vector list \<Rightarrow> nat" where
  "empty_at vs = length (takeWhile (\<lambda>v. v \<noteq> []) vs)"

definition embed_decode :: "bytes \<Rightarrow> err \<Rightarrow> nat \<Rightarrow> err + vector list" where
  "embed_decode body fin want = (case ReadAll_limit (maxEmbedResponseBytes + 1) body fin of
       (raw, Some e) \<Rightarrow> Inl (WrapErr (ErrEmbedFailed @ '': read response: '') e)
     | (raw, None) \<Rightarrow>
         if maxEmbedResponseBytes < length raw
         then Inl (OtherErr (ErrEmbedFailed @ '': response exceeds '' @ Itoa (int maxEmbedResponseBytes) @ '' byte limit''))
         else case decode_embed_response raw of
             None \<Rightarrow> Inl (WrapErr (ErrEmbedFailed @ '': response is not a batchEmbedContents body: '') (OtherErr ''json''))
           | Some vs \<Rightarrow>
               if length vs \<noteq> want
               then Inl (OtherErr (ErrEmbedFailed @ '': upstream returned '' @ FormatUint (length vs) @ '' embeddings for ''
                      @ FormatUint want @ '' inputs''))
               else if [] \<in> set vs
               then Inl (OtherErr (ErrEmbedFailed @ '': upstream returned an empty vector at index '' @ FormatUint (empty_at vs)))
               else Inr vs)"

definition Embed :: "http_client \<Rightarrow> gemini_embedder \<Rightarrow> string list \<Rightarrow> err + vector list" where
  "Embed hc g texts =
     (if texts = [] then Inr []
      else let url = embed_endpoint g;
               headers = header_Set embedAuthHeader (em_apiKey g) (header_Set ''Content-Type'' ''application/json'' [])
        in case hc_build hc url of
             Some e \<Rightarrow> Inl (WrapErr (ErrEmbedFailed @ '': build request: '') e)
           | None \<Rightarrow>
               (case hc_do hc \<lparr>hreq_url = url, hreq_headers = headers, hreq_body = encode (embed_request g texts)\<rparr> of
                  Inl e \<Rightarrow> Inl (WrapErr (ErrEmbedFailed @ '': call upstream: '') e)
                | Inr resp \<Rightarrow>
                    if hresp_status resp < 200 \<or> 300 \<le> hresp_status resp then Inl (embed_statusError g resp)
                    else embed_decode (hresp_body resp) (hresp_fin resp) (length texts)))"

text \<open>The embedder the lookup calls, with one text at a time.\<close>

definition lookup_embedder :: "http_client \<Rightarrow> gemini_embedder \<Rightarrow> embedder" where
  "lookup_embedder hc g text = Embed hc g [text]"

section \<open>A batch is whole or refused\<close>

text \<open>The texts a batch request asks for, as its reader finds them.\<close>

definition asked_texts :: "bytes \<Rightarrow> string list" where
  "asked_texts body = (case json_parse body of
       Some v \<Rightarrow> (case member ''requests'' v of
           JArr items \<Rightarrow> map (\<lambda>i. case member ''parts'' (member ''content'' i) of JArr (p # _) \<Rightarrow> text_of (member ''text'' p) | _ \<Rightarrow> []) items
         | _ \<Rightarrow> [])
     | None \<Rightarrow> [])"

lemma fits_strings:
  assumes "\<And>t. t \<in> set ts \<Longrightarrow> valid_utf8 t" "valid_utf8 m"
  shows "fits_elems (Suc (Suc (Suc (Suc k)))) (map (\<lambda>t. JObj [(''model'', JStr m), (''content'', JObj [(''parts'', JArr [JObj [(''text'', JStr t)]])])]) ts)"
  using assms by (induction ts) simp_all

lemma asked_texts_request:
  assumes "\<And>t. t \<in> set texts \<Longrightarrow> valid_utf8 t" "valid_utf8 (em_qualified g)"
  shows "asked_texts (encode (embed_request g texts)) = texts"
proof -
  have "fits max_depth (embed_request g texts)"
    unfolding embed_request_def using fits_strings [OF assms] by (subst max_depth_deep) simp
  from json_parse_encode [OF this] show ?thesis
    unfolding asked_texts_def by (simp add: embed_request_def member_def text_of_def comp_def del: encode.simps)
qed

text \<open>(C38) A batch of embeddings is whole or it is refused. When embedding succeeds the upstream was asked for exactly the
  given texts in their order, and there is one vector per text, none of them empty, in the order of the answer; so no
  vector is ever paired with another text.\<close>

theorem embeddings_match_their_texts:
  assumes "Embed hc g texts = Inr vs" "\<And>t. t \<in> set texts \<Longrightarrow> valid_utf8 t" "valid_utf8 (em_qualified g)"
  shows "length vs = length texts \<and> [] \<notin> set vs \<and>
    (texts \<noteq> [] \<longrightarrow> (\<exists>req resp. hc_do hc req = Inr resp \<and> asked_texts (hreq_body req) = texts \<and>
       200 \<le> hresp_status resp \<and> hresp_status resp < 300 \<and> decode_embed_response (hresp_body resp) = Some vs))"
proof (cases "texts = []")
  case True
  then show ?thesis using assms(1) by (simp add: Embed_def)
next
  case False
  let ?req = "\<lparr>hreq_url = embed_endpoint g,
    hreq_headers = header_Set embedAuthHeader (em_apiKey g) (header_Set ''Content-Type'' ''application/json'' []),
    hreq_body = encode (embed_request g texts)\<rparr>"
  obtain resp where resp: "hc_do hc ?req = Inr resp" "200 \<le> hresp_status resp" "hresp_status resp < 300"
    "embed_decode (hresp_body resp) (hresp_fin resp) (length texts) = Inr vs"
    using assms(1) False by (auto simp: Embed_def Let_def split: option.splits sum.splits if_splits)
  then obtain raw where raw: "ReadAll_limit (maxEmbedResponseBytes + 1) (hresp_body resp) (hresp_fin resp) = (raw, None)"
    "length raw \<le> maxEmbedResponseBytes" "decode_embed_response raw = Some vs" "length vs = length texts" "[] \<notin> set vs"
    by (auto simp: embed_decode_def not_less split: prod.splits option.splits if_splits)
  have "raw = hresp_body resp" using raw(1,2) by (auto simp: ReadAll_limit_def split: if_splits)
  then show ?thesis using raw resp asked_texts_request [OF assms(2,3)] by (metis http_request.select_convs(3))
qed

section \<open>The key stays out of the text\<close>

lemma sublist_split:
  assumes "k \<noteq> []" "x \<notin> set k"
  shows "sublist k (a @ x # b) \<longleftrightarrow> sublist k a \<or> sublist k b"
proof
  assume "sublist k (a @ x # b)"
  then obtain p s where e: "a @ x # b = p @ k @ s" by (auto simp: sublist_def)
  show "sublist k a \<or> sublist k b"
  proof (cases "length p + length k \<le> length a")
    case True
    then have "take (length p + length k) a = p @ k" using arg_cong [OF e, of "take (length p + length k)"] by simp
    then have "a = p @ k @ drop (length p + length k) a" by (metis append.assoc append_take_drop_id)
    then show ?thesis by (metis sublist_appendI)
  next
    case False
    have "length a < length p"
    proof (rule ccontr)
      assume "\<not> length a < length p"
      then have "(p @ k @ s) ! length a \<in> set k" using False by (auto simp: nth_append)
      then show False using assms(2) by (metis e nth_append_length)
    qed
    then have "b = drop (Suc (length a)) (a @ x # b)" "length a < length p" by simp_all
    then have "b = drop (Suc (length a)) p @ k @ s" using e by simp
    then show ?thesis by (metis sublist_appendI)
  qed
qed (auto simp: sublist_append sublist_Cons_right)

lemma ReplaceAll_prefix:
  assumes "prefix p (ReplaceAll k redactedKey s)" "CHR ''['' \<notin> set p"
  shows "prefix p s"
  using assms
proof (induction k redactedKey s arbitrary: p rule: ReplaceAll.induct)
  case (1 old s)
  show ?case
  proof (cases p)
    case (Cons a p')
    then obtain c r where s: "s = c # r" using "1.prems"(1) by (cases s) (auto simp: ReplaceAll.simps)
    show ?thesis
    proof (cases "old \<noteq> [] \<and> HasPrefix s old")
      case True
      then show ?thesis using "1.prems" Cons s by (subst (asm) ReplaceAll.simps) (simp add: redactedKey_def)
    next
      case False
      then have "a = c" "prefix p' (ReplaceAll old redactedKey r)" using "1.prems" Cons s by (auto simp: ReplaceAll.simps [of _ _ "c # r"])
      then show ?thesis using "1.hyps"(2) [OF s False] "1.prems"(2) Cons s by auto
    qed
  qed simp
qed

lemma ReplaceAll_removes:
  assumes "k \<noteq> []" "CHR ''['' \<notin> set k" "CHR '']'' \<notin> set k" "\<not> sublist k ''redacted''"
  shows "\<not> sublist k (ReplaceAll k redactedKey s)"
proof (induction "length s" arbitrary: s rule: less_induct)
  case less
  show ?case
  proof (cases s)
    case Nil
    then show ?thesis using assms(1) by (simp add: ReplaceAll.simps)
  next
    case (Cons c r)
    show ?thesis
    proof (cases "HasPrefix s k")
      case True
      let ?t = "ReplaceAll k redactedKey (drop (length k) s)"
      have e: "ReplaceAll k redactedKey s = [] @ CHR ''['' # (''redacted'' @ CHR '']'' # ?t)"
        using True assms(1) Cons by (subst ReplaceAll.simps) (simp add: redactedKey_def)
      have "\<not> sublist k ?t" using less [of "drop (length k) s"] assms(1) Cons by simp
      then show ?thesis unfolding e sublist_split [OF assms(1,2)] sublist_split [OF assms(1,3)] using assms(1,4) by simp
    next
      case False
      then have e: "ReplaceAll k redactedKey s = c # ReplaceAll k redactedKey r" using Cons by (subst ReplaceAll.simps) simp
      have "\<not> prefix k (ReplaceAll k redactedKey s)"
        using ReplaceAll_prefix [of k k s] assms(2) False by (auto simp: prefix_def HasPrefix_def)
      moreover have "\<not> sublist k (ReplaceAll k redactedKey r)" using less [of r] Cons by simp
      ultimately show ?thesis unfolding e by (simp add: sublist_Cons_right)
    qed
  qed
qed

lemma short_not_sublist: "length w < length k \<Longrightarrow> \<not> sublist k w"
  using sublist_length_le by fastforce

lemma Itoa_three: "100 \<le> n \<Longrightarrow> n < 1000 \<Longrightarrow> length (Itoa n) = 3"
  by (auto simp: Itoa_def FormatUint.simps)

text \<open>(C39) The text of a refused embedding request does not give the API key away, whatever the upstream put into its
  answer. The key is taken to be longer than any word of the message and without blanks, colons and brackets, as the
  keys of the service are; without such a condition the replacement could itself spell the key.\<close>

theorem embed_refusal_hides_the_key:
  assumes "8 < length (em_apiKey g)" "set (em_apiKey g) \<inter> {CHR '' '', CHR '':'', CHR ''['', CHR '']''} = {}"
    and "100 \<le> hresp_status resp" "hresp_status resp < 1000" "embed_statusError g resp = OtherErr text"
  shows "\<not> sublist (em_apiKey g) text"
proof -
  define k where "k = em_apiKey g"
  have k: "k \<noteq> []" "CHR '' '' \<notin> set k" "CHR '':'' \<notin> set k" "CHR ''['' \<notin> set k" "CHR '']'' \<notin> set k" "8 < length k"
    using assms(1,2) by (auto simp: k_def)
  define detail where "detail = redact g (TrimSpace (fst (ReadAll_limit maxEmbedErrorBody (hresp_body resp) (hresp_fin resp))))"
  have d: "\<not> sublist k detail"
    using ReplaceAll_removes [OF k(1,4,5) short_not_sublist] k(1,6) by (simp add: detail_def redact_def k_def)
  have n: "\<not> sublist k (Itoa (hresp_status resp))" using Itoa_three [OF assms(3,4)] k(6) by (simp add: short_not_sublist)
  have said: "ErrEmbedFailed @ '': upstream returned status '' @ Itoa (hresp_status resp) = ''embed'' @ CHR '' '' # ''failed'' @ CHR '':'' # [] @ CHR '' '' #
      ''upstream'' @ CHR '' '' # ''returned'' @ CHR '' '' # ''status'' @ CHR '' '' # Itoa (hresp_status resp)"
    by (simp add: ErrEmbedFailed_def)
  have s: "\<not> sublist k (ErrEmbedFailed @ '': upstream returned status '' @ Itoa (hresp_status resp))"
    unfolding said sublist_split [OF k(1,2)] sublist_split [OF k(1,3)] using n k(1,6) by (simp add: short_not_sublist del: append.simps)
  have "\<not> sublist k ((ErrEmbedFailed @ '': upstream returned status '' @ Itoa (hresp_status resp)) @ CHR '':'' # [] @ CHR '' '' # detail)"
    unfolding sublist_split [OF k(1,2)] sublist_split [OF k(1,3)] using s d k(1) by simp
  then show ?thesis using s assms(5) by (auto simp: embed_statusError_def Let_def detail_def k_def split: if_splits)
qed

section \<open>Witnesses\<close>

definition demo_embedder :: gemini_embedder where
  "demo_embedder = NewGeminiEmbedder [] ''key-of-ann-00001'' []"

lemma demo_embed_reply: "decode_embed_response ''{\"embeddings\":[{\"values\":[1]},{\"values\":[0]}]}'' = Some [[1], [0]]"
  by code_simp

theorem embeddings_match_their_texts_witness:
  "\<exists>vs. Embed (answering ''{\"embeddings\":[{\"values\":[1]},{\"values\":[0]}]}'') demo_embedder [''a'', ''b''] = Inr vs \<and> length vs = 2 \<and> [] \<notin> set vs"
proof -
  have e: "Embed (answering ''{\"embeddings\":[{\"values\":[1]},{\"values\":[0]}]}'') demo_embedder [''a'', ''b''] = Inr [[1], [0]]"
    using demo_embed_reply by (simp add: Embed_def answering_def embed_decode_def ReadAll_limit_def maxEmbedResponseBytes_def)
  have "valid_utf8 t" if "t \<in> set [''a'', ''b'']" for t using that by auto
  moreover have "valid_utf8 (em_qualified demo_embedder)" by code_simp
  ultimately show ?thesis using embeddings_match_their_texts [OF e] e by simp
qed

text \<open>An upstream that sends the key back.\<close>

theorem embed_refusal_hides_the_key_witness:
  "case embed_statusError demo_embedder \<lparr>hresp_status = 403, hresp_body = ''bad key key-of-ann-00001'', hresp_fin = IoEOF\<rparr> of
     OtherErr text \<Rightarrow> \<not> sublist ''key-of-ann-00001'' text | _ \<Rightarrow> False"
proof -
  have k: "em_apiKey demo_embedder = ''key-of-ann-00001''" by (simp add: demo_embedder_def NewGeminiEmbedder_def Let_def)
  let ?resp = "\<lparr>hresp_status = 403, hresp_body = ''bad key key-of-ann-00001'', hresp_fin = IoEOF\<rparr>"
  obtain said where t: "embed_statusError demo_embedder ?resp = OtherErr said" by (simp add: embed_statusError_def Let_def)
  show ?thesis using embed_refusal_hides_the_key [OF _ _ _ _ t] k t by simp
qed

end
