(* ===== verification/Admin.thy ===== *)
theory Admin
  imports Chat_Translation Gateway_HTTP Budget_Enforcer
begin

text \<open>
  The operator API (\<^verbatim>\<open>src/internal/admin\<close>): the balances of the configured tenants as the enforcer keeps them. A view reads
  what was spent and what is reserved in two calls, each under the enforcer's own lock, so what the request path does
  between them is an argument. Paths are taken as they arrive, without the cleaning of \<^verbatim>\<open>ServeMux\<close>.
\<close>

section \<open>The server\<close>

definition pathTenants :: string where "pathTenants = ''/admin/tenants''"
definition pathHealthz :: string where "pathHealthz = ''/healthz''"
definition allowedMethods :: string where "allowedMethods = ''GET''"
definition codeTenantNotFound :: string where "codeTenantNotFound = ''tenant_not_found''"
definition codeNotFound :: string where "codeNotFound = ''not_found''"
definition codeMethodNotAllowed :: string where "codeMethodNotAllowed = ''method_not_allowed''"

record admin_server =
  adm_limits :: "tenant_id \<rightharpoonup> limits"
  adm_names :: "tenant_id list"

text \<open>\<open>lims\<close> lists the limits in the order one iteration over the map visits them.\<close>

definition admin_New :: "(tenant_id \<times> limits) list \<Rightarrow> admin_server" where
  "admin_New lims = \<lparr>adm_limits = map_of lims, adm_names = sort (map fst lims)\<rparr>"

text \<open>The enforcer behind the \<^verbatim>\<open>Accounting\<close> interface; without one nothing was spent.\<close>

definition acct_Spent :: "mem_enforcer option \<Rightarrow> instant \<Rightarrow> tenant_id \<Rightarrow> (float64 \<times> float64) \<times> mem_enforcer option" where
  "acct_Spent a now t = (case a of None \<Rightarrow> ((0, 0), None) | Some e \<Rightarrow> (case Spent e t now of (r, e') \<Rightarrow> (r, Some e')))"

definition acct_Committed :: "mem_enforcer option \<Rightarrow> instant \<Rightarrow> tenant_id \<Rightarrow> float64 \<times> mem_enforcer option" where
  "acct_Committed a now t = (case a of None \<Rightarrow> (0, None) | Some e \<Rightarrow> (case Committed e t now of (c, e') \<Rightarrow> (c, Some e')))"

section \<open>The view\<close>

record tenant_view =
  tv_Name :: string
  tv_Limits :: limits
  tv_DailySpentUSD :: float64
  tv_MonthlySpentUSD :: float64
  tv_CommittedUSD :: float64
  tv_DailyRemainingUSD :: "float64 option"
  tv_MonthlyRemainingUSD :: "float64 option"

definition remaining :: "float64 \<Rightarrow> float64 \<Rightarrow> float64 \<Rightarrow> float64 option" where
  "remaining limit spent reserved = (if limit \<le> 0 then None else Some (fsub (fsub limit spent) reserved))"

definition no_limits :: limits where
  "no_limits = \<lparr>RequestsPerMinute = 0, TokensPerMinute = 0, DailyUSD = 0, MonthlyUSD = 0, FailClosed = False\<rparr>"

definition tenant_view_of ::
    "admin_server \<Rightarrow> (mem_enforcer option \<Rightarrow> mem_enforcer option) \<Rightarrow> instant \<Rightarrow> tenant_id \<Rightarrow> mem_enforcer option \<Rightarrow> tenant_view \<times> mem_enforcer option" where
  "tenant_view_of s between now name a =
     (let lims = (case adm_limits s name of Some l \<Rightarrow> l | None \<Rightarrow> no_limits) in
      case acct_Spent a now name of ((daily, monthly), a1) \<Rightarrow>
        (case acct_Committed (between a1) now name of (reserved, a2) \<Rightarrow>
           (\<lparr>tv_Name = name, tv_Limits = lims, tv_DailySpentUSD = daily, tv_MonthlySpentUSD = monthly, tv_CommittedUSD = reserved,
             tv_DailyRemainingUSD = remaining (DailyUSD lims) daily reserved,
             tv_MonthlyRemainingUSD = remaining (MonthlyUSD lims) monthly reserved\<rparr>, a2)))"

definition money :: "float64 \<Rightarrow> json" where "money v = JNum (json_float v)"

definition money_or_null :: "float64 option \<Rightarrow> json" where
  "money_or_null v = (case v of None \<Rightarrow> JNull | Some x \<Rightarrow> money x)"

definition limits_json :: "limits \<Rightarrow> json" where
  "limits_json l = JObj [(''requests_per_minute'', num (RequestsPerMinute l)), (''tokens_per_minute'', num (TokensPerMinute l)),
     (''daily_usd'', money (DailyUSD l)), (''monthly_usd'', money (MonthlyUSD l)), (''fail_closed'', JBool (FailClosed l))]"

definition view_json :: "tenant_view \<Rightarrow> json" where
  "view_json v = JObj [(''name'', JStr (tv_Name v)), (''limits'', limits_json (tv_Limits v)),
     (''daily_spent_usd'', money (tv_DailySpentUSD v)), (''monthly_spent_usd'', money (tv_MonthlySpentUSD v)),
     (''committed_usd'', money (tv_CommittedUSD v)), (''daily_remaining_usd'', money_or_null (tv_DailyRemainingUSD v)),
     (''monthly_remaining_usd'', money_or_null (tv_MonthlyRemainingUSD v))]"

section \<open>Handlers\<close>

fun tenant_views ::
    "admin_server \<Rightarrow> (mem_enforcer option \<Rightarrow> mem_enforcer option) \<Rightarrow> instant \<Rightarrow> tenant_id list \<Rightarrow> mem_enforcer option \<Rightarrow> tenant_view list \<times> mem_enforcer option" where
  "tenant_views s between now [] a = ([], a)"
| "tenant_views s between now (n # ns) a = (case tenant_view_of s between now n a of (v, a1) \<Rightarrow>
     (case tenant_views s between now ns a1 of (vs, a2) \<Rightarrow> (v # vs, a2)))"

definition handleTenantList ::
    "admin_server \<Rightarrow> (mem_enforcer option \<Rightarrow> mem_enforcer option) \<Rightarrow> instant \<Rightarrow> mem_enforcer option \<Rightarrow> writer \<Rightarrow> writer \<times> mem_enforcer option" where
  "handleTenantList s between now a w = (case tenant_views s between now (adm_names s) a of (vs, a1) \<Rightarrow>
     (WriteJSON 200 (JObj [(''tenants'', JArr (map view_json vs))]) w, a1))"

definition admin_writeError :: "goint \<Rightarrow> string \<Rightarrow> string \<Rightarrow> writer \<Rightarrow> writer" where
  "admin_writeError status message code w = WriteError status message TypeInvalidRequest code w"

definition handleTenant ::
    "admin_server \<Rightarrow> (mem_enforcer option \<Rightarrow> mem_enforcer option) \<Rightarrow> instant \<Rightarrow> tenant_id \<Rightarrow> mem_enforcer option \<Rightarrow> writer \<Rightarrow> writer \<times> mem_enforcer option" where
  "handleTenant s between now name a w =
     (if adm_limits s name = None then (admin_writeError 404 ''tenant is not configured'' codeTenantNotFound w, a)
      else case tenant_view_of s between now name a of (v, a1) \<Rightarrow> (WriteJSON 200 (view_json v) w, a1))"

definition admin_handleHealthz :: "writer \<Rightarrow> writer" where
  "admin_handleHealthz w = WriteJSON 200 (JObj [(''status'', JStr ''ok'')]) w"

definition handleMethodNotAllowed :: "writer \<Rightarrow> writer" where
  "handleMethodNotAllowed w = admin_writeError 405 ''this endpoint is read only'' codeMethodNotAllowed (header_set ''Allow'' allowedMethods w)"

definition handleNotFound :: "writer \<Rightarrow> writer" where
  "handleNotFound w = admin_writeError 404 ''unknown admin endpoint'' codeNotFound w"

text \<open>The tenant a path names: one segment below the list.\<close>

definition tenant_of_path :: "string \<Rightarrow> string option" where
  "tenant_of_path path = (let n = drop (length pathTenants + 1) path in
     if HasPrefix path (pathTenants @ ''/'') \<and> n \<noteq> [] \<and> CHR ''/'' \<notin> set n then Some n else None)"

definition admin_mux ::
    "admin_server \<Rightarrow> (mem_enforcer option \<Rightarrow> mem_enforcer option) \<Rightarrow> instant \<Rightarrow> string \<Rightarrow> string \<Rightarrow> mem_enforcer option \<Rightarrow> writer
       \<Rightarrow> writer \<times> mem_enforcer option" where
  "admin_mux s between now verb path a w = (let reads = (verb = ''GET'' \<or> verb = ''HEAD'') in
     if path = pathTenants then (if reads then handleTenantList s between now a w else (handleMethodNotAllowed w, a))
     else if path = pathHealthz then (if reads then (admin_handleHealthz w, a) else (handleMethodNotAllowed w, a))
     else case tenant_of_path path of
       Some name \<Rightarrow> if reads then handleTenant s between now name a w else (handleMethodNotAllowed w, a)
     | None \<Rightarrow> (handleNotFound w, a))"

section \<open>What an operator is told\<close>

lemma powi_double: "(2 :: rat) powi (k + 1) = 2 * 2 powi k"
  by (simp add: power_int_add_1')

lemma exact_sum:
  assumes "dyadic k x" "dyadic k y" "\<bar>x\<bar> \<le> 2 powi (k + 52)" "\<bar>y\<bar> \<le> 2 powi (k + 52)" "- 1074 \<le> k"
  shows "fadd x y = x + y" "fsub x y = x - y"
proof -
  have "(2 :: rat) powi (k + 53) = 2 * 2 powi (k + 52)" using powi_double [of "k + 52"] by (simp add: add.assoc)
  then have "\<bar>x + y\<bar> \<le> 2 powi (k + 53)" "\<bar>x - y\<bar> \<le> 2 powi (k + 53)" using assms(3,4) by linarith+
  then have "on_grid k (x + y)" "on_grid k (x - y)" using assms(1,2) by (simp_all add: on_grid_def dyadic_add dyadic_diff)
  then show "fadd x y = x + y" "fsub x y = x - y" using assms(5) by (simp_all add: fadd_def fsub_def rnd64_exact)
qed

text \<open>Amounts on a grid of \<open>2 ^ k\<close> dollars, small enough that three of them add up without rounding.\<close>

definition exact_amount :: "int \<Rightarrow> float64 \<Rightarrow> bool" where
  "exact_amount k x \<longleftrightarrow> dyadic k x \<and> 0 \<le> x \<and> x \<le> 2 powi (k + 51)"

lemma remaining_admits:
  assumes "exact_amount k limit" "exact_amount k spent" "exact_amount k reserved" "exact_amount k usd" "- 1074 \<le> k"
  shows "(0 < limit \<and> limit < fadd (fadd spent reserved) usd) \<longleftrightarrow> (\<exists>left. remaining limit spent reserved = Some left \<and> left < usd)"
proof -
  have two: "(2 :: rat) powi (k + 52) = 2 * 2 powi (k + 51)" using powi_double [of "k + 51"] by (simp add: add.assoc)
  note b = assms(1-4) [unfolded exact_amount_def]
  have s1: "fadd spent reserved = spent + reserved" by (rule exact_sum(1) [of k]) (use b assms(5) two in linarith | use b in simp)+
  have s2: "fadd (spent + reserved) usd = spent + reserved + usd"
    by (rule exact_sum(1) [of k]) (use b assms(5) two in linarith | use b in \<open>simp add: dyadic_add\<close>)+
  have s3: "fsub limit spent = limit - spent" by (rule exact_sum(2) [of k]) (use b assms(5) two in linarith | use b in simp)+
  have s4: "fsub (limit - spent) reserved = limit - spent - reserved"
    by (rule exact_sum(2) [of k]) (use b assms(5) two in linarith | use b in \<open>simp add: dyadic_diff\<close>)+
  show ?thesis unfolding remaining_def s1 s2 s3 s4 by auto
qed

lemma stateFor_touch [simp]:
  assumes "stateFor e t now = st"
  shows "stateFor (touch e t now) t now = rollTokens now (rollRequests now (rollMonthly now (rollDaily now st)))"
  using assms by (simp add: stateFor_def touch_def store_state_def)

lemma roll_money:
  "dailySpent (rollTokens now (rollRequests now (rollMonthly now (rollDaily now st)))) =
     dailySpent (rollDaily now st)"
  "committed (rollTokens now (rollRequests now (rollMonthly now (rollDaily now st)))) = committed st"
  by (simp_all add: rollTokens_def rollRequests_def rollMonthly_def rollDaily_def)

text \<open>(C23) The remaining budget an operator sees is what the enforcer admits. When nothing comes between the two reads
  of a view and no amount needs rounding, the next request passes the budget check exactly when its cost fits into
  every remaining amount shown; a budget without a cap shows none.\<close>

theorem remaining_is_what_is_admitted:
  assumes "adm_limits s t = Some lims" "tenant_view_of s (\<lambda>a. a) now t (Some e) = (v, a)"
    and "\<And>x. x \<in> {DailyUSD lims, MonthlyUSD lims, dailySpent (stateFor e t now), monthlySpent (stateFor e t now),
      committed (stateFor e t now), est_USD est} \<Longrightarrow> exact_amount k x" "- 1074 \<le> k"
  shows "checkBudgets (stateFor e t now) lims est = None \<longleftrightarrow>
    (\<forall>left. Some left \<in> {tv_DailyRemainingUSD v, tv_MonthlyRemainingUSD v} \<longrightarrow> est_USD est \<le> left)"
proof -
  let ?st = "stateFor e t now"
  have c: "committed (stateFor (touch e t now) t now) = committed ?st" by (simp add: roll_money)
  have v: "tv_DailyRemainingUSD v = remaining (DailyUSD lims) (dailySpent ?st) (committed ?st)"
    "tv_MonthlyRemainingUSD v = remaining (MonthlyUSD lims) (monthlySpent ?st) (committed ?st)"
    using assms(1,2) by (auto simp: tenant_view_of_def acct_Spent_def acct_Committed_def Spent_def Committed_def Let_def c)
  have d: "(0 < DailyUSD lims \<and> DailyUSD lims < fadd (fadd (dailySpent ?st) (committed ?st)) (est_USD est)) \<longleftrightarrow>
      (\<exists>left. remaining (DailyUSD lims) (dailySpent ?st) (committed ?st) = Some left \<and> left < est_USD est)"
    and m: "(0 < MonthlyUSD lims \<and> MonthlyUSD lims < fadd (fadd (monthlySpent ?st) (committed ?st)) (est_USD est)) \<longleftrightarrow>
      (\<exists>left. remaining (MonthlyUSD lims) (monthlySpent ?st) (committed ?st) = Some left \<and> left < est_USD est)"
    by (rule remaining_admits [of k]; rule assms; simp)+
  have "checkBudgets ?st lims est = None \<longleftrightarrow>
      \<not> (\<exists>left. tv_DailyRemainingUSD v = Some left \<and> left < est_USD est) \<and> \<not> (\<exists>left. tv_MonthlyRemainingUSD v = Some left \<and> left < est_USD est)"
    unfolding v d [symmetric] m [symmetric] by (simp add: checkBudgets_def)
  then show ?thesis by (auto simp: not_less)
qed

text \<open>A settlement between the two reads of a view is counted in neither of them. The view shows the spend from
  before it and the reservations from after it, so a request that settles in between, at whatever cost, is missing
  from the remaining budget shown, by the reservation it gave back.\<close>

theorem settled_between_reads_is_not_counted:
  assumes "adm_limits s t = Some lims" "0 < DailyUSD lims" "res_Tenant r = t" "res_ID r \<notin> settled e"
    and "0 \<le> fsub (committed (stateFor e t now)) (est_USD (res_Estimate r))"
    and "tenant_view_of s (map_option (\<lambda>e. snd (Settle_locked e now (Some r) actual usd))) now t (Some e) = (v, a)"
  shows "tv_DailyRemainingUSD v = Some (fsub (fsub (DailyUSD lims) (dailySpent (stateFor e t now)))
    (fsub (committed (stateFor e t now)) (est_USD (res_Estimate r))))"
proof -
  let ?st = "stateFor e t now" and ?e1 = "touch e t now"
  define st1 where "st1 = bill (stateFor ?e1 t now) (res_Estimate r) actual usd"
  have st1: "committed st1 = fsub (committed ?st) (est_USD (res_Estimate r))"
    using assms(5) by (simp add: st1_def bill_def unclaim_def reconcileTokens_def Let_def roll_money)
  have "e_state (snd (Settle_locked ?e1 now (Some r) actual usd)) t = Some st1"
    using assms(3,4) by (simp add: Settle_locked_def Let_def st1_def touch_def store_state_def)
  then have "fst (Committed (snd (Settle_locked ?e1 now (Some r) actual usd)) t now) = committed st1"
    by (simp add: Committed_def stateFor_def [of "snd _"] roll_money)
  then show ?thesis
    using assms(1,2,6) st1
    by (auto simp: tenant_view_of_def acct_Spent_def acct_Committed_def Spent_def Let_def remaining_def split: prod.splits)
qed

section \<open>A tenant\<close>

definition demo_limits :: limits where
  "demo_limits = no_limits\<lparr>DailyUSD := 10\<rparr>"

definition demo_estimate :: estimate where
  "demo_estimate = \<lparr>est_PromptTokens = 1, est_CompletionTokens = 1, est_USD = 4\<rparr>"

definition demo_enforcer :: mem_enforcer where
  "demo_enforcer = snd (Reserve (NewEnforcer [''ann'' \<mapsto> demo_limits]) 0 ''ann'' demo_estimate)"

definition demo_reservation :: reservation where
  "demo_reservation = \<lparr>res_Tenant = ''ann'', res_Estimate = demo_estimate, IssuedAt = 0, res_ID = ''1''\<rparr>"

lemma small_exact: "exact_amount 0 0" "exact_amount 0 4" "exact_amount 0 10"
proof -
  have "dyadic 0 (of_int n)" for n by (simp add: dyadic_def)
  from this [of 4] this [of 10] show "exact_amount 0 0" "exact_amount 0 4" "exact_amount 0 10"
    by (simp_all add: exact_amount_def)
qed

lemma exact_demo: "fadd 0 0 = 0" "fadd 0 4 = 4" "fsub 4 4 = 0" "fsub 10 0 = 10" "fsub 10 4 = 6"
proof -
  have s: "fadd x y = x + y \<and> fsub x y = x - y" if "exact_amount 0 x" "exact_amount 0 y" for x y
    using that exact_sum [of 0 x y] powi_double [of 51] by (auto simp: exact_amount_def)
  show "fadd 0 0 = 0" "fadd 0 4 = 4" "fsub 4 4 = 0" "fsub 10 0 = 10" "fsub 10 4 = 6"
    using s [of 0 0] s [of 0 4] s [of 4 4] s [of 10 0] s [of 10 4] small_exact by simp_all
qed

lemma demo_state: "stateFor demo_enforcer ''ann'' 0 = (fresh_state 0)\<lparr>committed := 4, requests := 1, tokens := 2\<rparr>"
  by (simp add: demo_enforcer_def Reserve_def NewEnforcer_def demo_limits_def no_limits_def demo_estimate_def stateFor_def touch_def
      store_state_def checkRates_def checkBudgets_def claim_def wanted_tokens_def fresh_state_def Let_def go_int int64_ok_def exact_demo
      rollTokens_def rollRequests_def rollMonthly_def rollDaily_def window_defs)

definition demo_admin :: admin_server where
  "demo_admin = admin_New [(''ann'', demo_limits)]"

text \<open>Ten dollars, four of them reserved: six are shown, and a request of four passes.\<close>

theorem remaining_is_what_is_admitted_witness:
  "checkBudgets (stateFor demo_enforcer ''ann'' 0) demo_limits demo_estimate = None \<and>
   tv_DailyRemainingUSD (fst (tenant_view_of demo_admin (\<lambda>a. a) 0 ''ann'' (Some demo_enforcer))) = Some 6"
proof -
  have lims: "adm_limits demo_admin ''ann'' = Some demo_limits" by (simp add: demo_admin_def admin_New_def)
  obtain v a where v: "tenant_view_of demo_admin (\<lambda>a. a) 0 ''ann'' (Some demo_enforcer) = (v, a)" by fastforce
  have rem: "tv_DailyRemainingUSD v = Some 6" "tv_MonthlyRemainingUSD v = None"
    using v lims demo_state
    by (auto simp: tenant_view_of_def acct_Spent_def acct_Committed_def Spent_def Committed_def Let_def remaining_def demo_limits_def no_limits_def
        roll_money fresh_state_def exact_demo)
  have ex: "exact_amount 0 x" if "x \<in> {DailyUSD demo_limits, MonthlyUSD demo_limits, dailySpent (stateFor demo_enforcer ''ann'' 0),
      monthlySpent (stateFor demo_enforcer ''ann'' 0), committed (stateFor demo_enforcer ''ann'' 0), est_USD demo_estimate}" for x
    using that small_exact by (auto simp: demo_state fresh_state_def demo_limits_def no_limits_def demo_estimate_def)
  have "checkBudgets (stateFor demo_enforcer ''ann'' 0) demo_limits demo_estimate = None"
    using remaining_is_what_is_admitted [OF lims v ex, of demo_estimate] rem by (simp add: demo_estimate_def)
  then show ?thesis using v rem by simp
qed

text \<open>The request of four settles between the reads at a cost of three: ten dollars are shown where seven are left.\<close>

theorem settled_between_reads_is_not_counted_witness:
  "tv_DailyRemainingUSD (fst (tenant_view_of demo_admin (map_option (\<lambda>e. snd (Settle_locked e 0 (Some demo_reservation) zero_usage 3))) 0 ''ann''
     (Some demo_enforcer))) = Some 10"
proof -
  have lims: "adm_limits demo_admin ''ann'' = Some demo_limits" by (simp add: demo_admin_def admin_New_def)
  have fresh: "res_ID demo_reservation \<notin> settled demo_enforcer"
    by (simp add: demo_reservation_def demo_enforcer_def Reserve_def NewEnforcer_def demo_limits_def no_limits_def demo_estimate_def
        stateFor_def touch_def store_state_def checkRates_def checkBudgets_def fresh_state_def Let_def exact_demo)
  obtain v a where v: "tenant_view_of demo_admin (map_option (\<lambda>e. snd (Settle_locked e 0 (Some demo_reservation) zero_usage 3))) 0 ''ann''
     (Some demo_enforcer) = (v, a)" by fastforce
  have "tv_DailyRemainingUSD v = Some (fsub (fsub (DailyUSD demo_limits) (dailySpent (stateFor demo_enforcer ''ann'' 0)))
      (fsub (committed (stateFor demo_enforcer ''ann'' 0)) (est_USD (res_Estimate demo_reservation))))"
    by (rule settled_between_reads_is_not_counted [OF lims _ _ fresh _ v])
      (simp_all add: demo_state demo_limits_def demo_reservation_def demo_estimate_def exact_demo)
  then show ?thesis using v by (simp add: demo_state demo_limits_def demo_reservation_def demo_estimate_def fresh_state_def exact_demo)
qed

end
