(* ===== verification/Startup.thy ===== *)
theory Startup
  imports Configuration_Valid Anthropic Gemini Embedder Admin Gateway_Chat Router_Orchestrator
    Budget_Estimator Budget_Store
begin

text \<open>
  How the process puts the gateway together (\<^verbatim>\<open>src/cmd/penstock/main.go\<close>, \<^verbatim>\<open>src/internal/providers/factory.go\<close> and the
  options of \<^verbatim>\<open>src/internal/ingress/server.go\<close>): adapters from provider entries, routers from routes, the accounting from
  tenant limits, the cache, and the key set. Signals, listeners, logging and tracing are left out. A Go map is
  iterated in an order the runtime picks, which is an argument where it could matter.
\<close>

section \<open>The registry\<close>

datatype built = WireAdapter wire_provider | AnthropicAdapter adapter | GeminiAdapter adapter

fun built_Name :: "built \<Rightarrow> string" where
  "built_Name (WireAdapter p) = wp_name p"
| "built_Name (AnthropicAdapter p) = ad_name p"
| "built_Name (GeminiAdapter p) = ad_name p"

type_synonym builder = "provider_config \<Rightarrow> err + built"

definition RegisterKind :: "string \<Rightarrow> builder \<Rightarrow> (string \<times> builder) list \<Rightarrow> (string \<times> builder) list" where
  "RegisterKind kind b builders = AList.update kind b builders"

definition anthropic_fromConfig :: builder where
  "anthropic_fromConfig cfg = Inr (AnthropicAdapter (anthropic_New (pc_Name cfg) (pc_BaseURL cfg) (pc_APIKey cfg)))"

definition gemini_fromConfig :: builder where
  "gemini_fromConfig cfg = Inr (GeminiAdapter (gemini_New (pc_Name cfg) (pc_BaseURL cfg) (pc_APIKey cfg)))"

definition wire_fromConfig :: "string \<Rightarrow> builder" where
  "wire_fromConfig kind cfg = map_sum id WireAdapter (builderFor kind (pc_Name cfg) (pc_BaseURL cfg) (pc_APIKey cfg) (pc_StreamUsage cfg))"

text \<open>The registry after the adapter packages' \<^verbatim>\<open>init\<close> functions ran.\<close>

definition registered :: "(string \<times> builder) list" where
  "registered = fold (\<lambda>kind. RegisterKind kind (wire_fromConfig kind)) (map fst profiles)
     (RegisterKind ''gemini'' gemini_fromConfig (RegisterKind ''anthropic'' anthropic_fromConfig []))"

fun BuildAll :: "(string \<times> builder) list \<Rightarrow> (string \<times> built) list \<Rightarrow> provider_config list \<Rightarrow> err + (string \<times> built) list" where
  "BuildAll builders out [] = Inr out"
| "BuildAll builders out (cfg # cfgs) =
     (if map_of out (pc_Name cfg) \<noteq> None then Inl (OtherErr (''provider '' @ Quote (pc_Name cfg) @ '': duplicate name''))
      else case map_of builders (pc_Kind cfg) of
        None \<Rightarrow> Inl (OtherErr (''provider '' @ Quote (pc_Name cfg) @ '': unknown kind '' @ Quote (pc_Kind cfg) @ '' (no adapter registered for it)''))
      | Some build \<Rightarrow>
          (case build cfg of
             Inl e \<Rightarrow> Inl (WrapErr (''provider '' @ Quote (pc_Name cfg) @ '': '') e)
           | Inr p \<Rightarrow> BuildAll builders ((pc_Name cfg, p) # out) cfgs))"

section \<open>The log level\<close>

datatype level = LevelDebug | LevelInfo | LevelWarn | LevelError

definition parseLevel :: "string \<Rightarrow> string + level" where
  "parseLevel l = (if l = ''debug'' then Inr LevelDebug else if l = ''info'' then Inr LevelInfo else if l = ''warn'' then Inr LevelWarn
     else if l = ''error'' then Inr LevelError else Inl (''unknown log level '' @ Quote l))"

section \<open>Routes\<close>

definition seconds :: "goint \<Rightarrow> duration" where "seconds n = wrap64 (n * Second)"

definition routerOptions :: "config \<Rightarrow> options" where
  "routerOptions cfg = (let r = cfg_Router cfg in
     \<lparr>Strategy = [], MaxAttempts = ro_MaxAttempts r, RetryBaseDelay = msToDuration (ro_RetryBaseDelayMS r),
      MaxRetryDelay = msToDuration (ro_MaxRetryDelayMS r), BreakerThreshold = ro_BreakerThreshold r,
      BreakerCooldown = seconds (ro_BreakerCooldownSeconds r)\<rparr>)"

definition strategyOrDefault :: "string \<Rightarrow> string" where
  "strategyOrDefault s = (if s = [] then ''priority'' else s)"

text \<open>A chain entry is the adapter, with the model it is to be asked for where that is not the route's own.\<close>

type_synonym link = "built \<times> string option"

fun build_chain :: "(string \<times> built) list \<Rightarrow> route_config \<Rightarrow> string list \<Rightarrow> err + (string \<times> link) list" where
  "build_chain provs r [] = Inr []"
| "build_chain provs r (name # names) = (case map_of provs name of
       None \<Rightarrow> Inl (OtherErr (''route '' @ Quote (rc_Model r) @ '': provider '' @ Quote name @ '' was not built''))
     | Some p \<Rightarrow>
         (let upstream = UpstreamModel r name in
          case build_chain provs r names of
            Inl e \<Rightarrow> Inl e
          | Inr chain \<Rightarrow> Inr ((built_Name p, (p, if upstream \<noteq> rc_Model r then Some upstream else None)) # chain)))"

definition build_route :: "options \<Rightarrow> tracker \<Rightarrow> (string \<times> built) list \<Rightarrow> route_config \<Rightarrow> err + link router" where
  "build_route opts health provs r = (case build_chain provs r (Chain r) of
       Inl e \<Rightarrow> Inl e
     | Inr chain \<Rightarrow>
         (case NewSelector (strategyOrDefault (rc_Strategy r)) of
            Inl e \<Rightarrow> Inl (WrapErr (''route '' @ Quote (rc_Model r) @ '': '') (OtherErr e))
          | Inr sel \<Rightarrow>
              (case router_New (rc_Model r) chain (Some health) (Some sel) opts of
                 Inl e \<Rightarrow> Inl (OtherErr e)
               | Inr rt \<Rightarrow> Inr rt)))"

fun build_routes :: "options \<Rightarrow> tracker \<Rightarrow> (string \<times> built) list \<Rightarrow> (string \<times> link router) list \<Rightarrow> route_config list \<Rightarrow> err + (string \<times> link router) list" where
  "build_routes opts health provs out [] = Inr out"
| "build_routes opts health provs out (r # rs) = (case build_route opts health provs r of
       Inl e \<Rightarrow> Inl e
     | Inr rt \<Rightarrow> build_routes opts health provs (AList.update (rc_Model r) rt out) rs)"

text \<open>\<^verbatim>\<open>buildRoutes\<close>, with the tracker all routes share.\<close>

definition buildRoutes :: "config \<Rightarrow> (string \<times> built) list \<Rightarrow> err + tracker \<times> (string \<times> link router) list" where
  "buildRoutes cfg provs = (let opts = routerOptions cfg; health = NewHealth opts in
     case build_routes opts health provs [] (cfg_Routes cfg) of Inl e \<Rightarrow> Inl e | Inr routes \<Rightarrow> Inr (health, routes))"

section \<open>Accounting\<close>

definition to_limits :: "tenant_limits \<Rightarrow> limits" where
  "to_limits l = \<lparr>RequestsPerMinute = tl_RequestsPerMinute l, TokensPerMinute = tl_TokensPerMinute l, DailyUSD = tl_DailyUSD l,
     MonthlyUSD = tl_MonthlyUSD l, FailClosed = tl_FailClosed l\<rparr>"

definition limits_of :: "config \<Rightarrow> (string \<times> limits) list" where
  "limits_of cfg = fold (\<lambda>t. AList.update (tc_Name t) (to_limits (tc_Limits t))) (Tenants (cfg_Auth cfg)) []"

definition providerKinds :: "config \<Rightarrow> string \<Rightarrow> string" where
  "providerKinds cfg name = (case map_of (rev (map (\<lambda>p. (pc_Name p, pc_Kind p)) (cfg_Providers cfg))) name of Some k \<Rightarrow> k | None \<Rightarrow> [])"

definition routePricing :: "config \<Rightarrow> string \<Rightarrow> string \<times> string" where
  "routePricing cfg model =
     (case map_of (rev (map (\<lambda>r. (rc_Model r, (providerKinds cfg (hd (Chain r)), UpstreamModel r (hd (Chain r)))))
             (filter (\<lambda>r. Chain r \<noteq> []) (cfg_Routes cfg)))) model of
        Some p \<Rightarrow> p | None \<Rightarrow> ([], []))"

text \<open>The files: \<open>ledger_open\<close> is the error of opening the ledger or the lines it holds.\<close>

definition openLedger :: "string \<Rightarrow> err + entry list \<Rightarrow> err + ledger" where
  "openLedger path ledger_open =
     (if path = [] then Inr NopLedger
      else case ledger_open of Inl e \<Rightarrow> Inl (WrapErr ''open cost ledger: '' e) | Inr es \<Rightarrow> Inr (FileLedger es))"

record store_world =
  sw_io :: open_outcomes
  sw_file :: sqlite_file
  sw_load :: "err option"

datatype 'a started = Started 'a | StartFailed err | StartPanicked

definition openEnforcer :: "config \<Rightarrow> (string \<rightharpoonup> limits) \<Rightarrow> instant \<Rightarrow> store_world \<Rightarrow> (mem_enforcer \<times> sqlite_file option) started" where
  "openEnforcer cfg lims now w = (let path = StorePath (cfg_Accounting cfg) in
     if path = [] then Started (NewEnforcer lims, None)
     else case OpenSQLiteStore (sw_io w) path (sw_file w) of
       MigrateError e \<Rightarrow> StartFailed (WrapErr ''open budget store: '' e)
     | MigratePanic \<Rightarrow> StartPanicked
     | Migrated f \<Rightarrow>
         (case NewDurableEnforcer lims now (Some (SQLite_Load (sw_load w) ([], case tenant_spend f of Some rows \<Rightarrow> rows | None \<Rightarrow> []))) of
            Inl e \<Rightarrow> StartFailed e
          | Inr e \<Rightarrow> Started (e, Some f)))"

record accounting =
  ac_guard :: guard
  ac_enforcer :: mem_enforcer
  ac_limits :: "(string \<times> limits) list"
  ac_store :: "sqlite_file option"
  ac_ledger :: ledger

text \<open>No tenants, no accounting. \<open>prices\<close> is what loading the embedded price table gave.\<close>

definition buildAccounting ::
    "config \<Rightarrow> string + table \<Rightarrow> err + entry list \<Rightarrow> instant \<Rightarrow> store_world \<Rightarrow> accounting option started" where
  "buildAccounting cfg prices ledger_open now w = (let lims = limits_of cfg in
     if lims = [] then Started None
     else case prices of
       Inl e \<Rightarrow> StartFailed (WrapErr ''load price table: '' (OtherErr e))
     | Inr t \<Rightarrow>
         (case openLedger (LedgerPath (cfg_Accounting cfg)) ledger_open of
            Inl e \<Rightarrow> StartFailed e
          | Inr ledger \<Rightarrow>
              (case openEnforcer cfg (map_of lims) now w of
                 StartFailed e \<Rightarrow> StartFailed e
               | StartPanicked \<Rightarrow> StartPanicked
               | Started (e, f) \<Rightarrow>
                   Started (Some \<lparr>ac_guard = \<lparr>g_estimator = Some (Estimate (NewEstimator (Some t) (Some (routePricing cfg))
                        \<lparr>DefaultCompletionTokens = 0, MaxCompletionTokens = 0\<rparr>)), g_enforcer = True, g_prices = Some t,
                        g_kindOf = Some (providerKinds cfg), g_ledger = True\<rparr>,
                      ac_enforcer = e, ac_limits = lims, ac_store = f, ac_ledger = ledger\<rparr>))))"

definition adminHandler :: "accounting option \<Rightarrow> admin_server option" where
  "adminHandler a = map_option (\<lambda>x. admin_New (ac_limits x)) a"

section \<open>The cache\<close>

definition buildCache :: "config \<Rightarrow> lookup_state option" where
  "buildCache cfg = (let c = cfg_Cache cfg; sem = cc_Semantic c; life = seconds (cc_TTLSeconds c) in
     if \<not> cc_Enabled c then None
     else Some \<lparr>lk_exact = Some (NewExact (cc_MaxEntries c) life),
       lk_semantic = (if sem_Enabled sem then Some (NewSemantic (sem_Threshold sem) (sem_MaxPerTenant sem) life) else None),
       lk_maxTemp = cc_MaxTemperature c\<rparr>)"

text \<open>The embedder \<^verbatim>\<open>buildCache\<close> makes for the semantic tier.\<close>

definition buildEmbedder :: "http_client \<Rightarrow> config \<Rightarrow> embedder option" where
  "buildEmbedder hc cfg = (let c = cfg_Cache cfg; sem = cc_Semantic c in
     if cc_Enabled c \<and> sem_Enabled sem then Some (lookup_embedder hc (NewGeminiEmbedder (EmbedURL sem) (EmbedAPIKey sem) (EmbedModel sem))) else None)"

section \<open>The gateway\<close>

record 'a assembly =
  su_server :: "'a server"
  su_inflight :: inflight
  su_cache :: "lookup_state option"

definition WithClientKeys :: "string list \<Rightarrow> 'a assembly \<Rightarrow> 'a assembly" where
  "WithClientKeys keys s = s\<lparr>su_server := (su_server s)\<lparr>sv_clientKeys := newKeySet keys\<rparr>\<rparr>"

definition WithTenantKeys :: "(string \<times> string list) list \<Rightarrow> 'a assembly \<Rightarrow> 'a assembly" where
  "WithTenantKeys visited s = s\<lparr>su_server := (su_server s)\<lparr>sv_clientKeys :=
     fold (\<lambda>(tenant, keys). fold (\<lambda>key. key_add (key, tenant)) keys) visited (sv_clientKeys (su_server s))\<rparr>\<rparr>"

definition WithInflightLimit :: "goint \<Rightarrow> 'a assembly \<Rightarrow> 'a assembly" where
  "WithInflightLimit limit s = s\<lparr>su_inflight := newInflight limit\<rparr>"

definition WithCache :: "lookup_state option \<Rightarrow> 'a assembly \<Rightarrow> 'a assembly" where
  "WithCache l s = s\<lparr>su_cache := l\<rparr>"

definition WithAccounting :: "'a accountant option \<Rightarrow> 'a assembly \<Rightarrow> 'a assembly" where
  "WithAccounting a s = (case a of None \<Rightarrow> s | Some _ \<Rightarrow> s\<lparr>su_server := (su_server s)\<lparr>sv_accounting := a\<rparr>\<rparr>)"

definition defaultInflight :: goint where "defaultInflight = 256"

definition NewServer :: "server_config \<Rightarrow> (string \<times> provider) list \<Rightarrow> embedder option \<Rightarrow> ('a assembly \<Rightarrow> 'a assembly) list \<Rightarrow> 'a assembly" where
  "NewServer cfg routes emb opts = fold (\<lambda>opt. opt) opts
     \<lparr>su_server = \<lparr>sv_UpstreamTimeoutMS = UpstreamTimeoutMS cfg, sv_StreamIdleTimeoutMS = StreamIdleTimeoutMS cfg, sv_routes = routes,
        sv_clientKeys = newKeySet [], sv_accounting = None, sv_embedder = emb\<rparr>,
      su_inflight = newInflight defaultInflight, su_cache = None\<rparr>"

definition RequiresAuth :: "'a assembly \<Rightarrow> bool" where
  "RequiresAuth s \<longleftrightarrow> \<not> key_empty (sv_clientKeys (su_server s))"

definition tenantKeys :: "config \<Rightarrow> (string \<times> string list) list" where
  "tenantKeys cfg = fold (\<lambda>t. AList.update (tc_Name t) (tc_Keys t)) (Tenants (cfg_Auth cfg)) []"

text \<open>\<open>visited\<close> is the order in which the loop over \<^verbatim>\<open>tenantKeys\<close> visits the map.\<close>

definition buildGateway ::
    "config \<Rightarrow> (string \<times> provider) list \<Rightarrow> http_client \<Rightarrow> 'a accountant option \<Rightarrow> (string \<times> string list) list \<Rightarrow> 'a assembly" where
  "buildGateway cfg routes hc accounting visited = NewServer (cfg_Server cfg) routes (buildEmbedder hc cfg)
     [WithCache (buildCache cfg), WithAccounting accounting, WithClientKeys (ClientKeys (cfg_Auth cfg)), WithTenantKeys visited,
      WithInflightLimit (MaxInflight (cfg_Server cfg))]"

definition readTimeout :: "config \<Rightarrow> duration" where
  "readTimeout cfg = msToDuration (ReadTimeoutMS (cfg_Server cfg))"

section \<open>A loaded configuration boots\<close>

lemma config_Load_valid:
  assumes "config_Load opened decoded env url_parse = Inr cfg"
  shows "valid_config url_parse cfg" "\<exists>cfg0. cfg = applyDefaults cfg0"
  using assms config_Validate_Nil
  by (auto simp: config_Load_def Let_def split: if_splits option.splits prod.splits)

lemma registered_kinds:
  assumes "kind \<in> set AllKinds"
  shows "map_of registered kind = Some (if kind = ''anthropic'' then anthropic_fromConfig else if kind = ''gemini'' then gemini_fromConfig
    else wire_fromConfig kind)"
  using assms by (auto simp: AllKinds_def registered_def RegisterKind_def profiles_def update_conv')

lemma wire_builds: "baseURL \<noteq> [] \<Longrightarrow> \<exists>p. builderFor kind name baseURL apiKey su = Inr p \<and> wp_name p = name"
  by (simp add: builderFor_def newWithProfile_def Let_def)

lemma registered_builds:
  assumes "valid_provider url_parse cfg"
  obtains build p where "map_of registered (pc_Kind cfg) = Some build" "build cfg = Inr p" "built_Name p = pc_Name cfg"
proof -
  have k: "pc_Kind cfg \<in> set AllKinds" "pc_BaseURL cfg \<noteq> []" using assms by (auto simp: valid_provider_def)
  obtain w where w: "builderFor (pc_Kind cfg) (pc_Name cfg) (pc_BaseURL cfg) (pc_APIKey cfg) (pc_StreamUsage cfg) = Inr w" "wp_name w = pc_Name cfg"
    using wire_builds [OF k(2)] by blast
  show thesis
    using that registered_kinds [OF k(1)] w
    by (auto simp: anthropic_fromConfig_def gemini_fromConfig_def wire_fromConfig_def anthropic_New_def gemini_New_def split: if_splits)
qed

lemma BuildAll_valid:
  assumes "\<forall>p \<in> set cfgs. valid_provider url_parse p" "distinct (map pc_Name cfgs)" "fst ` set out \<inter> pc_Name ` set cfgs = {}"
    and "\<forall>(n, p) \<in> set out. built_Name p = n"
  shows "\<exists>provs. BuildAll registered out cfgs = Inr provs \<and> fst ` set provs = fst ` set out \<union> pc_Name ` set cfgs \<and>
    (\<forall>(n, p) \<in> set provs. built_Name p = n)"
  using assms
proof (induction cfgs arbitrary: out)
  case (Cons cfg cfgs)
  obtain build p where b: "map_of registered (pc_Kind cfg) = Some build" "build cfg = Inr p" "built_Name p = pc_Name cfg"
    using registered_builds Cons.prems(1) by (metis list.set_intros(1))
  have fresh: "map_of out (pc_Name cfg) = None" using Cons.prems(3) by (auto simp: map_of_eq_None_iff)
  have "\<exists>provs. BuildAll registered ((pc_Name cfg, p) # out) cfgs = Inr provs \<and>
      fst ` set provs = fst ` set ((pc_Name cfg, p) # out) \<union> pc_Name ` set cfgs \<and> (\<forall>(n, p) \<in> set provs. built_Name p = n)"
    by (rule Cons.IH) (use Cons.prems b(3) in auto)
  then show ?case using b fresh by auto
qed simp

lemma addProviders_distinct:
  assumes "distinct (map fst chain)" "\<forall>n \<in> fst ` set chain. r_byName r n = None"
  shows "\<exists>r'. addProviders name chain r = Inr r' \<and> r_names r' = r_names r @ map fst chain \<and> r_opts r' = r_opts r \<and> r_name r' = r_name r"
  using assms
proof (induction name chain r rule: addProviders.induct)
  case (2 name pn p chain r)
  have "\<forall>n \<in> fst ` set chain. r_byName (r\<lparr>r_names := r_names r @ [pn], r_byName := (r_byName r)(pn \<mapsto> p)\<rparr>) n = None"
    using "2.prems" by auto
  with "2.IH" "2.prems" show ?case by auto
qed simp

lemma build_chain_names:
  assumes "\<forall>n \<in> set names. n \<in> fst ` set provs" "\<forall>(n, p) \<in> set provs. built_Name p = n"
  shows "\<exists>chain. build_chain provs r names = Inr chain \<and> map fst chain = names"
  using assms(1)
proof (induction names)
  case (Cons n ns)
  then obtain p where "map_of provs n = Some p" by (metis list.set_intros(1) map_of_eq_None_iff not_Some_eq)
  moreover from this have "built_Name p = n" using assms(2) by (auto dest: map_of_SomeD)
  ultimately show ?case using Cons by (auto simp: Let_def)
qed simp

lemma strategies_build: "s = [] \<or> s \<in> set AllStrategies \<Longrightarrow> \<exists>sel. NewSelector (strategyOrDefault s) = Inr sel"
  by (auto simp: AllStrategies_def strategyOrDefault_def NewSelector_def)

lemma build_route_valid:
  assumes "valid_route ps r" "fst ` set provs = pc_Name ` set ps" "\<forall>(n, p) \<in> set provs. built_Name p = n"
  shows "\<exists>rt. build_route opts health provs r = Inr rt \<and> r_names rt = Chain r \<and> r_opts rt = withDefaults opts \<and> r_name rt = rc_Model r"
proof -
  have "n \<in> fst ` set provs" if "n \<in> set (Chain r)" for n
    using assms(1,2) that by (force simp: valid_route_def serves_def)
  with build_chain_names assms(3) obtain chain where c: "build_chain provs r (Chain r) = Inr chain" "map fst chain = Chain r" by blast
  have ne: "chain \<noteq> []" "distinct (map fst chain)" using assms(1) c(2) by (auto simp: valid_route_def)
  obtain sel where s: "NewSelector (strategyOrDefault (rc_Strategy r)) = Inr sel"
    using strategies_build [of "rc_Strategy r"] assms(1) unfolding valid_route_def by blast
  have "\<exists>rt. addProviders (rc_Model r) chain \<lparr>r_name = rc_Model r, r_names = [], r_byName = Map.empty, r_sel = sel, r_opts = withDefaults opts\<rparr> = Inr rt
      \<and> r_names rt = Chain r \<and> r_opts rt = withDefaults opts \<and> r_name rt = rc_Model r"
    using addProviders_distinct [OF ne(2), of "\<lparr>r_name = rc_Model r, r_names = [], r_byName = Map.empty, r_sel = sel, r_opts = withDefaults opts\<rparr>" "rc_Model r"]
      c(2) by simp
  then show ?thesis using c(1) s ne(1) by (auto simp: build_route_def router_New_def)
qed

lemma build_routes_valid:
  assumes "\<forall>r \<in> set rs. valid_route ps r" "distinct (map rc_Model rs)" "fst ` set out \<inter> rc_Model ` set rs = {}"
    "fst ` set provs = pc_Name ` set ps" "\<forall>(n, p) \<in> set provs. built_Name p = n"
  shows "\<exists>routes. build_routes opts health provs out rs = Inr routes \<and>
    (\<forall>m. m \<notin> rc_Model ` set rs \<longrightarrow> map_of routes m = map_of out m) \<and>
    (\<forall>r \<in> set rs. \<exists>rt. map_of routes (rc_Model r) = Some rt \<and> r_names rt = Chain r \<and> r_opts rt = withDefaults opts \<and> r_name rt = rc_Model r)"
  using assms(1-3)
proof (induction rs arbitrary: out)
  case (Cons r rs)
  obtain rt where rt: "build_route opts health provs r = Inr rt" "r_names rt = Chain r" "r_opts rt = withDefaults opts" "r_name rt = rc_Model r"
    using build_route_valid [OF _ assms(4,5)] Cons.prems(1) by (metis list.set_intros(1))
  let ?out = "AList.update (rc_Model r) rt out"
  have "fst ` set ?out \<inter> rc_Model ` set rs = {}" using Cons.prems(2,3) dom_update [of "rc_Model r" rt out] by auto
  with Cons.IH [of ?out] Cons.prems obtain routes where routes: "build_routes opts health provs ?out rs = Inr routes"
    "\<forall>m. m \<notin> rc_Model ` set rs \<longrightarrow> map_of routes m = map_of ?out m"
    "\<forall>r \<in> set rs. \<exists>rt. map_of routes (rc_Model r) = Some rt \<and> r_names rt = Chain r \<and> r_opts rt = withDefaults opts \<and> r_name rt = rc_Model r"
    by auto
  have "rc_Model r \<notin> rc_Model ` set rs" using Cons.prems(2) by auto
  with routes(2) have "map_of routes (rc_Model r) = Some rt" by (simp add: update_conv')
  with routes rt show ?case by (auto simp: update_conv')
qed simp

text \<open>(C13) A configuration that loads can be served. The log level is known, every provider entry has an adapter registered for its kind, every
  adapter is built, and every route gets a router over exactly its chain, in order, under its own model name; so
  none of the errors of building is ever met.\<close>

theorem loaded_config_boots:
  assumes "config_Load opened decoded env url_parse = Inr cfg"
  shows "\<exists>level provs health routes. parseLevel (LogLevel (cfg_Telemetry cfg)) = Inr level \<and> BuildAll registered [] (cfg_Providers cfg) = Inr provs \<and> buildRoutes cfg provs = Inr (health, routes) \<and>
    (\<forall>r \<in> set (cfg_Routes cfg). \<exists>rt. map_of routes (rc_Model r) = Some rt \<and> r_names rt = Chain r \<and> r_name rt = rc_Model r)"
proof -
  note v = config_Load_valid(1) [OF assms, unfolded valid_config_def]
  obtain provs where p: "BuildAll registered [] (cfg_Providers cfg) = Inr provs" "fst ` set provs = pc_Name ` set (cfg_Providers cfg)"
    "\<forall>(n, p) \<in> set provs. built_Name p = n"
    using BuildAll_valid [of "cfg_Providers cfg" url_parse "[]"] v by auto
  obtain routes where "build_routes (routerOptions cfg) (NewHealth (routerOptions cfg)) provs [] (cfg_Routes cfg) = Inr routes"
    "\<forall>r \<in> set (cfg_Routes cfg). \<exists>rt. map_of routes (rc_Model r) = Some rt \<and> r_names rt = Chain r \<and>
       r_opts rt = withDefaults (routerOptions cfg) \<and> r_name rt = rc_Model r"
    using build_routes_valid [OF _ _ _ p(2,3), of "cfg_Routes cfg" "[]" "routerOptions cfg" "NewHealth (routerOptions cfg)"] v by auto
  moreover have "\<exists>level. parseLevel (LogLevel (cfg_Telemetry cfg)) = Inr level"
    using v by (auto simp: LogLevels_def parseLevel_def)
  ultimately show ?thesis using p(1) by (auto simp: buildRoutes_def Let_def)
qed

section \<open>Durations\<close>

lemma ms_exact: "0 \<le> n \<Longrightarrow> n \<le> MaxTimeoutMS \<Longrightarrow> msToDuration n = n * Millisecond"
  by (simp add: msToDuration_def MaxTimeoutMS_def Millisecond_def int64_ok_def)

lemma or_default_pos: "0 \<le> or_default 0 d n \<Longrightarrow> 0 < d \<Longrightarrow> 0 < or_default 0 d (n :: int)"
  by (simp add: or_default_def split: if_splits)

text \<open>The deadlines of a gateway that runs are real ones: the read, upstream and idle timeouts of a loaded
  configuration are at least a millisecond and at most an hour, none of them wraps around on its way to nanoseconds,
  the number of requests in flight is bounded, and one request costs at least one and at most ten upstream attempts.\<close>

theorem loaded_deadlines_are_real:
  assumes "config_Load opened decoded env url_parse = Inr cfg"
  shows "(\<forall>d \<in> {readTimeout cfg, msToDuration (UpstreamTimeoutMS (cfg_Server cfg)), msToDuration (StreamIdleTimeoutMS (cfg_Server cfg))}.
      Millisecond \<le> d \<and> d \<le> Hour) \<and>
    slots (su_inflight (buildGateway cfg routes hc accounting visited)) \<noteq> None \<and>
    1 \<le> MaxAttempts (withDefaults (routerOptions cfg)) \<and> MaxAttempts (withDefaults (routerOptions cfg)) \<le> 10"
proof -
  obtain cfg0 where cfg: "cfg = applyDefaults cfg0" using config_Load_valid(2) [OF assms] by blast
  note v = config_Load_valid(1) [OF assms, unfolded valid_config_def]
  have range: "0 \<le> ReadTimeoutMS (cfg_Server cfg)" "ReadTimeoutMS (cfg_Server cfg) \<le> MaxTimeoutMS"
    "0 \<le> UpstreamTimeoutMS (cfg_Server cfg)" "UpstreamTimeoutMS (cfg_Server cfg) \<le> MaxTimeoutMS"
    "0 \<le> StreamIdleTimeoutMS (cfg_Server cfg)" "StreamIdleTimeoutMS (cfg_Server cfg) \<le> MaxTimeoutMS" "0 \<le> MaxInflight (cfg_Server cfg)"
    using v by (auto simp: valid_server_def)
  then have pos: "0 < ReadTimeoutMS (cfg_Server cfg)" "0 < UpstreamTimeoutMS (cfg_Server cfg)" "0 < StreamIdleTimeoutMS (cfg_Server cfg)"
    "0 < MaxInflight (cfg_Server cfg)"
    unfolding cfg applyDefaults_def Let_def
    by (auto intro!: or_default_pos simp: DefaultReadTimeoutMS_def DefaultUpstreamTimeoutMS_def DefaultStreamIdleTimeoutMS_def DefaultMaxInflight_def)
  have ms: "Millisecond \<le> msToDuration n \<and> msToDuration n \<le> Hour" if "0 < n" "n \<le> MaxTimeoutMS" for n
    using that ms_exact [of n] by (simp add: MaxTimeoutMS_def time_unit_defs)
  have "MaxAttempts (withDefaults (routerOptions cfg)) \<le> 10"
    using v by (auto simp: withDefaults_def routerOptions_def Let_def valid_router_def MaxRouterAttempts_def DefaultMaxAttempts_def)
  moreover have "1 \<le> MaxAttempts (withDefaults (routerOptions cfg))" using withDefaults_pos(1) [of "routerOptions cfg"] by linarith
  moreover have "slots (su_inflight (buildGateway cfg routes hc accounting visited)) \<noteq> None"
    using pos(4) by (simp add: buildGateway_def NewServer_def WithInflightLimit_def newInflight_def)
  ultimately show ?thesis using ms range pos by (simp add: readTimeout_def)
qed

section \<open>The keys that are served\<close>

text \<open>Whom a key stands for, read off the configuration.\<close>

definition owner :: "config \<Rightarrow> string \<Rightarrow> string option" where
  "owner cfg k = (if k \<in> set (ClientKeys (cfg_Auth cfg)) then Some AnonymousTenant else map_option fst (TenantForKey cfg k))"

lemma map_of_single_valued:
  assumes "\<And>p t u. (p, t) \<in> set xs \<Longrightarrow> (p, u) \<in> set xs \<Longrightarrow> t = u"
  shows "map_of xs p = Some t \<longleftrightarrow> (p, t) \<in> set xs"
  using assms by (metis (no_types, opaque_lifting) map_of_SomeD weak_map_of_SomeI)

lemma fold_update_fresh:
  assumes "distinct (map f ts)" "fst ` set out \<inter> f ` set ts = {}"
  shows "fold (\<lambda>t. AList.update (f t) (g t)) ts out = out @ map (\<lambda>t. (f t, g t)) ts"
  using assms
proof (induction ts arbitrary: out)
  case (Cons t ts)
  then have "f t \<notin> fst ` set out" "f t \<notin> f ` set ts" by auto
  then have "AList.update (f t) (g t) out = out @ [(f t, g t)]" by (induction out) auto
  with Cons show ?case by auto
qed simp

lemma tenantKeys_valid:
  "distinct (map tc_Name (Tenants (cfg_Auth cfg))) \<Longrightarrow> tenantKeys cfg = map (\<lambda>t. (tc_Name t, tc_Keys t)) (Tenants (cfg_Auth cfg))"
  by (simp add: tenantKeys_def fold_update_fresh)

lemma find_tenant_owner:
  assumes "distinct (concat (map tc_Keys ts))"
  shows "map_option fst (find_tenant ts k) = Some n \<longleftrightarrow> (\<exists>t \<in> set ts. tc_Name t = n \<and> k \<in> set (tc_Keys t))"
  using assms by (induction ts) auto

lemma buildGateway_keys:
  "sv_clientKeys (su_server (buildGateway cfg routes hc accounting visited)) =
     key_set_of (map (\<lambda>k. (k, AnonymousTenant)) (ClientKeys (cfg_Auth cfg)) @ concat (map (\<lambda>(t, ks). map (\<lambda>k. (k, t)) ks) visited))"
proof -
  have "fold (\<lambda>(t, ks). fold (\<lambda>k. key_add (k, t)) ks) visited k = fold key_add (concat (map (\<lambda>(t, ks). map (\<lambda>k. (k, t)) ks) visited)) k" for k
    by (induction visited arbitrary: k) (auto simp: fold_map comp_def)
  then show ?thesis
    by (simp add: buildGateway_def NewServer_def WithCache_def WithAccounting_def WithClientKeys_def WithTenantKeys_def WithInflightLimit_def
        newKeySet_of key_set_of_def split: option.splits)
qed

text \<open>(C3) The gateway of a loaded configuration lets in exactly whom the configuration names. In whatever order the tenants
  are added, a presented key stands for the tenant that lists it, an unlisted key and a missing one are refused, and
  without any key in the configuration everyone is let in as the anonymous tenant, which only happens on a
  loopback listener. SHA-256 is assumed not to collide on the keys in play.\<close>

theorem served_keys_are_the_configured_ones:
  assumes load: "config_Load opened decoded env url_parse = Inr cfg" and visited: "mset visited = mset (tenantKeys cfg)"
    and path: "path \<noteq> healthPath"
    and no_collision: "\<And>p k. bearerToken auth = Some p \<Longrightarrow> k \<in> set (ClientKeys (cfg_Auth cfg)) \<union> (\<Union>t \<in> set (Tenants (cfg_Auth cfg)). set (tc_Keys t)) \<Longrightarrow>
      Sum256 k = Sum256 p \<Longrightarrow> k = p"
  shows "authenticate (sv_clientKeys (su_server (buildGateway cfg routes hc accounting visited))) path auth =
      (if RequiresAuth (buildGateway cfg routes hc accounting visited) then Option.bind (bearerToken auth) (owner cfg) else Some AnonymousTenant) \<and>
    (RequiresAuth (buildGateway cfg routes hc accounting visited) \<longleftrightarrow> hasKeys (cfg_Auth cfg)) \<and>
    (\<not> RequiresAuth (buildGateway cfg routes hc accounting visited) \<longrightarrow> isLoopbackListen (Listen (cfg_Server cfg)))"
proof -
  define gw where "gw = buildGateway cfg routes hc accounting visited"
  define adds where "adds = map (\<lambda>k. (k, AnonymousTenant)) (ClientKeys (cfg_Auth cfg)) @ concat (map (\<lambda>(t, ks). map (\<lambda>k. (k, t)) ks) visited)"
  have v: "valid_auth (Listen (cfg_Server cfg)) (cfg_Auth cfg)" using config_Load_valid(1) [OF load] by (simp add: valid_config_def)
  then have ks: "distinct (map tc_Name (Tenants (cfg_Auth cfg)))" "distinct (concat (map tc_Keys (Tenants (cfg_Auth cfg))))"
    by (auto simp: valid_auth_def)
  have keys: "sv_clientKeys (su_server gw) = key_set_of adds" by (simp add: gw_def buildGateway_keys adds_def)
  have "set visited = (\<lambda>t. (tc_Name t, tc_Keys t)) ` set (Tenants (cfg_Auth cfg))"
    using mset_eq_setD [OF visited] tenantKeys_valid [OF ks(1)] by simp
  then have adds: "(p, n) \<in> set adds \<longleftrightarrow> p \<in> set (ClientKeys (cfg_Auth cfg)) \<and> n = AnonymousTenant \<or>
      (\<exists>t \<in> set (Tenants (cfg_Auth cfg)). tc_Name t = n \<and> p \<in> set (tc_Keys t))" for p n
    by (auto simp: adds_def)
  have long: "p \<noteq> []" if "(p, n) \<in> set adds" for p n
    using that v by (fastforce simp: adds valid_auth_def MinClientKeyLength_def)
  have own: "owner cfg p = Some n \<longleftrightarrow> p \<noteq> [] \<and> (p, n) \<in> set adds" for p n
    using v find_tenant_owner [OF ks(2)] long [of p n] by (auto simp: owner_def TenantForKey_def adds valid_auth_def)
  have "t = u" if "(p, t) \<in> set (rev adds)" "(p, u) \<in> set (rev adds)" for p t u
    using that own [of p t] own [of p u] long by simp
  then have "map_of (rev adds) p = Some n \<longleftrightarrow> (p, n) \<in> set adds" for p n
    using map_of_single_valued [of "rev adds"] by (metis set_rev)
  then have found: "p \<noteq> [] \<and> map_of (rev adds) p = Some n \<longleftrightarrow> owner cfg p = Some n" for p n using own by blast
  have "adds \<noteq> [] \<longleftrightarrow> (\<exists>p n. (p, n) \<in> set adds)" by (cases adds) auto
  also have "\<dots> \<longleftrightarrow> hasKeys (cfg_Auth cfg)" unfolding adds hasKeys_def by (metis list.set_intros(1) neq_Nil_conv equals0D set_empty)
  finally have has: "hasKeys (cfg_Auth cfg) \<longleftrightarrow> adds \<noteq> []" by simp
  have "filter (\<lambda>(k, _). k \<noteq> []) adds = adds" using long by (auto simp: filter_id_conv)
  then have req: "RequiresAuth gw \<longleftrightarrow> adds \<noteq> []" by (simp add: RequiresAuth_def keys key_empty_def key_set_of_lists)
  have "authenticate (key_set_of adds) path auth = (if RequiresAuth gw then Option.bind (bearerToken auth) (owner cfg) else Some AnonymousTenant)"
  proof (cases "adds = []")
    case True
    then show ?thesis using req by (simp add: authenticate_def key_empty_def key_set_of_lists)
  next
    case False
    then obtain p n where "(p, n) \<in> set adds" by (cases adds) auto
    then have ne: "\<exists>(k, _) \<in> set adds. k \<noteq> []" using long by blast
    have "authenticate (key_set_of adds) path auth = Some t \<longleftrightarrow> Option.bind (bearerToken auth) (owner cfg) = Some t" for t
      using found by (subst authenticate_of [OF path ne]) (auto simp: adds bind_eq_Some_conv intro: no_collision)
    then show ?thesis using req False by (metis option.exhaust)
  qed
  then show ?thesis using req has v keys unfolding gw_def valid_auth_def by auto
qed

section \<open>Witnesses\<close>

lemma config_Load_valid_config:
  assumes "fst (expandSecrets env cfg) = []" "valid_config url_parse (applyDefaults (snd (expandSecrets env cfg)))"
  shows "config_Load True (Some cfg) env url_parse = Inr (applyDefaults (snd (expandSecrets env cfg)))"
  using assms config_Validate_Nil by (auto simp: config_Load_def Let_def split: prod.splits)

definition demo_url :: "string \<Rightarrow> (string \<times> string) option" where
  "demo_url s = Some (''http'', drop 7 s)"

definition demo_loaded :: config where
  "demo_loaded = demo_config\<lparr>cfg_Server := \<lparr>Listen = '':8080'', ReadTimeoutMS = 30000, UpstreamTimeoutMS = 120000, StreamIdleTimeoutMS = 5000,
       AdminListen = ''127.0.0.1:9090'', MaxInflight = 256\<rparr>,
     cfg_Providers := map (\<lambda>p. p\<lparr>pc_APIKey := ''secret''\<rparr>) (cfg_Providers demo_config),
     cfg_Telemetry := \<lparr>ServiceName = ''penstock'', OTLPEndpoint = [], LogLevel = ''info''\<rparr>\<rparr>"

lemma demo_valid: "valid_config demo_url demo_loaded"
  by (simp add: valid_config_def demo_loaded_def demo_config_def demo_tenant_def demo_provider_def demo_url_def valid_server_def valid_router_def
      valid_cache_def valid_auth_def valid_limits_def valid_provider_def valid_route_def serves_def hasKeys_def Chain_def UpstreamModel_def
      MaxTimeoutMS_def MinClientKeyLength_def MaxRouterAttempts_def MaxBreakerCooldownSeconds_def AllKinds_def LogLevels_def tenantNamePattern_def
      name_char_def name_start_def)

lemma demo_loads: "config_Load True (Some demo_config) (demo_env ''secret'') demo_url = Inr demo_loaded"
proof -
  have "fst (expandSecrets (demo_env ''secret'') demo_config) = []" by code_simp
  moreover have "applyDefaults (snd (expandSecrets (demo_env ''secret'') demo_config)) = demo_loaded" by code_simp
  ultimately show ?thesis using config_Load_valid_config [of "demo_env ''secret''" demo_config demo_url] demo_valid by simp
qed

theorem loaded_config_boots_witness:
  "\<exists>provs health routes rt. BuildAll registered [] (cfg_Providers demo_loaded) = Inr provs \<and> buildRoutes demo_loaded provs = Inr (health, routes) \<and>
     map_of routes ''m'' = Some rt \<and> r_names rt = [''p'', ''q'']"
  using loaded_config_boots [OF demo_loads] by (auto simp: demo_loaded_def demo_config_def Chain_def)

theorem loaded_deadlines_are_real_witness:
  "readTimeout demo_loaded = 30 * Second \<and> readTimeout demo_loaded \<le> Hour \<and>
   slots (su_inflight (buildGateway demo_loaded [] (answering []) (None :: unit accountant option) [])) \<noteq> None"
  using loaded_deadlines_are_real [OF demo_loads, of "[]" "answering []" "None :: unit accountant option" "[]"]
  by (simp add: readTimeout_def demo_loaded_def msToDuration_def time_unit_defs int64_ok_def)

text \<open>A single key: presented it stands for its tenant, and without it the caller is refused.\<close>

definition lone_auth :: auth_config where
  "lone_auth = \<lparr>ClientKeys = [], Tenants = [demo_tenant ''ann'' [''key-of-ann-00001'']]\<rparr>"

lemma lone_valid: "valid_config demo_url (demo_loaded\<lparr>cfg_Auth := lone_auth\<rparr>)"
proof -
  have "valid_auth '':8080'' lone_auth"
    by (simp add: valid_auth_def lone_auth_def demo_tenant_def hasKeys_def MinClientKeyLength_def tenantNamePattern_def name_char_def
        name_start_def valid_limits_def)
  then show ?thesis using demo_valid by (simp add: valid_config_def demo_loaded_def)
qed

lemma lone_loads:
  "config_Load True (Some (demo_config\<lparr>cfg_Auth := lone_auth\<rparr>)) (demo_env ''secret'') demo_url = Inr (demo_loaded\<lparr>cfg_Auth := lone_auth\<rparr>)"
proof -
  let ?cfg = "demo_config\<lparr>cfg_Auth := lone_auth\<rparr>"
  have "fst (expandSecrets (demo_env ''secret'') ?cfg) = []" by code_simp
  moreover have "applyDefaults (snd (expandSecrets (demo_env ''secret'') ?cfg)) = demo_loaded\<lparr>cfg_Auth := lone_auth\<rparr>" by code_simp
  ultimately show ?thesis using config_Load_valid_config [of "demo_env ''secret''" ?cfg demo_url] lone_valid by simp
qed

theorem served_keys_are_the_configured_ones_witness:
  "let cfg = demo_loaded\<lparr>cfg_Auth := lone_auth\<rparr>; gw = buildGateway cfg [] (answering []) (None :: unit accountant option) (tenantKeys cfg) in
   RequiresAuth gw \<and> authenticate (sv_clientKeys (su_server gw)) chatPath ''bearer key-of-ann-00001'' = Some ''ann'' \<and>
   authenticate (sv_clientKeys (su_server gw)) chatPath [] = None"
proof -
  let ?cfg = "demo_loaded\<lparr>cfg_Auth := lone_auth\<rparr>"
  have "bearerToken [] = None" "bearerToken ''bearer key-of-ann-00001'' = Some ''key-of-ann-00001''" by code_simp+
  moreover have "hasKeys (cfg_Auth ?cfg)" "owner ?cfg ''key-of-ann-00001'' = Some ''ann''"
    by (simp_all add: hasKeys_def owner_def TenantForKey_def lone_auth_def demo_tenant_def)
  moreover note served_keys_are_the_configured_ones [OF lone_loads refl, of chatPath "[]" "[]" "answering []" "None :: unit accountant option"]
    served_keys_are_the_configured_ones [OF lone_loads refl, of chatPath "''bearer key-of-ann-00001''" "[]" "answering []" "None :: unit accountant option"]
  ultimately show ?thesis by (simp add: Let_def chatPath_def healthPath_def lone_auth_def demo_tenant_def)
qed

end
