(* ===== verification/Spec2Isabelle.thy ===== *)
theory Spec2Isabelle
  imports Router_Orchestrator Budget_Accounting Budget_Store Budget_Guard Budget_Estimator Gateway_Requests Observability Startup
begin

text \<open>
  Verification of Penstock, a gateway for language model APIs written in Go. Clients speak the OpenAI chat API to it;
  it authenticates them, charges their tenant's budget, answers from a cache or routes the request over a chain of
  providers with retries and circuit breakers, translates to and from the vendor's API, relays streams, and bills what
  the upstream reported. The development models that whole path, and the construction of the process that serves it.

  \<^bold>\<open>How a request travels, and what models it.\<close>

  \<^item> Start up. \<^verbatim>\<open>src/cmd/penstock/main.go\<close> loads the configuration (\<^verbatim>\<open>src/internal/config\<close>), builds the adapters
    (\<^verbatim>\<open>src/internal/providers/factory.go\<close>), one router per route, the accounting and the cache, and hands them to the
    server. Theories \<^verbatim>\<open>Configuration\<close> (records of the file, secret expansion, defaults, every validation with its message),
    \<^verbatim>\<open>Configuration_Valid\<close> (the well formedness conditions those scans decide), \<^verbatim>\<open>Go_Net\<close> (listen addresses) and
    \<^verbatim>\<open>Startup\<close> (the construction functions of the process and the server's options).
  \<^item> Ingress (\<^verbatim>\<open>src/internal/ingress\<close>). \<^verbatim>\<open>Gateway_HTTP\<close> has the key set, the limiter, denials and error bodies,
    \<^verbatim>\<open>Redaction\<close> the scrubbing of upstream messages, \<^verbatim>\<open>Gateway_Chat\<close> the handlers, the stream loop with its timers, the
    cached path and the middleware, \<^verbatim>\<open>Gateway_Requests\<close> the properties of the whole handler stack. A handler is a function on
    the gateway's state (writer, accountant, cache, log, metrics) and a schedule of what the clock, the upstream and
    the client do; a panic is a result of its own.
  \<^item> Budgets (\<^verbatim>\<open>src/internal/budget\<close>). \<^verbatim>\<open>Budget_Enforcer\<close> has every operation of the in memory enforcer as one step under
    its mutex, \<^verbatim>\<open>Budget_Accounting\<close> its runs over any interleaving of tenants, \<^verbatim>\<open>Budget_Store\<close> the SQLite mirror and the
    ordering of its writes, \<^verbatim>\<open>Budget_Estimator\<close> the estimates read off a chat body, \<^verbatim>\<open>Budget_Guard\<close> the entry point that joins them
    with \<^verbatim>\<open>Pricing\<close> (\<^verbatim>\<open>src/internal/pricing\<close>: the price table, costs and the ledger).
  \<^item> Routing (\<^verbatim>\<open>src/internal/router\<close>). \<^verbatim>\<open>Router_Health\<close> has the failure policy and the circuit breaker, \<^verbatim>\<open>Router_Selector\<close> the
    ordering strategies, \<^verbatim>\<open>Router_Orchestrator\<close> the attempt loop behind \<^verbatim>\<open>Chat\<close> and \<^verbatim>\<open>ChatStream\<close>.
  \<^item> Providers (\<^verbatim>\<open>src/internal/providers\<close>). \<^verbatim>\<open>Providers\<close> is the contract (usage, chunks, error classes), \<^verbatim>\<open>SSE\<close> the event scanner and
    the frame writer, \<^verbatim>\<open>OpenAI_Wire\<close> the adapter for OpenAI shaped vendors, \<^verbatim>\<open>Chat_Translation\<close>, \<^verbatim>\<open>Event_Reader\<close>, \<^verbatim>\<open>Anthropic\<close> and
    \<^verbatim>\<open>Gemini\<close> the two translating adapters, \<^verbatim>\<open>Answer_Text\<close> what a client reads in their answers, \<^verbatim>\<open>Provider_Rewrite\<close> the retargeting
    of a request at another model name.
  \<^item> Caching (\<^verbatim>\<open>src/internal/cache\<close>). \<^verbatim>\<open>Cache_Exact\<close> has the linked recency list on an explicit heap of nodes, \<^verbatim>\<open>Cache_Lookup\<close> the
    eligibility rules, the request key, the semantic store and the two tiers behind one call, \<^verbatim>\<open>Embedder\<close> the client that turns a
    prompt into a vector.
  \<^item> Operators (\<^verbatim>\<open>src/internal/admin\<close>). \<^verbatim>\<open>Admin\<close> has the routing table, the handlers and the tenant view.
  \<^item> Measurements (\<^verbatim>\<open>src/internal/obs\<close>). \<^verbatim>\<open>Observability\<close> has the metrics sink with its instruments and labels; the log level is in
    \<^verbatim>\<open>Startup\<close>.
  \<^item> Libraries of Go. \<^verbatim>\<open>Prelude\<close> (64 bit integers with wrap-around, instants, decimal printing, shared lemmas), \<^verbatim>\<open>Float64\<close> (IEEE
    double arithmetic as rounded rationals), \<^verbatim>\<open>Go_Format\<close>, \<^verbatim>\<open>JSON\<close>, \<^verbatim>\<open>JSON_Encode\<close>, \<^verbatim>\<open>JSON_Roundtrip\<close> and \<^verbatim>\<open>SHA256\<close> model what the
    source uses of the standard library.

  \<^bold>\<open>What is shown.\<close>

  \<^item> Money. Over every interleaving spend and claims stay within the caps plus a stated overshoot, a settlement is final,
    the ledger adds up to the enforcer's totals, the stored row is the newest settled one, a restart forgets no spend,
    costs are within four roundings of the exact product, every claim a request takes is closed by the handler stack, and
    the cost metrics and the ledger agree row by row.
  \<^item> Routing. A request stays within its attempt budget, reaches a healthy peer if there is one, and reports the outcome of
    its last attempt; the breaker keeps its invariant and honours upstream pauses.
  \<^item> Streams. Frames round trip, a stream is relayed whole and in order, for each of the three adapters a body that was cut
    anywhere is reported as truncated and never as whole, and only whole streams are cached.
  \<^item> Answers. The text of an Anthropic stream and of a Gemini answer reaches the client character by character; a
    retargeted request keeps every other field; an exact hit answers the very question asked; the cache is a least
    recently used list.
  \<^item> Configuration. Validation accepts exactly the well formed configurations and no report depends on a secret's value; one
    that loads can be built without error, gets real deadlines, and admits exactly the callers it names.
  \<^item> Defects. A few theorems state what the code does where it departs from what it means to do: the wrap-around of a huge
    completion cap, the alarm another tenant clears, the recorded stream that answers with nothing, the renamed
    stream billed at zero, the refused Gemini prompt that reads as truncated.

  \<^bold>\<open>Contracts.\<close> Interfaces are locales interpreted on the model's own definitions, next to the code that provides
  them: the reading protocol of the translating adapters (\<^verbatim>\<open>answer_protocol\<close> in \<^verbatim>\<open>Event_Reader\<close>, interpreted for Anthropic and
  Gemini) and those of the budget, cache and routing theories. The abstract specifications are the recency list of the exact
  cache, the exact rational cost, the set of well formed configurations and the windows a restart must restore.

  \<^bold>\<open>Bounds and fuel.\<close> Integers of the source are HOL integers with wrap-around written out wherever the code does arithmetic
  on them. Loops are structural or come with a measure (the remaining body, the remaining providers and attempts, the
  length of a text); the JSON parser's fuel is the length of its input, which every recursive call shortens. Size limits
  are those of the source: one mebibyte for an event, 32 mebibytes for an answer, 10000 levels of JSON.

  \<^bold>\<open>What stands in for code outside the repository.\<close> The HTTP client, SQL driver, YAML decoder, environment, \<^verbatim>\<open>url.Parse\<close>,
  the clock, randomness and the order in which Go visits a map are arguments. Where a property needs something of them it is a
  hypothesis: SHA-256 does not collide on the keys in play, a random identifier is ASCII.

  \<^bold>\<open>Simplifications.\<close> A float is never infinite or not a number, and there is no negative zero. A repeated JSON key of an array
  of structs decodes as its last value alone, where Go merges into the old elements. Space trimming knows ASCII spaces. A write
  to a client either arrives or fails as a whole. \<^verbatim>\<open>ServeMux\<close> redirects of unclean paths are left out.

  \<^bold>\<open>Not modelled.\<close> The metrics registry, the log writer and tracing are calls into libraries; what the handlers log, count and
  measure is part of their model. Listeners, signals and shutdown belong to \<^verbatim>\<open>net/http\<close> and the operating system. The simulator,
  the conformance suite, the studies and the plots are tools beside the gateway.
\<close>

end
